(* ===== verification/Prelude.thy ===== *)
theory Prelude
  imports Main "HOL-Library.Word" "HOL-Library.Sublist"
begin

text \<open>
  Shared vocabulary of the development: the Rust integer types as machine words, Rust's
  \<open>Result\<close> as a sum type with its \<open>?\<close> operator, the checked and saturating
  arithmetic of the standard library that the sources call, \<open>core::fmt\<close> number
  formatting, and the generic lemmas on words and lists that the component proofs use.

  Arithmetic written with the plain operators \<open>+\<close>, \<open>-\<close>, \<open>*\<close> of the sources is
  modelled with the wrap-around of the release profile; where a debug build would panic
  instead, the component theories prove that no overflow happens on the inputs the crate
  accepts (or show the input on which it does).
\<close>

unbundle bit_operations_syntax

named_theorems rust_defs \<open>definitions of the modelled standard-library operations\<close>

section \<open>Machine types\<close>

type_synonym u8 = "8 word"
type_synonym i16 = "16 word"
type_synonym u32 = "32 word"
type_synonym i32 = "32 word"
type_synonym u64 = "64 word"
type_synonym usize = "64 word"
type_synonym raw_fd = "32 word"

text \<open>A byte literal \<open>b'c'\<close>.\<close>

abbreviation byte :: "char \<Rightarrow> u8" where
  "byte c \<equiv> of_char c"

text \<open>The length of a slice as the program sees it, a \<open>usize\<close>.\<close>

definition slice_len :: "'a list \<Rightarrow> usize" where
  "slice_len xs = of_nat (length xs)"

text \<open>Rust's \<open>isize::MAX\<close> bounds the size of every slice in bytes.\<close>

abbreviation fits_slice :: "'a list \<Rightarrow> bool" where
  "fits_slice xs \<equiv> length xs < 2 ^ 63"

section \<open>Results\<close>

abbreviation Ok :: "'a \<Rightarrow> 'e + 'a" where
  "Ok \<equiv> Inr"

abbreviation Err :: "'e \<Rightarrow> 'e + 'a" where
  "Err \<equiv> Inl"

text \<open>The \<open>?\<close> operator: an error returns from the caller at once.\<close>

fun try_bind :: "'e + 'a \<Rightarrow> ('a \<Rightarrow> 'e + 'b) \<Rightarrow> 'e + 'b" where
  "try_bind (Inl e) f = Inl e"
| "try_bind (Inr x) f = f x"

section \<open>Checked and saturating arithmetic\<close>

definition checked_add :: "'a::len word \<Rightarrow> 'a word \<Rightarrow> 'a word option" where
  [rust_defs]: "checked_add a b = (if unat a + unat b < 2 ^ LENGTH('a) then Some (a + b) else None)"

definition checked_mul :: "'a::len word \<Rightarrow> 'a word \<Rightarrow> 'a word option" where
  [rust_defs]: "checked_mul a b = (if unat a * unat b < 2 ^ LENGTH('a) then Some (a * b) else None)"

definition saturating_add :: "'a::len word \<Rightarrow> 'a word \<Rightarrow> 'a word" where
  [rust_defs]: "saturating_add a b = (if unat a + unat b < 2 ^ LENGTH('a) then a + b else - 1)"

section \<open>Indexing\<close>

text \<open>Indexing a slice or a vector out of range panics; \<open>None\<close> is the panic.\<close>

definition get_index :: "'a list \<Rightarrow> nat \<Rightarrow> 'a option" where
  "get_index xs i = (if i < length xs then Some (xs ! i) else None)"

definition set_index :: "'a list \<Rightarrow> nat \<Rightarrow> 'a \<Rightarrow> 'a list option" where
  "set_index xs i v = (if i < length xs then Some (xs[i := v]) else None)"

section \<open>Number formatting\<close>

text \<open>\<open>{}\<close> on an unsigned number, \<open>{}\<close> and \<open>{:+}\<close> on a signed one.\<close>

definition digit_char :: "nat \<Rightarrow> char" where
  "digit_char d = ''0123456789abcdef'' ! d"

fun show_nat :: "nat \<Rightarrow> string" where
  "show_nat n = (if n < 10 then [digit_char n] else show_nat (n div 10) @ [digit_char (n mod 10)])"

definition show_int :: "int \<Rightarrow> string" where
  "show_int k = (if k < 0 then ''-'' @ show_nat (nat (- k)) else show_nat (nat k))"

definition show_int_plus :: "int \<Rightarrow> string" where
  "show_int_plus k = (if k < 0 then ''-'' @ show_nat (nat (- k)) else ''+'' @ show_nat (nat k))"

text \<open>\<open>{:04}\<close> pads with zeros to four columns; \<open>{:02x}\<close> prints a byte in hexadecimal.\<close>

definition show_pad4 :: "nat \<Rightarrow> string" where
  "show_pad4 n = (let s = show_nat n in replicate (4 - length s) (CHR ''0'') @ s)"

definition show_hex2 :: "u8 \<Rightarrow> string" where
  "show_hex2 b = [digit_char (unat b div 16), digit_char (unat b mod 16)]"

declare show_nat.simps [simp del]

section \<open>Generic lemmas\<close>

subsection \<open>Results\<close>

lemma try_bind_cong [fundef_cong]:
  "r = r' \<Longrightarrow> (\<And>x. r' = Inr x \<Longrightarrow> f x = g x) \<Longrightarrow> try_bind r f = try_bind r' g"
  by (cases r') auto

lemma try_bind_Inr_iff [simp]: "try_bind r f = Inr y \<longleftrightarrow> (\<exists>x. r = Inr x \<and> f x = Inr y)"
  by (cases r) auto

lemma try_bind_Inl_iff: "try_bind r f = Inl e \<longleftrightarrow> r = Inl e \<or> (\<exists>x. r = Inr x \<and> f x = Inl e)"
  by (cases r) auto

subsection \<open>Indexing\<close>

lemma set_index_append [simp]:
  "set_index (xs @ y # ys) (length xs) v = Some (xs @ v # ys)"
  by (simp add: set_index_def)

lemma get_index_append [simp]: "get_index (xs @ y # ys) (length xs) = Some y"
  by (simp add: get_index_def)

subsection \<open>Words\<close>

lemma unat_slice_len: "fits_slice xs \<Longrightarrow> unat (slice_len xs) = length xs"
  by (simp add: slice_len_def unat_of_nat)

lemma unat_bound: "unat (w :: 'a::len word) < 2 ^ LENGTH('a)"
  by (rule unsigned_less)

lemma unat_u8_bound: "unat (b :: u8) < 256"
  using unat_bound [of b] by simp

lemma word_of_unat: "unat w = n \<Longrightarrow> w = of_nat n"
  by auto

lemma checked_add_Some_iff:
  "checked_add a b = Some c \<longleftrightarrow> unat a + unat b < 2 ^ LENGTH('a) \<and> c = a + b"
  for a b c :: "'a::len word"
  by (auto simp: checked_add_def)

lemma unat_add_small:
  "unat a + unat b < 2 ^ LENGTH('a) \<Longrightarrow> unat (a + b) = unat a + unat b"
  for a b :: "'a::len word"
  by (simp add: unat_word_ariths)

lemma unat_mult_small:
  "unat a * unat b < 2 ^ LENGTH('a) \<Longrightarrow> unat (a * b) = unat a * unat b"
  for a b :: "'a::len word"
  by (simp add: unat_word_ariths)

lemma sint_of_int_16: "- 32768 \<le> k \<Longrightarrow> k < 32768 \<Longrightarrow> sint (word_of_int k :: 16 word) = k"
  by (simp add: signed_take_bit_int_eq_self sint_word_ariths sint_sbintrunc')

lemma sint_nonneg_uint:
  fixes k :: "'a::len word"
  assumes "0 \<le> sint k"
  shows "uint k = sint k"
proof -
  have "sint k < 2 ^ (LENGTH('a) - 1)"
    using sint_less [of k] by simp
  also have "(2::int) ^ (LENGTH('a) - 1) \<le> 2 ^ LENGTH('a)"
    by (rule power_increasing) simp_all
  finally show ?thesis
    using assms by (simp add: uint_sint take_bit_int_eq_self)
qed

lemma scast_nonneg: "0 \<le> sint k \<Longrightarrow> (scast k :: 'b::len word) = ucast k" for k :: "'a::len word"
  using sint_nonneg_uint [of k] by (metis of_int_sint of_int_uint)

lemma sint_of_nat_16: "k < 32768 \<Longrightarrow> sint (of_nat k :: 16 word) = int k"
  using sint_of_int_16 [of "int k"] by simp

lemma sint_neg_of_nat_16: "k \<le> 32768 \<Longrightarrow> sint (- of_nat k :: 16 word) = - int k"
  using sint_of_int_16 [of "- int k"] by simp

lemma scast_of_nat_16: "k < 32768 \<Longrightarrow> (scast (of_nat k :: 16 word) :: u64) = of_nat k"
  using sint_of_nat_16 [of k] by (metis of_int_of_nat_eq of_int_sint)

lemma ucast_u8_via_i32: "(ucast (ucast (b :: u8) :: i32) :: u64) = ucast b"
  by (rule bit_word_eqI) (auto simp: bit_simps dest: bit_imp_le_length)

lemma unat_ucast_u8: "unat (ucast (b :: u8) :: u64) = unat b"
  using unat_u8_bound [of b] by (simp add: unsigned_ucast_eq take_bit_nat_eq_self)

lemma ucast_u8_compare:
  "(ucast a :: u64) < ucast (ucast b :: i32) \<longleftrightarrow> a < b"
  "(ucast a :: u64) \<le> ucast (ucast b :: i32) \<longleftrightarrow> a \<le> b"
  "(ucast a :: u64) = ucast (ucast b :: i32) \<longleftrightarrow> a = b" for a b :: u8
  by (simp_all add: word_less_nat_alt word_le_nat_alt word_unat_eq_iff unat_ucast_u8 ucast_u8_via_i32)

lemma sint_ucast_u8: "0 \<le> sint (ucast (b :: u8) :: i32)"
  by (auto simp: sint_uint bit_simps dest: bit_imp_le_length)

end
