(* ===== verification/Assembler.thy ===== *)
theory Assembler
  imports Prelude
begin

text \<open>
  The assembler (\<open>src/assembler.rs\<close>): the instruction word \<open>BpfInsn\<close>, the opcode and
  register constants, the constructor macros, and the disassembler behind \<open>Display\<close> and
  \<open>format_program\<close>. The lemmas give the fields of every instruction a macro builds; the
  properties state that register packing loses nothing, that the instruction word round
  trips through its in-memory bytes, and what the listing of a program looks like.
\<close>

unbundle bit_operations_syntax

named_theorems bpf_opcodes \<open>the numeric values of the opcode and register constants\<close>
named_theorems insn_fields \<open>the fields of the instructions the macros build\<close>

section \<open>The instruction word\<close>

record bpf_insn =
  code :: u8
  regs :: u8
  off :: i16
  imm :: i32

definition bpf_insn_new :: "u8 \<Rightarrow> u8 \<Rightarrow> u8 \<Rightarrow> i16 \<Rightarrow> i32 \<Rightarrow> bpf_insn" where
  "bpf_insn_new c dst src o' k =
     \<lparr>code = c, regs = (push_bit 4 src) OR (dst AND 0x0F), off = o', imm = k\<rparr>"

definition dst_reg :: "bpf_insn \<Rightarrow> u8" where
  "dst_reg i = regs i AND 0x0F"

definition src_reg :: "bpf_insn \<Rightarrow> u8" where
  "src_reg i = drop_bit 4 (regs i)"

section \<open>Constants\<close>

text \<open>Instruction classes.\<close>

definition BPF_LD :: u8 where [bpf_opcodes]: "BPF_LD = 0x00"
definition BPF_LDX :: u8 where [bpf_opcodes]: "BPF_LDX = 0x01"
definition BPF_ST :: u8 where [bpf_opcodes]: "BPF_ST = 0x02"
definition BPF_STX :: u8 where [bpf_opcodes]: "BPF_STX = 0x03"
definition BPF_ALU :: u8 where [bpf_opcodes]: "BPF_ALU = 0x04"
definition BPF_JMP :: u8 where [bpf_opcodes]: "BPF_JMP = 0x05"
definition BPF_JMP32 :: u8 where [bpf_opcodes]: "BPF_JMP32 = 0x06"
definition BPF_ALU64 :: u8 where [bpf_opcodes]: "BPF_ALU64 = 0x07"

text \<open>Memory sizes.\<close>

definition BPF_B :: u8 where [bpf_opcodes]: "BPF_B = 0x10"
definition BPF_H :: u8 where [bpf_opcodes]: "BPF_H = 0x08"
definition BPF_W :: u8 where [bpf_opcodes]: "BPF_W = 0x00"
definition BPF_DW :: u8 where [bpf_opcodes]: "BPF_DW = 0x18"

text \<open>ALU operations.\<close>

definition BPF_ADD :: u8 where [bpf_opcodes]: "BPF_ADD = 0x00"
definition BPF_SUB :: u8 where [bpf_opcodes]: "BPF_SUB = 0x10"
definition BPF_MUL :: u8 where [bpf_opcodes]: "BPF_MUL = 0x20"
definition BPF_DIV :: u8 where [bpf_opcodes]: "BPF_DIV = 0x30"
definition BPF_OR :: u8 where [bpf_opcodes]: "BPF_OR = 0x40"
definition BPF_AND :: u8 where [bpf_opcodes]: "BPF_AND = 0x50"
definition BPF_LSH :: u8 where [bpf_opcodes]: "BPF_LSH = 0x60"
definition BPF_RSH :: u8 where [bpf_opcodes]: "BPF_RSH = 0x70"
definition BPF_NEG :: u8 where [bpf_opcodes]: "BPF_NEG = 0x80"
definition BPF_MOD :: u8 where [bpf_opcodes]: "BPF_MOD = 0x90"
definition BPF_XOR :: u8 where [bpf_opcodes]: "BPF_XOR = 0xa0"
definition BPF_MOV :: u8 where [bpf_opcodes]: "BPF_MOV = 0xb0"
definition BPF_ARSH :: u8 where [bpf_opcodes]: "BPF_ARSH = 0xc0"
definition BPF_END :: u8 where [bpf_opcodes]: "BPF_END = 0xd0"

text \<open>Jump operations.\<close>

definition BPF_JA :: u8 where [bpf_opcodes]: "BPF_JA = 0x00"
definition BPF_JEQ :: u8 where [bpf_opcodes]: "BPF_JEQ = 0x10"
definition BPF_JGT :: u8 where [bpf_opcodes]: "BPF_JGT = 0x20"
definition BPF_JGE :: u8 where [bpf_opcodes]: "BPF_JGE = 0x30"
definition BPF_JSET :: u8 where [bpf_opcodes]: "BPF_JSET = 0x40"
definition BPF_JNE :: u8 where [bpf_opcodes]: "BPF_JNE = 0x50"
definition BPF_JSGT :: u8 where [bpf_opcodes]: "BPF_JSGT = 0x60"
definition BPF_JSGE :: u8 where [bpf_opcodes]: "BPF_JSGE = 0x70"
definition BPF_CALL :: u8 where [bpf_opcodes]: "BPF_CALL = 0x80"
definition BPF_EXIT :: u8 where [bpf_opcodes]: "BPF_EXIT = 0x90"
definition BPF_JLT :: u8 where [bpf_opcodes]: "BPF_JLT = 0xa0"
definition BPF_JLE :: u8 where [bpf_opcodes]: "BPF_JLE = 0xb0"
definition BPF_JSLT :: u8 where [bpf_opcodes]: "BPF_JSLT = 0xc0"
definition BPF_JSLE :: u8 where [bpf_opcodes]: "BPF_JSLE = 0xd0"

text \<open>Operand sources.\<close>

definition BPF_K :: u8 where [bpf_opcodes]: "BPF_K = 0x00"
definition BPF_X :: u8 where [bpf_opcodes]: "BPF_X = 0x08"

text \<open>Memory modes.\<close>

definition BPF_IMM :: u8 where [bpf_opcodes]: "BPF_IMM = 0x00"
definition BPF_ABS :: u8 where [bpf_opcodes]: "BPF_ABS = 0x20"
definition BPF_IND :: u8 where [bpf_opcodes]: "BPF_IND = 0x40"
definition BPF_MEM :: u8 where [bpf_opcodes]: "BPF_MEM = 0x60"

text \<open>Registers.\<close>

definition R0 :: u8 where [bpf_opcodes]: "R0 = 0"
definition R1 :: u8 where [bpf_opcodes]: "R1 = 1"
definition R2 :: u8 where [bpf_opcodes]: "R2 = 2"
definition R3 :: u8 where [bpf_opcodes]: "R3 = 3"
definition R4 :: u8 where [bpf_opcodes]: "R4 = 4"
definition R5 :: u8 where [bpf_opcodes]: "R5 = 5"
definition R6 :: u8 where [bpf_opcodes]: "R6 = 6"
definition R7 :: u8 where [bpf_opcodes]: "R7 = 7"
definition R8 :: u8 where [bpf_opcodes]: "R8 = 8"
definition R9 :: u8 where [bpf_opcodes]: "R9 = 9"
definition R10 :: u8 where [bpf_opcodes]: "R10 = 10"

section \<open>Constructor macros\<close>

definition alu64_imm :: "u8 \<Rightarrow> u8 \<Rightarrow> i32 \<Rightarrow> bpf_insn" where
  "alu64_imm op dst k = bpf_insn_new (BPF_ALU64 OR op OR BPF_K) dst 0 0 k"

definition alu64_reg :: "u8 \<Rightarrow> u8 \<Rightarrow> u8 \<Rightarrow> bpf_insn" where
  "alu64_reg op dst src = bpf_insn_new (BPF_ALU64 OR op OR BPF_X) dst src 0 0"

definition ldx_mem :: "u8 \<Rightarrow> u8 \<Rightarrow> u8 \<Rightarrow> i16 \<Rightarrow> bpf_insn" where
  "ldx_mem sz dst src o' = bpf_insn_new (BPF_LDX OR BPF_MEM OR sz) dst src o' 0"

definition jmp_imm :: "u8 \<Rightarrow> u8 \<Rightarrow> i32 \<Rightarrow> i16 \<Rightarrow> bpf_insn" where
  "jmp_imm op dst k o' = bpf_insn_new (BPF_JMP OR op OR BPF_K) dst 0 o' k"

definition jmp_reg :: "u8 \<Rightarrow> u8 \<Rightarrow> u8 \<Rightarrow> i16 \<Rightarrow> bpf_insn" where
  "jmp_reg op dst src o' = bpf_insn_new (BPF_JMP OR op OR BPF_X) dst src o' 0"

definition exit_insn :: bpf_insn where
  "exit_insn = bpf_insn_new (BPF_JMP OR BPF_EXIT) 0 0 0 0"

section \<open>Disassembly\<close>

definition show_reg :: "u8 \<Rightarrow> string" where
  "show_reg r = ''r'' @ show_nat (unat r)"

text \<open>The jump target printed by the \<open>goto\<close> mnemonics: the \<open>i16\<close> sum \<open>self.off + 1\<close>.\<close>

definition show_goto :: "bpf_insn \<Rightarrow> string" where
  "show_goto i = ''goto '' @ show_int_plus (sint (off i + 1))"

definition display :: "bpf_insn \<Rightarrow> string" where
  "display i =
    (if code i = BPF_JMP OR BPF_EXIT then ''exit''
     else if code i = BPF_LDX OR BPF_MEM OR BPF_B then
       show_reg (dst_reg i) @ '' = *(u8 *)('' @ show_reg (src_reg i) @ '' + '' @ show_int (sint (off i)) @ '')''
     else if code i = BPF_LDX OR BPF_MEM OR BPF_W then
       show_reg (dst_reg i) @ '' = *(u32 *)('' @ show_reg (src_reg i) @ '' + '' @ show_int (sint (off i)) @ '')''
     else if code i = BPF_ALU64 OR BPF_MOV OR BPF_K then
       show_reg (dst_reg i) @ '' = '' @ show_int (sint (imm i))
     else if code i = BPF_ALU64 OR BPF_MOV OR BPF_X then
       show_reg (dst_reg i) @ '' = '' @ show_reg (src_reg i)
     else if code i = BPF_ALU64 OR BPF_ADD OR BPF_K then
       show_reg (dst_reg i) @ '' += '' @ show_int (sint (imm i))
     else if code i = BPF_ALU64 OR BPF_ADD OR BPF_X then
       show_reg (dst_reg i) @ '' += '' @ show_reg (src_reg i)
     else if code i = BPF_JMP OR BPF_JA then show_goto i
     else if code i = BPF_JMP OR BPF_JEQ OR BPF_K then
       ''if '' @ show_reg (dst_reg i) @ '' == '' @ show_int (sint (imm i)) @ '' '' @ show_goto i
     else if code i = BPF_JMP OR BPF_JNE OR BPF_K then
       ''if '' @ show_reg (dst_reg i) @ '' != '' @ show_int (sint (imm i)) @ '' '' @ show_goto i
     else if code i = BPF_JMP OR BPF_JGT OR BPF_X then
       ''if '' @ show_reg (dst_reg i) @ '' > '' @ show_reg (src_reg i) @ '' '' @ show_goto i
     else if code i = BPF_JMP OR BPF_JLT OR BPF_K then
       ''if '' @ show_reg (dst_reg i) @ '' < '' @ show_int (sint (imm i)) @ '' '' @ show_goto i
     else if code i = BPF_JMP OR BPF_JLE OR BPF_K then
       ''if '' @ show_reg (dst_reg i) @ '' <= '' @ show_int (sint (imm i)) @ '' '' @ show_goto i
     else ''code=0x'' @ show_hex2 (code i) @ '' dst='' @ show_reg (dst_reg i) @ '' src='' @
       show_reg (src_reg i) @ '' off='' @ show_int (sint (off i)) @ '' imm='' @ show_int (sint (imm i)))"

definition program_line :: "nat \<Rightarrow> bpf_insn \<Rightarrow> string" where
  "program_line index i = show_pad4 index @ '': '' @ display i"

text \<open>\<open>join("\n")\<close> on the collected lines.\<close>

fun join_lines :: "string list \<Rightarrow> string" where
  "join_lines [] = []"
| "join_lines [l] = l"
| "join_lines (l # ls) = l @ CHR 10 # join_lines ls"

definition format_program :: "bpf_insn list \<Rightarrow> string" where
  "format_program program =
     (if program = [] then ''# empty program''
      else join_lines (map (\<lambda>(index, i). program_line index i) (List.enumerate 0 program)))"

section \<open>The instruction in memory\<close>

text \<open>
  \<open>BpfInsn\<close> is \<open>repr(C)\<close>: one byte of opcode, one byte of registers, the offset and the
  immediate, little-endian, eight bytes with no padding. The loader hands a slice of such
  words to the kernel by address.
\<close>

definition insn_bytes :: "bpf_insn \<Rightarrow> u8 list" where
  "insn_bytes i =
     [code i, regs i, ucast (off i), ucast (drop_bit 8 (off i)),
      ucast (imm i), ucast (drop_bit 8 (imm i)), ucast (drop_bit 16 (imm i)), ucast (drop_bit 24 (imm i))]"

definition insn_of_bytes :: "u8 list \<Rightarrow> bpf_insn" where
  "insn_of_bytes bs =
     \<lparr>code = bs ! 0, regs = bs ! 1,
      off = ucast (bs ! 2) OR push_bit 8 (ucast (bs ! 3)),
      imm = ucast (bs ! 4) OR push_bit 8 (ucast (bs ! 5)) OR push_bit 16 (ucast (bs ! 6))
              OR push_bit 24 (ucast (bs ! 7))\<rparr>"

definition program_bytes :: "bpf_insn list \<Rightarrow> u8 list" where
  "program_bytes prog = concat (map insn_bytes prog)"

text \<open>Reading an array of instruction words back, as the receiver of the pointer does.\<close>

fun decode_program :: "nat \<Rightarrow> u8 list \<Rightarrow> bpf_insn list" where
  "decode_program 0 bs = []"
| "decode_program (Suc n) bs = insn_of_bytes (take 8 bs) # decode_program n (drop 8 bs)"

text \<open>The lines of a listing: the specification side of \<open>format_program\<close>.\<close>

fun split_lines :: "string \<Rightarrow> string list" where
  "split_lines [] = [[]]"
| "split_lines (c # cs) =
     (if c = CHR 10 then [] # split_lines cs
      else (case split_lines cs of l # ls \<Rightarrow> (c # l) # ls | [] \<Rightarrow> [[c]]))"

section \<open>Fields of the assembled instructions\<close>

lemma nibble_mask: "(15 :: u8) = mask 4"
  by (simp add: mask_eq_exp_minus_1)

lemma reg_pack_dst: "((push_bit 4 s) OR (d AND 15)) AND 15 = (d AND 15 :: u8)"
  unfolding nibble_mask by (rule bit_word_eqI) (auto simp: bit_simps)

lemma reg_pack_src: "drop_bit 4 ((push_bit 4 s) OR (d AND 15)) = (s AND 15 :: u8)"
  unfolding nibble_mask by (rule bit_word_eqI) (auto simp: bit_simps)

lemma reg_unpack: "push_bit 4 (drop_bit 4 r) OR (r AND 15) = (r :: u8)"
  unfolding nibble_mask by (rule bit_word_eqI) (auto simp: bit_simps)

lemma insn_new_fields [simp, insn_fields]:
  "code (bpf_insn_new c d s f k) = c"
  "off (bpf_insn_new c d s f k) = f"
  "imm (bpf_insn_new c d s f k) = k"
  "dst_reg (bpf_insn_new c d s f k) = d AND 15"
  "src_reg (bpf_insn_new c d s f k) = s AND 15"
  by (simp_all add: bpf_insn_new_def dst_reg_def src_reg_def reg_pack_dst reg_pack_src del: drop_bit_or)

lemma nibble_small: "x < 16 \<Longrightarrow> x AND 15 = (x :: u8)"
  unfolding nibble_mask
  by (simp flip: take_bit_eq_mask add: take_bit_eq_mod mod_word_less)

lemma nibble_bound: "(x :: u8) AND 15 < 16"
proof -
  have "x AND 15 \<le> 15"
    by (rule word_and_le1)
  also have "(15 :: u8) < 16"
    by simp
  finally show ?thesis .
qed

lemma src_reg_bound: "src_reg i < 16"
proof -
  have "src_reg i AND 15 = src_reg i"
    unfolding src_reg_def nibble_mask
    by (rule bit_word_eqI) (auto simp: bit_simps dest: bit_imp_le_length)
  with nibble_bound [of "src_reg i"] show ?thesis by simp
qed

lemma join_bytes_16: "ucast (ucast w :: u8) OR push_bit 8 (ucast (ucast (drop_bit 8 w) :: u8)) = (w :: 16 word)"
  by (rule bit_word_eqI) (auto simp: bit_simps)

lemma join_bytes_32:
  "ucast (ucast w :: u8) OR push_bit 8 (ucast (ucast (drop_bit 8 w) :: u8))
     OR push_bit 16 (ucast (ucast (drop_bit 16 w) :: u8))
     OR push_bit 24 (ucast (ucast (drop_bit 24 w) :: u8)) = (w :: 32 word)"
proof (rule bit_word_eqI)
  fix n
  assume "n < LENGTH(32)"
  then consider "n < 8" | "8 \<le> n \<and> n < 16" | "16 \<le> n \<and> n < 24" | "24 \<le> n \<and> n < 32"
    by fastforce
  then show "bit (ucast (ucast w :: u8) OR push_bit 8 (ucast (ucast (drop_bit 8 w) :: u8))
      OR push_bit 16 (ucast (ucast (drop_bit 16 w) :: u8))
      OR push_bit 24 (ucast (ucast (drop_bit 24 w) :: u8)) :: 32 word) n = bit w n"
    by cases (auto simp: bit_simps)
qed

lemma insn_bytes_decode: "insn_of_bytes (insn_bytes i @ bs) = i"
  by (simp add: insn_of_bytes_def insn_bytes_def join_bytes_16 join_bytes_32 nth_append)

lemma length_insn_bytes [simp]: "length (insn_bytes i) = 8"
  by (simp add: insn_bytes_def)

section \<open>Listings\<close>

lemma digit_char_range: "d < 16 \<Longrightarrow> digit_char d \<in> set ''0123456789abcdef''"
  unfolding digit_char_def by (rule nth_mem) simp

lemma digit_char_not_newline [simp]: "d < 16 \<Longrightarrow> CHR 10 \<noteq> digit_char d"
  using digit_char_range by fastforce

lemma show_nat_no_newline: "CHR 10 \<notin> set (show_nat n)"
proof (induction n rule: show_nat.induct)
  case (1 n)
  then show ?case
    by (subst show_nat.simps) (simp add: digit_char_not_newline)
qed

lemma show_number_no_newline [simp]:
  "CHR 10 \<notin> set (show_reg r)" "CHR 10 \<notin> set (show_int k)" "CHR 10 \<notin> set (show_int_plus k)"
  "CHR 10 \<notin> set (show_pad4 n)"
  by (simp_all add: show_reg_def show_int_def show_int_plus_def show_pad4_def Let_def show_nat_no_newline)

lemma show_hex2_no_newline [simp]: "CHR 10 \<notin> set (show_hex2 b)"
proof -
  have "unat b div 16 < 16" "unat b mod 16 < 16"
    using unat_u8_bound [of b] by auto
  then show ?thesis
    by (simp add: show_hex2_def)
qed

lemma display_no_newline [simp]: "CHR 10 \<notin> set (display i)"
  by (simp add: display_def show_goto_def)

lemma split_lines_nonempty [simp]: "split_lines s \<noteq> []"
  by (induction s) (auto split: list.splits)

lemma split_lines_no_newline: "CHR 10 \<notin> set s \<Longrightarrow> split_lines s = [s]"
  by (induction s) auto

lemma split_lines_append: "CHR 10 \<notin> set s \<Longrightarrow> split_lines (s @ CHR 10 # t) = s # split_lines t"
  by (induction s) auto

lemma split_join_lines:
  "ls \<noteq> [] \<Longrightarrow> (\<forall>l \<in> set ls. CHR 10 \<notin> set l) \<Longrightarrow> split_lines (join_lines ls) = ls"
  by (induction ls rule: join_lines.induct) (auto simp: split_lines_no_newline split_lines_append)

lemma sint_plus_one_16: "sint (w + 1) = (if sint w = 32767 then - 32768 else sint w + 1)" for w :: "16 word"
proof -
  have "- 32768 \<le> sint w" "sint w < 32768"
    using sint_greater_eq [of w] sint_less [of w] by simp_all
  then show ?thesis
    by (auto simp: sint_word_ariths signed_take_bit_int_eq_self)
qed

lemma split_format_program:
  assumes "prog \<noteq> []"
  shows "split_lines (format_program prog)
           = map (\<lambda>(k, i). show_pad4 k @ '': '' @ display i) (List.enumerate 0 prog)"
proof -
  have "split_lines (format_program prog) = map (\<lambda>(k, i). program_line k i) (List.enumerate 0 prog)"
    unfolding format_program_def using assms
    by (subst if_not_P, assumption, subst split_join_lines)
      (auto simp: program_line_def simp flip: length_greater_0_conv)
  then show ?thesis
    by (simp add: program_line_def)
qed

section \<open>Properties\<close>

text \<open>
  Building an instruction from the parts of an instruction gives it back, and the
  register nibbles read from a new instruction are the low nibbles that were given: the
  packing into one byte loses nothing and mixes nothing, for any operand bytes.
\<close>

theorem insn_pack_roundtrip:
  "bpf_insn_new (code i) (dst_reg i) (src_reg i) (off i) (imm i) = i
   \<and> dst_reg (bpf_insn_new c d s f k) = d AND 15
   \<and> src_reg (bpf_insn_new c d s f k) = s AND 15"
  by (simp add: bpf_insn_new_def dst_reg_def src_reg_def reg_pack_dst reg_pack_src reg_unpack
      and.assoc del: drop_bit_or)

text \<open>
  The byte image of a program is eight bytes per instruction and decodes to the
  program: what the loader passes by address is the program the compiler built.
\<close>

theorem program_bytes_roundtrip:
  "length (program_bytes prog) = 8 * length prog
   \<and> decode_program (length prog) (program_bytes prog) = prog"
proof (induction prog)
  case (Cons i prog)
  then show ?case
    using insn_bytes_decode [of i "[]"] by (simp add: program_bytes_def)
qed (simp add: program_bytes_def)

text \<open>
  The listing of a non-empty program has one line per instruction, in order, each the
  four-column index, a colon and the mnemonic; no mnemonic breaks a line.
\<close>

theorem format_program_lines:
  assumes "prog \<noteq> []"
  shows "split_lines (format_program prog)
           = map (\<lambda>(k, i). show_pad4 k @ '': '' @ display i) (List.enumerate 0 prog)"
  using assms by (rule split_format_program)

theorem format_program_lines_witness:
  "split_lines (format_program [alu64_imm BPF_MOV R0 1, exit_insn]) = [''0000: r0 = 1'', ''0001: exit'']"
proof -
  have "[alu64_imm BPF_MOV R0 1, exit_insn] \<noteq> []"
    by simp
  from format_program_lines [OF this] show ?thesis
    by (simp add: display_def alu64_imm_def exit_insn_def bpf_opcodes show_pad4_def show_nat.simps
        numeral_3_eq_3 digit_char_def show_reg_def show_int_def)
qed

text \<open>
  The printed jump distance is the real one, one more than the encoded offset, except
  for the largest offset, where the 16-bit sum wraps (and a build with overflow checks
  panics): a jump of \<open>+32768\<close> is listed as \<open>-32768\<close>.
\<close>

theorem goto_distance:
  "show_goto i =
     (if sint (off i) = 32767 then ''goto -32768'' else ''goto '' @ show_int_plus (sint (off i) + 1))"
  by (simp add: show_goto_def sint_plus_one_16 show_int_plus_def show_nat.simps digit_char_def)

end
