(* ===== verification/Rust_Str.thy ===== *)
theory Rust_Str
  imports Prelude
begin

text \<open>
  The parts of Rust's string library that the sources use: UTF-8 decoding
  (\<open>str::from_utf8\<close> as a test, \<open>String::from_utf8_lossy\<close>), \<open>trim\<close>,
  \<open>trim_matches\<close>, \<open>split\<close> with a predicate and \<open>parse::<u32>\<close>. A string is the list of
  its Unicode scalar values. The lemmas say when a byte string is accepted as UTF-8 and
  relate splitting and number parsing to their specifications.
\<close>

unbundle bit_operations_syntax

type_synonym rust_str = "nat list"

definition str_lit :: "string \<Rightarrow> rust_str" where
  "str_lit s = map of_char s"

section \<open>UTF-8\<close>

definition byte_at :: "u8 list \<Rightarrow> nat \<Rightarrow> u8" where
  "byte_at bs k = (if k < length bs then bs ! k else 0)"

definition is_cont :: "u8 \<Rightarrow> bool" where
  "is_cont b \<longleftrightarrow> 0x80 \<le> b \<and> b \<le> 0xBF"

definition utf8_char_width :: "u8 \<Rightarrow> nat" where
  "utf8_char_width b =
     (if b < 0x80 then 1 else if 0xC2 \<le> b \<and> b \<le> 0xDF then 2
      else if 0xE0 \<le> b \<and> b \<le> 0xEF then 3 else if 0xF0 \<le> b \<and> b \<le> 0xF4 then 4 else 0)"

text \<open>The second byte of a three- or four-byte sequence is restricted by the first.\<close>

definition second_ok :: "u8 \<Rightarrow> u8 \<Rightarrow> bool" where
  "second_ok b c =
     (if b = 0xE0 then 0xA0 \<le> c \<and> c \<le> 0xBF
      else if b = 0xED then 0x80 \<le> c \<and> c \<le> 0x9F
      else if b = 0xF0 then 0x90 \<le> c \<and> c \<le> 0xBF
      else if b = 0xF4 then 0x80 \<le> c \<and> c \<le> 0x8F
      else is_cont c)"

definition cont_bits :: "u8 \<Rightarrow> nat" where
  "cont_bits b = unat (b AND 0x3F)"

text \<open>
  One step of the decoder: the scalar value at the front, or \<open>None\<close> for a malformed
  sequence, with the number of bytes it covers (at least one).
\<close>

definition utf8_step :: "u8 \<Rightarrow> u8 list \<Rightarrow> nat option \<times> nat" where
  "utf8_step b rest =
     (let w = utf8_char_width b; c1 = byte_at rest 0; c2 = byte_at rest 1; c3 = byte_at rest 2 in
      if w = 1 then (Some (unat b), 1)
      else if w = 2 then
        (if is_cont c1 then (Some (unat (b AND 0x1F) * 64 + cont_bits c1), 2) else (None, 1))
      else if w = 3 then
        (if \<not> second_ok b c1 then (None, 1)
         else if \<not> is_cont c2 then (None, 2)
         else (Some (unat (b AND 0x0F) * 4096 + cont_bits c1 * 64 + cont_bits c2), 3))
      else if w = 4 then
        (if \<not> second_ok b c1 then (None, 1)
         else if \<not> is_cont c2 then (None, 2)
         else if \<not> is_cont c3 then (None, 3)
         else (Some (unat (b AND 0x07) * 262144 + cont_bits c1 * 4096 + cont_bits c2 * 64 + cont_bits c3), 4))
      else (None, 1))"

function utf8_decode :: "u8 list \<Rightarrow> nat option list" where
  "utf8_decode [] = []"
| "utf8_decode (b # rest) = (let (c, n) = utf8_step b rest in c # utf8_decode (drop (n - 1) rest))"
  by pat_completeness auto
termination
  by (relation "measure length") auto

definition from_utf8_ok :: "u8 list \<Rightarrow> bool" where
  "from_utf8_ok bs \<longleftrightarrow> None \<notin> set (utf8_decode bs)"

text \<open>The replacement character for a malformed sequence is U+FFFD.\<close>

definition from_utf8_lossy :: "u8 list \<Rightarrow> rust_str" where
  "from_utf8_lossy bs = map (\<lambda>c. case c of None \<Rightarrow> 0xFFFD | Some c' \<Rightarrow> c') (utf8_decode bs)"

section \<open>Trimming, splitting, parsing\<close>

definition is_whitespace :: "nat \<Rightarrow> bool" where
  "is_whitespace c \<longleftrightarrow> 9 \<le> c \<and> c \<le> 13 \<or> c = 32 \<or> c = 0x85 \<or> c = 0xA0 \<or> c = 0x1680
     \<or> 0x2000 \<le> c \<and> c \<le> 0x200A \<or> c = 0x2028 \<or> c = 0x2029 \<or> c = 0x202F \<or> c = 0x205F \<or> c = 0x3000"

definition trim_where :: "(nat \<Rightarrow> bool) \<Rightarrow> rust_str \<Rightarrow> rust_str" where
  "trim_where p s = rev (dropWhile p (rev (dropWhile p s)))"

definition trim :: "rust_str \<Rightarrow> rust_str" where
  "trim = trim_where is_whitespace"

fun split_where :: "(nat \<Rightarrow> bool) \<Rightarrow> rust_str \<Rightarrow> rust_str list" where
  "split_where p [] = [[]]"
| "split_where p (c # cs) =
     (if p c then [] # split_where p cs
      else (case split_where p cs of [] \<Rightarrow> [[c]] | w # ws \<Rightarrow> (c # w) # ws))"

definition is_ascii_digit :: "nat \<Rightarrow> bool" where
  "is_ascii_digit c \<longleftrightarrow> 48 \<le> c \<and> c \<le> 57"

text \<open>\<open>u32::from_str\<close>: an optional plus sign, then at least one digit, checked at every step.\<close>

fun parse_digits :: "rust_str \<Rightarrow> u32 \<Rightarrow> u32 option" where
  "parse_digits [] acc = Some acc"
| "parse_digits (c # cs) acc =
     (if is_ascii_digit c then
        (case checked_mul acc 10 of None \<Rightarrow> None
         | Some m \<Rightarrow> (case checked_add m (of_nat (c - 48)) of None \<Rightarrow> None | Some a \<Rightarrow> parse_digits cs a))
      else None)"

definition parse_u32 :: "rust_str \<Rightarrow> u32 option" where
  "parse_u32 s = (case s of [] \<Rightarrow> None
     | c # cs \<Rightarrow> if c = 43 then (if cs = [] then None else parse_digits cs 0) else parse_digits s 0)"

section \<open>Lemmas\<close>

lemma utf8_decode_ascii: "(\<forall>b \<in> set bs. b < 0x80) \<Longrightarrow> utf8_decode bs = map (\<lambda>b. Some (unat b)) bs"
  by (induction bs) (auto simp: utf8_step_def utf8_char_width_def)

lemma from_utf8_ok_ascii: "(\<forall>b \<in> set bs. b < 0x80) \<Longrightarrow> from_utf8_ok bs"
  by (auto simp: from_utf8_ok_def utf8_decode_ascii)

lemma split_where_nonempty [simp]: "split_where p s \<noteq> []"
  by (induction s) (auto split: list.splits)

lemma dropWhile_replicate: "P x \<Longrightarrow> dropWhile P (replicate k x @ ys) = dropWhile P ys"
  by (induction k) auto

lemma trim_where_padded:
  assumes "xs \<noteq> []" "\<not> P (hd xs)" "\<not> P (last xs)" "P x"
  shows "trim_where P (xs @ replicate k x) = xs"
proof -
  have "dropWhile P (xs @ replicate k x) = xs @ replicate k x"
    using assms by (cases xs) auto
  moreover have "dropWhile P (replicate k x @ rev xs) = rev xs"
    using assms by (cases xs rule: rev_cases) (auto simp: dropWhile_replicate)
  ultimately show ?thesis by (simp add: trim_where_def)
qed

lemma trim_where_id:
  assumes "xs \<noteq> []" "\<not> P (hd xs)" "\<not> P (last xs)"
  shows "trim_where P xs = xs"
proof -
  have "dropWhile P xs = xs"
    using assms by (cases xs) auto
  moreover have "dropWhile P (rev xs) = rev xs"
    using assms by (cases xs rule: rev_cases) auto
  ultimately show ?thesis by (simp add: trim_where_def)
qed

text \<open>What is trimmed off, and what is left.\<close>

lemma trim_where_split:
  obtains pre post where "xs = pre @ trim_where P xs @ post" "list_all P pre" "list_all P post"
    "trim_where P xs \<noteq> [] \<longrightarrow> \<not> P (hd (trim_where P xs)) \<and> \<not> P (last (trim_where P xs))"
proof -
  let ?rest = "dropWhile P xs"
  have split: "xs = takeWhile P xs @ trim_where P xs @ rev (takeWhile P (rev ?rest))"
    by (simp add: trim_where_def flip: rev_append)
  have "\<not> P (hd (trim_where P xs)) \<and> \<not> P (last (trim_where P xs))" if "trim_where P xs \<noteq> []"
  proof
    have "?rest = trim_where P xs @ rev (takeWhile P (rev ?rest))"
      by (simp add: trim_where_def flip: rev_append)
    then have "hd (trim_where P xs) = hd ?rest"
      using that by (metis hd_append2)
    moreover have "?rest \<noteq> []"
      using that by (auto simp: trim_where_def dest: set_dropWhileD)
    ultimately show "\<not> P (hd (trim_where P xs))"
      using hd_dropWhile [of P xs] by simp
    show "\<not> P (last (trim_where P xs))"
      using that hd_dropWhile [of P "rev ?rest"] by (simp add: trim_where_def last_rev)
  qed
  with split show thesis
    using set_takeWhileD by (intro that [of "takeWhile P xs"]) (fastforce simp: list_all_iff)+
qed

section \<open>Reading numbers\<close>

lemma of_char_digit: "d < 10 \<Longrightarrow> (of_char (digit_char d) :: nat) = 48 + d"
proof -
  assume "d < 10"
  then have "d \<in> {0, 1, 2, 3, 4, 5, 6, 7, 8, 9}" by auto
  then show ?thesis by (auto simp: digit_char_def)
qed

lemma parse_digits_append:
  "parse_digits (xs @ ys) acc = Option.bind (parse_digits xs acc) (parse_digits ys)"
  by (induction xs acc rule: parse_digits.induct) (auto split: option.splits)

lemma parse_digits_show: "n < 2 ^ 32 \<Longrightarrow> parse_digits (str_lit (show_nat n)) 0 = Some (of_nat n)"
proof (induction n rule: show_nat.induct)
  case (1 n)
  show ?case
  proof (cases "n < 10")
    case True
    then show ?thesis
      by (simp add: show_nat.simps str_lit_def of_char_digit is_ascii_digit_def checked_mul_def checked_add_def unat_of_nat)
  next
    case False
    let ?q = "of_nat (n div 10) :: u32" and ?d = "of_nat (n mod 10) :: u32"
    have IH: "parse_digits (str_lit (show_nat (n div 10))) 0 = Some ?q"
      using 1 False by simp
    have q: "unat ?q = n div 10" "unat ?d = n mod 10" "unat (10 :: u32) = 10"
      using "1.prems" by (simp_all add: unat_of_nat)
    have m: "n div 10 * 10 + n mod 10 = n"
      by simp
    then have mul: "checked_mul ?q 10 = Some (?q * 10)" "unat (?q * 10) = n div 10 * 10"
      using "1.prems" q by (simp_all add: checked_mul_def unat_mult_small)
    then have add: "checked_add (?q * 10) ?d = Some (?q * 10 + ?d)"
      using "1.prems" q m by (simp add: checked_add_def)
    have "?q * 10 + ?d = of_nat n"
      using m by (metis of_nat_add of_nat_mult of_nat_numeral)
    then show ?thesis
      using False IH mul add
      by (subst show_nat.simps) (simp add: str_lit_def parse_digits_append of_char_digit is_ascii_digit_def)
  qed
qed

lemma show_nat_digits: "show_nat n \<noteq> [] \<and> (\<forall>c \<in> set (str_lit (show_nat n)). is_ascii_digit c)"
proof (induction n rule: show_nat.induct)
  case (1 n)
  then show ?case
    by (subst (1 2) show_nat.simps) (auto simp: str_lit_def of_char_digit is_ascii_digit_def)
qed

lemma parse_u32_digits:
  assumes "\<forall>c \<in> set s. is_ascii_digit c" "s \<noteq> []"
  shows "parse_u32 s = parse_digits s 0"
  using assms by (cases s) (auto simp: parse_u32_def is_ascii_digit_def)

lemma parse_u32_show: "n < 2 ^ 32 \<Longrightarrow> parse_u32 (str_lit (show_nat n)) = Some (of_nat n)"
  using show_nat_digits [of n] parse_digits_show [of n] by (simp add: parse_u32_digits str_lit_def)

end
