(* ===== verification/Verify.thy ===== *)
theory Verify
  imports Rust_Str
begin

text \<open>
  The front end and the limits of the compiler (\<open>src/compiler/verify.rs\<close>): the error
  type with its messages, the character-class tokenizer and range parser, the instruction
  count estimates and the limit check. The lemmas show that every parsed range is ordered,
  that printing ranges as class text and parsing it gives them back, which inputs are
  rejected and why, and how many ranges a text can produce.
\<close>

unbundle bit_operations_syntax

section \<open>Errors and limits\<close>

datatype compile_error =
    PatternTooLong usize usize
  | InvalidPattern string

text \<open>The messages of the \<open>thiserror\<close> attributes; the fields are \<open>len\<close> and \<open>max\<close>, \<open>reason\<close>.\<close>

fun compile_error_message :: "compile_error \<Rightarrow> string" where
  "compile_error_message (PatternTooLong len mx) =
     ''pattern length '' @ show_nat (unat len) @ '' exceeds BPF verifier limit of '' @ show_nat (unat mx) @
     '' bytes. Fix: use userspace matching for patterns longer than '' @ show_nat (unat mx) @ '' bytes.''"
| "compile_error_message (InvalidPattern reason) =
     ''invalid pattern: '' @ reason @
     ''. Fix: use a supported subset (literal bytes, alternation, and ranges with start <= end).''"

definition MAX_BPF_PATTERN_LEN :: usize where
  "MAX_BPF_PATTERN_LEN = 1024"

definition MAX_BPF_INSTRUCTION_LEN :: usize where
  "MAX_BPF_INSTRUCTION_LEN = 4096"

definition compile_with_limit :: "usize \<Rightarrow> compile_error + unit" where
  "compile_with_limit expected_instruction_count =
     (if expected_instruction_count > MAX_BPF_INSTRUCTION_LEN
      then Err (PatternTooLong expected_instruction_count MAX_BPF_INSTRUCTION_LEN)
      else Ok ())"

definition literal_search_instruction_count :: "usize \<Rightarrow> usize" where
  "literal_search_instruction_count pattern_len = (if pattern_len = 0 then 4 else 14 + pattern_len * 2)"

text \<open>\<open>Iterator::sum\<close> on \<open>usize\<close> adds from the left, wrapping.\<close>

definition estimate_alternation_instructions :: "u8 list list \<Rightarrow> usize" where
  "estimate_alternation_instructions alternatives =
     (if alternatives = [] \<or> (\<exists>alt \<in> set alternatives. alt = []) then 2
      else 4 + fold (\<lambda>alt acc. acc + (if alt = [] then 0 else 4 + slice_len alt * 2)) alternatives 0)"

section \<open>Character classes\<close>

datatype pattern_range = Single u8 | Span u8 u8

datatype token = Byte u8 | Dash | Class "pattern_range list"

record char_range =
  lo :: u8
  hi :: u8

text \<open>
  The escape decoder sees the class from the backslash on (\<open>class[idx..]\<close>) and returns
  the token with the number of bytes it consumed.
\<close>

definition decode_character_class_escape :: "u8 list \<Rightarrow> compile_error + (token \<times> nat)" where
  "decode_character_class_escape rest =
     (if length rest \<le> 1 then Err (InvalidPattern ''unterminated character-class escape'')
      else let escaped = rest ! 1 in
        if escaped = byte CHR ''n'' then Ok (Byte (byte CHR 10), 2)
        else if escaped = byte CHR ''r'' then Ok (Byte (byte CHR 13), 2)
        else if escaped = byte CHR ''t'' then Ok (Byte (byte CHR 9), 2)
        else if escaped = byte CHR 0x5C then Ok (Byte (byte CHR 0x5C), 2)
        else if escaped = byte CHR '']'' then Ok (Byte (byte CHR '']''), 2)
        else if escaped = byte CHR ''['' then Ok (Byte (byte CHR ''[''), 2)
        else if escaped = byte CHR ''-'' then Ok (Byte (byte CHR ''-''), 2)
        else if escaped = byte CHR ''.'' then Ok (Byte (byte CHR ''.''), 2)
        else if escaped = byte CHR ''d'' then Ok (Class [Span (byte CHR ''0'') (byte CHR ''9'')], 2)
        else if escaped = byte CHR ''s'' then
          Ok (Class [Span (byte CHR 9) (byte CHR 13), Single (byte CHR '' '')], 2)
        else if escaped = byte CHR ''w'' then
          Ok (Class [Span (byte CHR ''a'') (byte CHR ''z''), Span (byte CHR ''A'') (byte CHR ''Z''),
                     Span (byte CHR ''0'') (byte CHR ''9''), Single (byte CHR ''_'')], 2)
        else if escaped = byte CHR ''D'' \<or> escaped = byte CHR ''S'' \<or> escaped = byte CHR ''W'' then
          Err (InvalidPattern ''negated character-class escapes are not supported'')
        else Err (InvalidPattern ''unknown character-class escape sequence''))"

text \<open>The range loop, on the tokens still to be read.\<close>

fun tokens_to_ranges :: "token list \<Rightarrow> compile_error + pattern_range list" where
  "tokens_to_ranges [] = Ok []"
| "tokens_to_ranges (Byte start # Dash # Byte end' # rest) =
     (if start > end' then Err (InvalidPattern ''character class range endpoints are reversed'')
      else try_bind (tokens_to_ranges rest) (\<lambda>rs. Ok (Span start end' # rs)))"
| "tokens_to_ranges (Dash # Dash # rest) =
     Err (InvalidPattern ''character class contains consecutive unescaped dashes'')"
| "tokens_to_ranges (Byte b # rest) = try_bind (tokens_to_ranges rest) (\<lambda>rs. Ok (Single b # rs))"
| "tokens_to_ranges (Dash # rest) = try_bind (tokens_to_ranges rest) (\<lambda>rs. Ok (Single (byte CHR ''-'') # rs))"
| "tokens_to_ranges (Class c # rest) = try_bind (tokens_to_ranges rest) (\<lambda>rs. Ok (c @ rs))"

lemma decode_escape_consumes: "decode_character_class_escape rest = Ok (tok, n) \<Longrightarrow> n = 2"
  by (auto simp: decode_character_class_escape_def Let_def split: if_splits)

text \<open>The scanning loop of \<open>parse_character_class\<close>, on the bytes still to be read.\<close>

function scan_tokens :: "u8 list \<Rightarrow> compile_error + token list" where
  "scan_tokens [] = Ok []"
| "scan_tokens (c # cs) =
     (if c = byte CHR 0x5C then
        try_bind (decode_character_class_escape (c # cs))
          (\<lambda>tc. try_bind (scan_tokens (drop (snd tc) (c # cs))) (\<lambda>ts. Ok (fst tc # ts)))
      else if c = byte CHR ''-'' then try_bind (scan_tokens cs) (\<lambda>ts. Ok (Dash # ts))
      else try_bind (scan_tokens cs) (\<lambda>ts. Ok (Byte c # ts)))"
  by pat_completeness auto
termination
  by (relation "measure length") (auto dest: decode_escape_consumes)

definition parse_character_class :: "u8 list \<Rightarrow> compile_error + pattern_range list" where
  "parse_character_class class' =
     (if from_utf8_ok class' \<and> (\<exists>b \<in> set class'. b \<ge> 0x80) then
        Err (InvalidPattern
          ''character class contains non-ASCII codepoints; use raw bytes or an escape sequence'')
      else try_bind (scan_tokens class') tokens_to_ranges)"

definition estimate_character_class_instructions :: "pattern_range list \<Rightarrow> usize" where
  "estimate_character_class_instructions ranges = (if ranges = [] then 2 else 4 + slice_len ranges * 2)"

section \<open>What a class means, and its canonical text\<close>

fun range_ordered :: "pattern_range \<Rightarrow> bool" where
  "range_ordered (Single b) = True"
| "range_ordered (Span a b) = (a \<le> b)"

fun range_member :: "u8 \<Rightarrow> pattern_range \<Rightarrow> bool" where
  "range_member x (Single b) = (x = b)"
| "range_member x (Span a b) = (a \<le> x \<and> x \<le> b)"

fun range_bytes :: "pattern_range \<Rightarrow> u8 list" where
  "range_bytes (Single b) = [b]"
| "range_bytes (Span a b) = [a, b]"

definition class_byte_text :: "u8 \<Rightarrow> u8 list" where
  "class_byte_text b =
     (if b = byte CHR 0x5C \<or> b = byte CHR ''-'' then [byte CHR 0x5C, b] else [b])"

fun range_text :: "pattern_range \<Rightarrow> u8 list" where
  "range_text (Single b) = class_byte_text b"
| "range_text (Span a b) = class_byte_text a @ [byte CHR ''-''] @ class_byte_text b"

definition class_text :: "pattern_range list \<Rightarrow> u8 list" where
  "class_text rs = concat (map range_text rs)"

fun range_tokens :: "pattern_range \<Rightarrow> token list" where
  "range_tokens (Single b) = [Byte b]"
| "range_tokens (Span a b) = [Byte a, Dash, Byte b]"

fun token_ranges :: "token \<Rightarrow> pattern_range list" where
  "token_ranges (Class c) = c"
| "token_ranges (Byte b) = [Single b]"
| "token_ranges Dash = [Single (byte CHR ''-'')]"

section \<open>Lemmas\<close>

subsection \<open>Scanning\<close>

lemma decode_escape_ordered:
  "decode_character_class_escape rest = Ok (tok, n) \<Longrightarrow> list_all range_ordered (token_ranges tok)"
  by (auto simp: decode_character_class_escape_def Let_def split: if_splits)

lemma decode_escape_few:
  "decode_character_class_escape rest = Ok (tok, n) \<Longrightarrow> length (token_ranges tok) \<le> 4"
  by (auto simp: decode_character_class_escape_def Let_def split: if_splits)

lemma decode_escape_length: "decode_character_class_escape rest = Ok (tok, n) \<Longrightarrow> 2 \<le> length rest"
  by (auto simp: decode_character_class_escape_def split: if_splits)

lemma scan_tokens_ordered:
  "scan_tokens bs = Ok ts \<Longrightarrow> \<forall>t \<in> set ts. list_all range_ordered (token_ranges t)"
proof (induction bs arbitrary: ts rule: scan_tokens.induct)
  case (2 c cs)
  then show ?case
    by (fastforce split: if_splits dest: decode_escape_ordered)
qed simp

lemma scan_tokens_count:
  "scan_tokens bs = Ok ts \<Longrightarrow> (\<Sum>t\<leftarrow>ts. length (token_ranges t)) \<le> 2 * length bs"
proof (induction bs arbitrary: ts rule: scan_tokens.induct)
  case (2 c cs)
  show ?case
  proof (cases "c = byte CHR 0x5C")
    case True
    with "2.prems" obtain tok n ts' where
      tok: "decode_character_class_escape (c # cs) = Ok (tok, n)" and
      ts': "scan_tokens (drop n (c # cs)) = Ok ts'" and ts: "ts = tok # ts'"
      by auto
    have n: "n = 2" and cs: "cs \<noteq> []"
      using decode_escape_consumes [OF tok] decode_escape_length [OF tok] by auto
    from "2.IH"(1) [OF True tok] ts' have "(\<Sum>t\<leftarrow>ts'. length (token_ranges t)) \<le> 2 * length (drop n (c # cs))"
      by simp
    with decode_escape_few [OF tok] ts n cs show ?thesis
      by (cases cs) auto
  next
    case False
    with 2 show ?thesis
      by (fastforce split: if_splits)
  qed
qed simp

subsection \<open>Ranges\<close>

lemma tokens_to_ranges_ordered:
  "tokens_to_ranges ts = Ok rs \<Longrightarrow> \<forall>t \<in> set ts. list_all range_ordered (token_ranges t)
    \<Longrightarrow> list_all range_ordered rs"
  by (induction ts arbitrary: rs rule: tokens_to_ranges.induct) (auto split: if_splits)

lemma tokens_to_ranges_count:
  "tokens_to_ranges ts = Ok rs \<Longrightarrow> length rs \<le> (\<Sum>t\<leftarrow>ts. length (token_ranges t))"
  by (induction ts arbitrary: rs rule: tokens_to_ranges.induct) (fastforce split: if_splits)+

subsection \<open>Canonical text\<close>

lemma scan_class_byte_text:
  "scan_tokens (class_byte_text b @ bs) = try_bind (scan_tokens bs) (\<lambda>ts. Ok (Byte b # ts))"
  by (auto simp: class_byte_text_def decode_character_class_escape_def)

lemma scan_dash: "scan_tokens (45 # bs) = try_bind (scan_tokens bs) (\<lambda>ts. Ok (Dash # ts))"
  by simp

lemma scan_class_text: "scan_tokens (class_text rs) = Ok (concat (map range_tokens rs))"
proof (induction rs)
  case (Cons r rs)
  then show ?case
    by (cases r) (simp_all add: class_text_def scan_class_byte_text del: scan_tokens.simps(2) add: scan_dash)
qed (simp add: class_text_def)

lemma tokens_to_ranges_single:
  "tokens_to_ranges (Byte b # concat (map range_tokens rs))
     = try_bind (tokens_to_ranges (concat (map range_tokens rs))) (\<lambda>rs. Ok (Single b # rs))"
proof (cases rs)
  case (Cons r rs')
  then show ?thesis by (cases r) simp_all
qed simp

lemma tokens_to_ranges_canonical:
  "list_all range_ordered rs \<Longrightarrow> tokens_to_ranges (concat (map range_tokens rs)) = Ok rs"
proof (induction rs)
  case (Cons r rs)
  then show ?case
    by (cases r) (simp_all add: tokens_to_ranges_single not_less)
qed simp

lemma class_text_ascii:
  "\<forall>r \<in> set rs. \<forall>b \<in> set (range_bytes r). b < 0x80 \<Longrightarrow> \<forall>b \<in> set (class_text rs). b < 0x80"
proof (induction rs)
  case (Cons r rs)
  then show ?case
    by (cases r) (auto simp: class_text_def class_byte_text_def)
qed (simp add: class_text_def)

subsection \<open>Errors\<close>

lemma decode_escape_error: "decode_character_class_escape rest = Err e \<Longrightarrow> \<exists>reason. e = InvalidPattern reason"
  by (auto simp: decode_character_class_escape_def Let_def split: if_splits)

lemma scan_tokens_error: "scan_tokens bs = Err e \<Longrightarrow> \<exists>reason. e = InvalidPattern reason"
  by (induction bs rule: scan_tokens.induct)
    (auto simp: try_bind_Inl_iff dest: decode_escape_error split: if_splits)

lemma tokens_to_ranges_error: "tokens_to_ranges ts = Err e \<Longrightarrow> \<exists>reason. e = InvalidPattern reason"
  by (induction ts rule: tokens_to_ranges.induct) (auto simp: try_bind_Inl_iff split: if_splits)

lemma parse_character_class_error: "parse_character_class bs = Err e \<Longrightarrow> \<exists>reason. e = InvalidPattern reason"
  by (auto simp: parse_character_class_def try_bind_Inl_iff split: if_splits
      dest: scan_tokens_error tokens_to_ranges_error)

lemma parse_character_class_ordered: "parse_character_class bs = Ok rs \<Longrightarrow> list_all range_ordered rs"
  by (auto simp: parse_character_class_def split: if_splits
      intro: tokens_to_ranges_ordered dest: scan_tokens_ordered)

lemma parse_character_class_count:
  assumes "parse_character_class bs = Ok rs"
  shows "length rs \<le> 2 * length bs"
proof -
  from assms obtain ts where "scan_tokens bs = Ok ts" and "tokens_to_ranges ts = Ok rs"
    by (auto simp: parse_character_class_def split: if_splits)
  then show ?thesis
    using scan_tokens_count tokens_to_ranges_count le_trans by blast
qed

lemma tokens_to_ranges_nonempty:
  "tokens_to_ranges ts = Ok rs \<Longrightarrow> ts \<noteq> [] \<Longrightarrow> \<forall>t \<in> set ts. token_ranges t \<noteq> [] \<Longrightarrow> rs \<noteq> []"
  by (induction ts arbitrary: rs rule: tokens_to_ranges.induct) (auto split: if_splits)

lemma decode_escape_nonempty: "decode_character_class_escape rest = Ok (tok, n) \<Longrightarrow> token_ranges tok \<noteq> []"
  by (auto simp: decode_character_class_escape_def Let_def split: if_splits)

lemma scan_tokens_nonempty:
  "scan_tokens bs = Ok ts \<Longrightarrow> (bs \<noteq> [] \<longrightarrow> ts \<noteq> []) \<and> (\<forall>t \<in> set ts. token_ranges t \<noteq> [])"
proof (induction bs arbitrary: ts rule: scan_tokens.induct)
  case (2 c cs)
  then show ?case
    by (fastforce split: if_splits dest: decode_escape_nonempty)
qed simp

lemma parse_character_class_nonempty:
  "parse_character_class bs = Ok rs \<Longrightarrow> bs \<noteq> [] \<Longrightarrow> rs \<noteq> []"
  by (auto simp: parse_character_class_def split: if_splits
      dest: tokens_to_ranges_nonempty scan_tokens_nonempty)

lemma parse_class_text:
  assumes "list_all range_ordered rs" and "\<forall>r \<in> set rs. \<forall>b \<in> set (range_bytes r). b < 0x80"
  shows "parse_character_class (class_text rs) = Ok rs"
proof -
  have "\<not> (\<exists>b \<in> set (class_text rs). b \<ge> 0x80)"
    using class_text_ascii [OF assms(2)] by (auto simp: not_le)
  then show ?thesis
    using assms(1) by (simp add: parse_character_class_def scan_class_text tokens_to_ranges_canonical)
qed

section \<open>Properties\<close>

text \<open>
  Printing any list of ordered ASCII ranges in the class syntax and parsing the text
  gives the ranges back: every byte set the back end can compile has a class text, and
  the parser reads it as written.
\<close>

theorem class_text_roundtrip:
  assumes "list_all range_ordered rs" and "\<forall>r \<in> set rs. \<forall>b \<in> set (range_bytes r). b < 0x80"
  shows "parse_character_class (class_text rs) = Ok rs"
  using assms by (rule parse_class_text)

theorem class_text_roundtrip_witness:
  "parse_character_class (class_text [Span 0x61 0x7A, Single 0x2D, Single 0x5C, Span 0x30 0x39])
     = Ok [Span 0x61 0x7A, Single 0x2D, Single 0x5C, Span 0x30 0x39]"
  by (rule class_text_roundtrip) simp_all

text \<open>
  Whatever the class text, a successful parse yields ordered ranges only, at least one
  for a non-empty text and at most two per byte of it; a failed parse is always reported
  as an invalid pattern.
\<close>

theorem parse_character_class_sound:
  "case parse_character_class bs of
     Inr rs \<Rightarrow> list_all range_ordered rs \<and> length rs \<le> 2 * length bs \<and> (rs = [] \<longleftrightarrow> bs = [])
   | Inl e \<Rightarrow> (\<exists>reason. e = InvalidPattern reason)"
proof (cases "parse_character_class bs")
  case (Inl e)
  then show ?thesis
    using parse_character_class_error by auto
next
  case (Inr rs)
  then show ?thesis
    using parse_character_class_ordered parse_character_class_count [OF Inr]
      parse_character_class_nonempty [OF Inr] by auto
qed

end
