(* ===== verification/Codegen.thy ===== *)
theory Codegen
  imports Assembler Verify
begin

text \<open>
  The code generator (\<open>src/compiler/codegen.rs\<close>) with the jump patching of
  \<open>src/compiler/emit.rs\<close>: literal search, character classes and alternations, each with
  its limit checks, its emission loop and its backpatching passes over recorded indices.
  A result \<open>None\<close> is a panic (an index out of range); \<open>Some (Err e)\<close> and
  \<open>Some (Ok prog)\<close> are the two results the functions return. Theory \<open>Layout\<close> shows that the
  patched programs equal directly written ones, with every jump distance in closed form.
\<close>

unbundle bit_operations_syntax

section \<open>Jump patching\<close>

definition jump_offset :: "nat \<Rightarrow> nat \<Rightarrow> i16" where
  "jump_offset from' to' = word_of_int (int to' - int from' - 1)"

definition patch_match_jump :: "bpf_insn list \<Rightarrow> nat \<Rightarrow> nat \<Rightarrow> bpf_insn list option" where
  "patch_match_jump program from' match_idx =
     set_index program from' (bpf_insn_new (BPF_JMP OR BPF_JA) R0 0 (jump_offset from' match_idx) 0)"

definition patch_reg_jump :: "bpf_insn list \<Rightarrow> nat \<Rightarrow> nat \<Rightarrow> u8 \<Rightarrow> u8 \<Rightarrow> u8 \<Rightarrow> bpf_insn list option" where
  "patch_reg_jump program from' to' dst src op =
     set_index program from' (bpf_insn_new (BPF_JMP OR op OR BPF_X) dst src (jump_offset from' to') 0)"

definition patch_imm_jump :: "bpf_insn list \<Rightarrow> nat \<Rightarrow> nat \<Rightarrow> u8 \<Rightarrow> i32 \<Rightarrow> u8 \<Rightarrow> bpf_insn list option" where
  "patch_imm_jump program from' to' dst k op =
     set_index program from' (bpf_insn_new (BPF_JMP OR op OR BPF_K) dst 0 (jump_offset from' to') k)"

section \<open>Literal search\<close>

text \<open>The unrolled comparison: a byte load and a placeholder per pattern byte.\<close>

fun emit_byte_checks :: "nat \<Rightarrow> u8 list \<Rightarrow> bpf_insn list \<Rightarrow> nat list \<Rightarrow> bpf_insn list \<times> nat list" where
  "emit_byte_checks i [] prog jumps = (prog, jumps)"
| "emit_byte_checks i (b # bs) prog jumps =
     (let prog = prog @ [ldx_mem BPF_B R7 R5 (of_nat i)];
          jump_idx = length prog;
          prog = prog @ [exit_insn]
      in emit_byte_checks (Suc i) bs prog (jumps @ [jump_idx]))"

fun patch_byte_checks :: "u8 list \<Rightarrow> nat \<Rightarrow> nat \<Rightarrow> nat list \<Rightarrow> bpf_insn list \<Rightarrow> bpf_insn list option" where
  "patch_byte_checks pattern next_iter_idx i [] prog = Some prog"
| "patch_byte_checks pattern next_iter_idx i (jump_idx # jumps) prog =
     Option.bind (get_index pattern i) (\<lambda>pattern_byte.
     Option.bind (set_index prog jump_idx
        (jmp_imm BPF_JNE R7 (ucast pattern_byte) (word_of_int (int next_iter_idx - int jump_idx - 1))))
       (patch_byte_checks pattern next_iter_idx (Suc i) jumps))"

definition compile_literal_search :: "u8 list \<Rightarrow> (compile_error + bpf_insn list) option" where
  "compile_literal_search pattern =
     (case compile_with_limit (literal_search_instruction_count (slice_len pattern)) of
        Inl e \<Rightarrow> Some (Err e)
      | Inr _ \<Rightarrow>
        if slice_len pattern > MAX_BPF_PATTERN_LEN then
          Some (Err (PatternTooLong (slice_len pattern) MAX_BPF_PATTERN_LEN))
        else
          let prog = [ldx_mem BPF_W R2 R1 0, ldx_mem BPF_W R3 R1 4] in
          if pattern = [] then Some (Ok (prog @ [alu64_imm BPF_MOV R0 1, exit_insn]))
          else
            let p_len = (ucast (slice_len pattern) :: i32);
                prog = prog @ [alu64_imm BPF_MOV R4 0];
                loop_start_idx = length prog;
                prog = prog @ [alu64_reg BPF_MOV R5 R2, alu64_reg BPF_ADD R5 R4,
                               alu64_reg BPF_MOV R6 R5, alu64_imm BPF_ADD R6 p_len];
                bounds_check_idx = length prog;
                prog = prog @ [exit_insn];
                (prog, jump_to_next_targets) = emit_byte_checks 0 pattern prog [];
                prog = prog @ [alu64_imm BPF_MOV R0 1, exit_insn];
                next_iter_idx = length prog;
                prog = prog @ [alu64_imm BPF_ADD R4 1];
                jump_back_offset = (word_of_int (int loop_start_idx - int (length prog) - 1) :: i16);
                prog = prog @ [jmp_imm BPF_JA R0 0 jump_back_offset];
                loop_fail_idx = length prog;
                prog = prog @ [alu64_imm BPF_MOV R0 0, exit_insn];
                bounds_offset = (word_of_int (int loop_fail_idx - int bounds_check_idx - 1) :: i16)
            in Option.bind (set_index prog bounds_check_idx (jmp_reg BPF_JGT R6 R3 bounds_offset)) (\<lambda>prog.
               Option.bind (patch_byte_checks pattern next_iter_idx 0 jump_to_next_targets prog) (\<lambda>prog.
               Some (Ok prog))))"

section \<open>Character classes\<close>

fun emit_ranges :: "char_range list \<Rightarrow> bpf_insn list \<Rightarrow> nat list \<Rightarrow> bpf_insn list \<times> nat list" where
  "emit_ranges [] prog match_jumps = (prog, match_jumps)"
| "emit_ranges (r # rs) prog match_jumps =
     (let prog = prog @ [jmp_imm BPF_JLT R7 (ucast (lo r)) 1];
          prog = prog @ [jmp_imm BPF_JLE R7 (ucast (hi r)) 0]
      in emit_ranges rs prog (match_jumps @ [length prog - 1]))"

fun patch_match_jumps :: "nat \<Rightarrow> nat list \<Rightarrow> bpf_insn list \<Rightarrow> bpf_insn list option" where
  "patch_match_jumps match_target [] prog = Some prog"
| "patch_match_jumps match_target (idx # match_jumps) prog =
     Option.bind (get_index prog idx) (\<lambda>insn.
     Option.bind (set_index prog idx (insn\<lparr>off := of_nat match_target - of_nat idx - 1\<rparr>))
       (patch_match_jumps match_target match_jumps))"

definition compile_char_class :: "char_range list \<Rightarrow> (compile_error + bpf_insn list) option" where
  "compile_char_class ranges =
     (if ranges = [] then Some (Err (InvalidPattern ''character class must have at least one range''))
      else if \<exists>r \<in> set ranges. lo r > hi r then
        Some (Err (InvalidPattern ''character class range endpoints are reversed''))
      else
        let estimated = 4 + slice_len ranges * 2 in
        case compile_with_limit estimated of
          Inl e \<Rightarrow> Some (Err e)
        | Inr _ \<Rightarrow>
          let (prog, match_jumps) = emit_ranges ranges [] [];
              prog = prog @ [alu64_imm BPF_MOV R0 0, exit_insn];
              match_target = length prog;
              prog = prog @ [alu64_imm BPF_MOV R0 1, exit_insn]
          in Option.bind (patch_match_jumps match_target match_jumps prog) (\<lambda>prog. Some (Ok prog)))"

fun to_char_range :: "pattern_range \<Rightarrow> char_range" where
  "to_char_range (Single v) = \<lparr>lo = v, hi = v\<rparr>"
| "to_char_range (Span a b) = \<lparr>lo = a, hi = b\<rparr>"

definition compile_character_class :: "u8 list \<Rightarrow> (compile_error + bpf_insn list) option" where
  "compile_character_class class' =
     (if class' = [] then Some (Ok [alu64_imm BPF_MOV R0 0, exit_insn])
      else case parse_character_class class' of
        Inl e \<Rightarrow> Some (Err e)
      | Inr ranges \<Rightarrow> compile_char_class (map to_char_range ranges))"

section \<open>Alternation\<close>

record alt_state =
  alt_prog :: "bpf_insn list"
  mismatch_jump_indices :: "nat list list"
  bound_jump_indices :: "nat list"
  match_jump_indices :: "nat list"
  alternative_start_indices :: "nat list"

fun emit_alt_bytes :: "nat \<Rightarrow> u8 list \<Rightarrow> bpf_insn list \<Rightarrow> nat list \<Rightarrow> bpf_insn list \<times> nat list" where
  "emit_alt_bytes i [] prog alt_mismatches = (prog, alt_mismatches)"
| "emit_alt_bytes i (expected # bs) prog alt_mismatches =
     (let prog = prog @ [ldx_mem BPF_B R7 R5 (of_nat i)];
          mismatch_idx = length prog;
          prog = prog @ [jmp_imm BPF_JNE R7 (ucast expected) 0]
      in emit_alt_bytes (Suc i) bs prog (alt_mismatches @ [mismatch_idx]))"

definition emit_alternative :: "u8 list \<Rightarrow> alt_state \<Rightarrow> alt_state" where
  "emit_alternative alt st =
     (let prog = alt_prog st;
          starts = alternative_start_indices st @ [length prog];
          bound_check_idx = length prog;
          prog = prog @ [alu64_reg BPF_MOV R6 R5, alu64_imm BPF_ADD R6 (ucast (slice_len alt)),
                         jmp_reg BPF_JGT R6 R3 0];
          bounds = bound_jump_indices st @ [bound_check_idx + 2];
          (prog, alt_mismatches) = emit_alt_bytes 0 alt prog [];
          match_idx = length prog;
          prog = prog @ [jmp_imm BPF_JA R0 0 0]
      in \<lparr>alt_prog = prog,
          mismatch_jump_indices = mismatch_jump_indices st @ [alt_mismatches],
          bound_jump_indices = bounds,
          match_jump_indices = match_jump_indices st @ [match_idx],
          alternative_start_indices = starts\<rparr>)"

text \<open>\<open>alternative_start_indices.get(i + 1).copied().unwrap_or(fail_idx)\<close>\<close>

definition next_alt_idx :: "nat list \<Rightarrow> nat \<Rightarrow> nat \<Rightarrow> nat" where
  "next_alt_idx starts fail_idx i = (case get_index starts (i + 1) of Some s \<Rightarrow> s | None \<Rightarrow> fail_idx)"

fun patch_alt_mismatches :: "nat \<Rightarrow> nat list \<Rightarrow> bpf_insn list \<Rightarrow> bpf_insn list option" where
  "patch_alt_mismatches next_idx [] prog = Some prog"
| "patch_alt_mismatches next_idx (jump_idx # idxs) prog =
     Option.bind (get_index prog jump_idx) (\<lambda>insn.
     Option.bind (patch_imm_jump prog jump_idx next_idx R7 (imm insn) BPF_JNE)
       (patch_alt_mismatches next_idx idxs))"

fun patch_mismatches :: "nat list \<Rightarrow> nat \<Rightarrow> nat \<Rightarrow> nat list list \<Rightarrow> bpf_insn list \<Rightarrow> bpf_insn list option" where
  "patch_mismatches starts fail_idx i [] prog = Some prog"
| "patch_mismatches starts fail_idx i (ms # mss) prog =
     Option.bind (patch_alt_mismatches (next_alt_idx starts fail_idx i) ms prog)
       (patch_mismatches starts fail_idx (Suc i) mss)"

fun patch_bounds :: "nat list \<Rightarrow> nat \<Rightarrow> nat \<Rightarrow> nat list \<Rightarrow> bpf_insn list \<Rightarrow> bpf_insn list option" where
  "patch_bounds starts fail_idx i [] prog = Some prog"
| "patch_bounds starts fail_idx i (b # bs) prog =
     Option.bind (patch_reg_jump prog b (next_alt_idx starts fail_idx i) R6 R3 BPF_JGT)
       (patch_bounds starts fail_idx (Suc i) bs)"

fun patch_matches :: "nat \<Rightarrow> nat list \<Rightarrow> bpf_insn list \<Rightarrow> bpf_insn list option" where
  "patch_matches success_idx [] prog = Some prog"
| "patch_matches success_idx (m # ms) prog =
     Option.bind (patch_match_jump prog m success_idx) (patch_matches success_idx ms)"

definition compile_alternation :: "u8 list list \<Rightarrow> (compile_error + bpf_insn list) option" where
  "compile_alternation alternatives =
     (if alternatives = [] then Some (Ok [alu64_imm BPF_MOV R0 0, exit_insn])
      else if \<exists>alt \<in> set alternatives. alt = [] then Some (Ok [alu64_imm BPF_MOV R0 1, exit_insn])
      else case compile_with_limit (estimate_alternation_instructions alternatives) of
        Inl e \<Rightarrow> Some (Err e)
      | Inr _ \<Rightarrow>
        let st = fold emit_alternative alternatives
              \<lparr>alt_prog = [], mismatch_jump_indices = [], bound_jump_indices = [],
               match_jump_indices = [], alternative_start_indices = []\<rparr>;
            starts = alternative_start_indices st;
            prog = alt_prog st;
            fail_idx = length prog;
            prog = prog @ [alu64_imm BPF_MOV R0 0, exit_insn];
            success_idx = length prog;
            prog = prog @ [alu64_imm BPF_MOV R0 1, exit_insn]
        in Option.bind (patch_mismatches starts fail_idx 0 (mismatch_jump_indices st) prog) (\<lambda>prog.
           Option.bind (patch_bounds starts fail_idx 0 (bound_jump_indices st) prog) (\<lambda>prog.
           Option.bind (patch_matches success_idx (match_jump_indices st) prog) (\<lambda>prog.
           Some (Ok prog)))))"

end
