(* ===== verification/Layout.thy ===== *)
theory Layout
  imports Codegen
begin

text \<open>
  The programs the code generator produces, written down directly: every instruction with
  its final jump distance. The lemmas show that emission followed by backpatching yields
  exactly these programs and never indexes out of range; the properties give their length
  (the estimates the limit check relies on are exact), the validity of every jump target
  and the complete error behaviour of the three entry points.
\<close>

unbundle bit_operations_syntax

section \<open>Directly written programs\<close>

fun byte_checks :: "nat \<Rightarrow> nat \<Rightarrow> u8 list \<Rightarrow> bpf_insn list" where
  "byte_checks skip i [] = []"
| "byte_checks skip i (b # bs) =
     ldx_mem BPF_B R7 R5 (of_nat i) #
     jmp_imm BPF_JNE R7 (ucast b) (of_nat (2 * length bs + skip)) # byte_checks skip (Suc i) bs"

definition literal_program :: "u8 list \<Rightarrow> bpf_insn list" where
  "literal_program pattern =
     (let n = length pattern in
      [ldx_mem BPF_W R2 R1 0, ldx_mem BPF_W R3 R1 4, alu64_imm BPF_MOV R4 0,
       alu64_reg BPF_MOV R5 R2, alu64_reg BPF_ADD R5 R4,
       alu64_reg BPF_MOV R6 R5, alu64_imm BPF_ADD R6 (of_nat n),
       jmp_reg BPF_JGT R6 R3 (of_nat (4 + 2 * n))]
      @ byte_checks 2 0 pattern
      @ [alu64_imm BPF_MOV R0 1, exit_insn,
         alu64_imm BPF_ADD R4 1, jmp_imm BPF_JA R0 0 (- of_nat (2 * n + 9)),
         alu64_imm BPF_MOV R0 0, exit_insn])"

definition literal_filter :: "u8 list \<Rightarrow> bpf_insn list" where
  "literal_filter pattern =
     (if pattern = [] then
        [ldx_mem BPF_W R2 R1 0, ldx_mem BPF_W R3 R1 4, alu64_imm BPF_MOV R0 1, exit_insn]
      else literal_program pattern)"

fun class_code :: "char_range list \<Rightarrow> bpf_insn list" where
  "class_code [] = []"
| "class_code (r # rs) =
     jmp_imm BPF_JLT R7 (ucast (lo r)) 1 #
     jmp_imm BPF_JLE R7 (ucast (hi r)) (of_nat (2 * length rs + 2)) # class_code rs"

definition class_program :: "char_range list \<Rightarrow> bpf_insn list" where
  "class_program rs =
     class_code rs @ [alu64_imm BPF_MOV R0 0, exit_insn, alu64_imm BPF_MOV R0 1, exit_insn]"

text \<open>
  A block of the alternation: the bound check, the byte checks and the jump to the success
  label. The flags say which of the three backpatching passes has run.
\<close>

fun alt_checks :: "bool \<Rightarrow> nat \<Rightarrow> u8 list \<Rightarrow> bpf_insn list" where
  "alt_checks m i [] = []"
| "alt_checks m i (b # bs) =
     ldx_mem BPF_B R7 R5 (of_nat i) #
     jmp_imm BPF_JNE R7 (ucast b) (if m then of_nat (2 * length bs + 1) else 0) # alt_checks m (Suc i) bs"

definition alt_block :: "bool \<Rightarrow> bool \<Rightarrow> bool \<Rightarrow> nat \<Rightarrow> u8 list \<Rightarrow> bpf_insn list" where
  "alt_block m b j dist a =
     [alu64_reg BPF_MOV R6 R5, alu64_imm BPF_ADD R6 (ucast (slice_len a)),
      jmp_reg BPF_JGT R6 R3 (if b then of_nat (2 * length a + 1) else 0)]
     @ alt_checks m 0 a
     @ [jmp_imm BPF_JA R0 0 (if j then of_nat dist else 0)]"

definition alts_size :: "u8 list list \<Rightarrow> nat" where
  "alts_size as = (\<Sum>a\<leftarrow>as. 4 + 2 * length a)"

fun alts_code :: "bool \<Rightarrow> bool \<Rightarrow> bool \<Rightarrow> u8 list list \<Rightarrow> bpf_insn list" where
  "alts_code m b j [] = []"
| "alts_code m b j (a # as) = alt_block m b j (alts_size as + 2) a @ alts_code m b j as"

definition alternation_program :: "u8 list list \<Rightarrow> bpf_insn list" where
  "alternation_program as =
     alts_code True True True as
     @ [alu64_imm BPF_MOV R0 0, exit_insn, alu64_imm BPF_MOV R0 1, exit_insn]"

section \<open>Jump validity\<close>

text \<open>The check that the unit tests run on compiled programs.\<close>

definition insn_jump_ok :: "nat \<Rightarrow> nat \<Rightarrow> bpf_insn \<Rightarrow> bool" where
  "insn_jump_ok len idx insn =
     (let is_jump = (code insn AND 0x07 = BPF_JMP) in
      if is_jump \<and> code insn AND 0xF0 \<noteq> BPF_EXIT \<and> code insn AND 0xF0 \<noteq> BPF_CALL then
        let target = int idx + 1 + sint (off insn) in target \<ge> 0 \<and> nat target < len
      else True)"

fun jumps_ok :: "nat \<Rightarrow> nat \<Rightarrow> bpf_insn list \<Rightarrow> bool" where
  "jumps_ok len idx [] = True"
| "jumps_ok len idx (i # is) = (insn_jump_ok len idx i \<and> jumps_ok len (Suc idx) is)"

definition assert_jump_offsets_are_valid :: "bpf_insn list \<Rightarrow> bool" where
  "assert_jump_offsets_are_valid program = jumps_ok (length program) 0 program"

section \<open>Literal search\<close>

fun check_slots :: "nat \<Rightarrow> u8 list \<Rightarrow> nat list" where
  "check_slots s [] = []"
| "check_slots s (b # bs) = Suc s # check_slots (s + 2) bs"

fun check_placeholders :: "nat \<Rightarrow> u8 list \<Rightarrow> bpf_insn list" where
  "check_placeholders i [] = []"
| "check_placeholders i (b # bs) = ldx_mem BPF_B R7 R5 (of_nat i) # exit_insn # check_placeholders (Suc i) bs"

lemma length_check_placeholders [simp]: "length (check_placeholders i bs) = 2 * length bs"
  by (induction i bs rule: check_placeholders.induct) auto

lemma length_byte_checks [simp]: "length (byte_checks k i bs) = 2 * length bs"
  by (induction k i bs rule: byte_checks.induct) auto

lemma emit_byte_checks_eq:
  "emit_byte_checks i bs prog jumps = (prog @ check_placeholders i bs, jumps @ check_slots (length prog) bs)"
  by (induction i bs prog jumps rule: emit_byte_checks.induct) (simp_all add: Let_def)

lemma set_index_at:
  "k = length xs \<Longrightarrow> set_index (xs @ y # ys) k v = Some (xs @ v # ys)"
  "k = Suc (length xs) \<Longrightarrow> set_index (xs @ x # y # ys) k v = Some (xs @ x # v # ys)"
  by (simp_all add: set_index_def list_update_append)

lemma word_of_int_offset: "a = b + 1 + c \<Longrightarrow> word_of_int (int a - int b - 1) = (of_nat c :: 'a::len word)"
  by simp

lemma patch_byte_checks_eq:
  assumes "drop i pattern = bs" and "target = length pre + 2 * length bs + 2"
  shows "patch_byte_checks pattern target i (check_slots (length pre) bs) (pre @ check_placeholders i bs @ post)
           = Some (pre @ byte_checks 2 i bs @ post)"
  using assms
proof (induction bs arbitrary: i pre)
  case (Cons b bs)
  have b: "get_index pattern i = Some b"
    using Cons.prems(1) by (simp add: get_index_def) (metis drop_all hd_drop_conv_nth leI list.distinct(1) list.sel(1))
  have off: "word_of_int (int target - int (Suc (length pre)) - 1) = (of_nat (2 * length bs + 2) :: i16)"
    by (rule word_of_int_offset) (use Cons.prems(2) in simp)
  have rest: "drop (Suc i) pattern = bs"
    using Cons.prems(1) by (metis drop_Suc list.sel(3) tl_drop)
  let ?pre = "pre @ [ldx_mem BPF_B R7 R5 (of_nat i), jmp_imm BPF_JNE R7 (ucast b) (of_nat (2 * length bs + 2))]"
  have "patch_byte_checks pattern target (Suc i) (check_slots (length ?pre) bs)
      (?pre @ check_placeholders (Suc i) bs @ post) = Some (?pre @ byte_checks 2 (Suc i) bs @ post)"
    by (rule Cons.IH [OF rest]) (use Cons.prems(2) in simp)
  then show ?case
    by (simp only: patch_byte_checks.simps check_slots.simps check_placeholders.simps b bind.simps off
        append_Cons set_index_at(2) byte_checks.simps) simp
qed simp

lemma literal_patched:
  "patch_byte_checks pattern (length pre + 2 * length pattern + 2) 0 (check_slots (length pre) pattern)
     (pre @ check_placeholders 0 pattern @ post) = Some (pre @ byte_checks 2 0 pattern @ post)"
  by (rule patch_byte_checks_eq) simp_all

lemma unat_double_count:
  assumes "n < 2 ^ 62" and "unat k < 2 ^ 62"
  shows "unat (k + of_nat n * 2 :: usize) = unat k + 2 * n"
proof -
  have n: "unat (of_nat n :: usize) = n"
    using assms by (simp add: unat_of_nat)
  then have m: "unat (of_nat n * 2 :: usize) = n * 2"
    using assms by (subst unat_mult_small) simp_all
  show ?thesis
    using assms by (subst unat_add_small) (simp_all add: m)
qed

lemma literal_count_unat:
  "length pattern < 2 ^ 62 \<Longrightarrow> pattern \<noteq> [] \<Longrightarrow>
     unat (literal_search_instruction_count (slice_len pattern)) = 14 + 2 * length pattern"
proof -
  assume len: "length pattern < 2 ^ 62" and ne: "pattern \<noteq> []"
  have "unat (slice_len pattern) = length pattern"
    using len by (simp add: unat_slice_len)
  with ne have "slice_len pattern \<noteq> 0"
    by auto
  then show ?thesis
    unfolding literal_search_instruction_count_def
    using unat_double_count [OF len, of 14] by (simp add: slice_len_def)
qed

lemma slice_len_le_iff: "fits_slice xs \<Longrightarrow> k < 2 ^ 63 \<Longrightarrow> slice_len xs > of_nat k \<longleftrightarrow> length xs > k"
  by (simp add: word_less_nat_alt unat_slice_len unat_of_nat)

lemma slice_len_i32: "length xs < 2 ^ 62 \<Longrightarrow> (ucast (slice_len xs) :: i32) = of_nat (length xs)"
  unfolding slice_len_def by (rule bit_word_eqI) (auto simp: bit_simps)

lemma compile_literal_search_small:
  assumes "length pattern \<le> 1024"
  shows "compile_literal_search pattern = Some (Ok (literal_filter pattern))"
proof -
  have len: "length pattern < 2 ^ 62"
    using assms by simp
  have limit: "compile_with_limit (literal_search_instruction_count (slice_len pattern)) = Ok ()"
  proof (cases "pattern = []")
    case False
    then have "literal_search_instruction_count (slice_len pattern) \<le> MAX_BPF_INSTRUCTION_LEN"
      using literal_count_unat [OF len] assms by (simp add: word_le_nat_alt MAX_BPF_INSTRUCTION_LEN_def)
    then show ?thesis by (simp add: compile_with_limit_def)
  qed (simp add: compile_with_limit_def literal_search_instruction_count_def MAX_BPF_INSTRUCTION_LEN_def slice_len_def)
  have short: "\<not> slice_len pattern > MAX_BPF_PATTERN_LEN"
    using slice_len_le_iff [of pattern 1024] assms by (simp add: MAX_BPF_PATTERN_LEN_def)
  let ?pre = "[ldx_mem BPF_W R2 R1 0, ldx_mem BPF_W R3 R1 4, alu64_imm BPF_MOV R4 0,
       alu64_reg BPF_MOV R5 R2, alu64_reg BPF_ADD R5 R4, alu64_reg BPF_MOV R6 R5,
       alu64_imm BPF_ADD R6 (of_nat (length pattern)), jmp_reg BPF_JGT R6 R3 (of_nat (4 + 2 * length pattern))]"
  note patched = literal_patched [of pattern ?pre]
  show ?thesis
    using patched
    by (simp add: compile_literal_search_def limit short emit_byte_checks_eq slice_len_i32 [OF len]
        set_index_def literal_filter_def literal_program_def Let_def)
qed

lemma compile_literal_search_large:
  assumes "1024 < length pattern" and "length pattern < 2 ^ 62"
  shows "compile_literal_search pattern
    = Some (Err (if length pattern \<le> 2041 then PatternTooLong (slice_len pattern) 1024
                 else PatternTooLong (of_nat (14 + 2 * length pattern)) 4096))"
proof -
  have ne: "pattern \<noteq> []"
    using assms(1) by auto
  let ?count = "literal_search_instruction_count (slice_len pattern)"
  have count: "unat ?count = 14 + 2 * length pattern"
    by (rule literal_count_unat [OF assms(2) ne])
  then have eq: "?count = of_nat (14 + 2 * length pattern)"
    by (rule word_of_unat)
  have "?count > 4096 \<longleftrightarrow> 2041 < length pattern"
    by (simp add: word_less_nat_alt count)
  moreover have "slice_len pattern > 1024"
    using slice_len_le_iff [of pattern 1024] assms by simp
  ultimately show ?thesis
    by (simp add: compile_literal_search_def compile_with_limit_def eq
        MAX_BPF_INSTRUCTION_LEN_def MAX_BPF_PATTERN_LEN_def)
qed

section \<open>Character classes\<close>

fun class_raw :: "char_range list \<Rightarrow> bpf_insn list" where
  "class_raw [] = []"
| "class_raw (r # rs) =
     jmp_imm BPF_JLT R7 (ucast (lo r)) 1 # jmp_imm BPF_JLE R7 (ucast (hi r)) 0 # class_raw rs"

fun range_slots :: "nat \<Rightarrow> char_range list \<Rightarrow> nat list" where
  "range_slots s [] = []"
| "range_slots s (r # rs) = Suc s # range_slots (s + 2) rs"

lemma length_class_raw [simp]: "length (class_raw rs) = 2 * length rs"
  by (induction rs) auto

lemma length_class_code [simp]: "length (class_code rs) = 2 * length rs"
  by (induction rs) auto

lemma emit_ranges_eq:
  "emit_ranges rs prog js = (prog @ class_raw rs, js @ range_slots (length prog) rs)"
  by (induction rs prog js rule: emit_ranges.induct) (simp_all add: Let_def)

lemma jmp_imm_set_off: "(jmp_imm op d k o')\<lparr>off := x\<rparr> = jmp_imm op d k x"
  by (simp add: jmp_imm_def bpf_insn_new_def)

lemma get_index_at: "k = Suc (length xs) \<Longrightarrow> get_index (xs @ x # y # ys) k = Some y"
  by (simp add: get_index_def nth_append)

lemma patch_match_jumps_eq:
  "target = length pre + 2 * length rs + 2 \<Longrightarrow>
   patch_match_jumps target (range_slots (length pre) rs) (pre @ class_raw rs @ post)
     = Some (pre @ class_code rs @ post)"
proof (induction rs arbitrary: pre)
  case (Cons r rs)
  have off: "of_nat target - of_nat (Suc (length pre)) - 1 = (of_nat (2 * length rs + 2) :: i16)"
    using Cons.prems by simp
  let ?pre = "pre @ [jmp_imm BPF_JLT R7 (ucast (lo r)) 1,
      jmp_imm BPF_JLE R7 (ucast (hi r)) (of_nat (2 * length rs + 2))]"
  have "patch_match_jumps target (range_slots (length ?pre) rs) (?pre @ class_raw rs @ post)
      = Some (?pre @ class_code rs @ post)"
    by (rule Cons.IH) (use Cons.prems in simp)
  then show ?case
    by (simp only: patch_match_jumps.simps range_slots.simps class_raw.simps class_code.simps
        append_Cons get_index_at set_index_at(2) bind.simps off jmp_imm_set_off) simp
qed simp

lemma char_class_limit:
  assumes "length rs < 2 ^ 62"
  shows "compile_with_limit (4 + slice_len rs * 2) =
    (if length rs \<le> 2046 then Ok () else Err (PatternTooLong (of_nat (4 + 2 * length rs)) 4096))"
proof -
  have count: "unat (4 + slice_len rs * 2) = 4 + 2 * length rs"
    using unat_double_count [OF assms, of 4] by (simp add: slice_len_def)
  then have "4 + slice_len rs * 2 = of_nat (4 + 2 * length rs)"
    by (rule word_of_unat)
  moreover have "(4096 < 4 + slice_len rs * 2) = (2046 < length rs)"
    unfolding word_less_nat_alt count by simp
  ultimately show ?thesis
    by (simp add: compile_with_limit_def MAX_BPF_INSTRUCTION_LEN_def)
qed

lemma compile_char_class_eq:
  assumes "length rs < 2 ^ 62"
  shows "compile_char_class rs = Some
    (if rs = [] then Err (InvalidPattern ''character class must have at least one range'')
     else if \<exists>r \<in> set rs. lo r > hi r then Err (InvalidPattern ''character class range endpoints are reversed'')
     else if length rs \<le> 2046 then Ok (class_program rs)
     else Err (PatternTooLong (of_nat (4 + 2 * length rs)) 4096))"
  using patch_match_jumps_eq [of _ "[]" rs]
  by (simp add: compile_char_class_def char_class_limit [OF assms] emit_ranges_eq Let_def class_program_def)

section \<open>Alternation\<close>

subsection \<open>Emission\<close>

fun alt_starts :: "nat \<Rightarrow> u8 list list \<Rightarrow> nat list" where
  "alt_starts s [] = []"
| "alt_starts s (a # as) = s # alt_starts (s + 4 + 2 * length a) as"

fun alt_mismatch_slots :: "nat \<Rightarrow> u8 list list \<Rightarrow> nat list list" where
  "alt_mismatch_slots s [] = []"
| "alt_mismatch_slots s (a # as) = check_slots (s + 3) a # alt_mismatch_slots (s + 4 + 2 * length a) as"

fun alt_bound_slots :: "nat \<Rightarrow> u8 list list \<Rightarrow> nat list" where
  "alt_bound_slots s [] = []"
| "alt_bound_slots s (a # as) = (s + 2) # alt_bound_slots (s + 4 + 2 * length a) as"

fun alt_match_slots :: "nat \<Rightarrow> u8 list list \<Rightarrow> nat list" where
  "alt_match_slots s [] = []"
| "alt_match_slots s (a # as) = (s + 3 + 2 * length a) # alt_match_slots (s + 4 + 2 * length a) as"

lemma length_alt_checks [simp]: "length (alt_checks m i bs) = 2 * length bs"
  by (induction m i bs rule: alt_checks.induct) auto

lemma length_alt_block [simp]: "length (alt_block m b j d a) = 4 + 2 * length a"
  by (simp add: alt_block_def)

lemma alts_size_simps [simp]: "alts_size [] = 0" "alts_size (a # as) = 4 + 2 * length a + alts_size as"
  by (simp_all add: alts_size_def)

lemma alts_size_replicate: "alts_size (replicate n a) = n * (4 + 2 * length a)"
  by (simp add: alts_size_def sum_list_replicate)

lemma length_alts_code [simp]: "length (alts_code m b j as) = alts_size as"
  by (induction as) auto

lemma emit_alt_bytes_eq:
  "emit_alt_bytes i bs prog ms = (prog @ alt_checks False i bs, ms @ check_slots (length prog) bs)"
  by (induction i bs prog ms rule: emit_alt_bytes.induct) (simp_all add: Let_def)

lemma emit_alternative_eq:
  "emit_alternative a st =
     \<lparr>alt_prog = alt_prog st @ alt_block False False False d a,
      mismatch_jump_indices = mismatch_jump_indices st @ [check_slots (length (alt_prog st) + 3) a],
      bound_jump_indices = bound_jump_indices st @ [length (alt_prog st) + 2],
      match_jump_indices = match_jump_indices st @ [length (alt_prog st) + 3 + 2 * length a],
      alternative_start_indices = alternative_start_indices st @ [length (alt_prog st)]\<rparr>"
  by (simp add: emit_alternative_def Let_def emit_alt_bytes_eq alt_block_def numeral_3_eq_3)

lemma fold_emit_alternative:
  "fold emit_alternative as st =
     \<lparr>alt_prog = alt_prog st @ alts_code False False False as,
      mismatch_jump_indices = mismatch_jump_indices st @ alt_mismatch_slots (length (alt_prog st)) as,
      bound_jump_indices = bound_jump_indices st @ alt_bound_slots (length (alt_prog st)) as,
      match_jump_indices = match_jump_indices st @ alt_match_slots (length (alt_prog st)) as,
      alternative_start_indices = alternative_start_indices st @ alt_starts (length (alt_prog st)) as\<rparr>"
proof (induction as arbitrary: st)
  case (Cons a as)
  then show ?case
    by (simp add: emit_alternative_eq [where d = "alts_size as + 2"] add.assoc)
qed simp

subsection \<open>The three patching passes\<close>

lemma next_alt_idx_eq:
  "next_alt_idx (done @ alt_starts s (a # as)) (s + alts_size (a # as)) (length done) = s + 4 + 2 * length a"
  by (cases as) (simp_all add: next_alt_idx_def get_index_def nth_append)

lemma jump_offset_eq: "to' = from' + 1 + c \<Longrightarrow> jump_offset from' to' = of_nat c"
  unfolding jump_offset_def by (rule word_of_int_offset)

lemma jmp_imm_imm [simp]: "imm (jmp_imm op d k o') = k"
  by (simp add: jmp_imm_def)

lemma patch_alt_mismatches_eq:
  "target = length pre + 2 * length bs + 1 \<Longrightarrow>
   patch_alt_mismatches target (check_slots (length pre) bs) (pre @ alt_checks False i bs @ post)
     = Some (pre @ alt_checks True i bs @ post)"
proof (induction bs arbitrary: i pre)
  case (Cons b bs)
  have off: "jump_offset (Suc (length pre)) target = of_nat (2 * length bs + 1)"
    by (rule jump_offset_eq) (use Cons.prems in simp)
  let ?pre = "pre @ [ldx_mem BPF_B R7 R5 (of_nat i), jmp_imm BPF_JNE R7 (ucast b) (of_nat (2 * length bs + 1))]"
  have "patch_alt_mismatches target (check_slots (length ?pre) bs) (?pre @ alt_checks False (Suc i) bs @ post)
      = Some (?pre @ alt_checks True (Suc i) bs @ post)"
    by (rule Cons.IH) (use Cons.prems in simp)
  then show ?case
    by (simp only: patch_alt_mismatches.simps check_slots.simps alt_checks.simps append_Cons
        get_index_at set_index_at(2) bind.simps patch_imm_jump_def off jmp_imm_imm if_True
        jmp_imm_def [symmetric]) simp
qed simp

lemma patch_alt_mismatches_at:
  "s = length pre \<Longrightarrow> target = s + 2 * length bs + 1 \<Longrightarrow>
   patch_alt_mismatches target (check_slots s bs) (pre @ alt_checks False i bs @ post)
     = Some (pre @ alt_checks True i bs @ post)"
  by (simp only: patch_alt_mismatches_eq)

lemma patch_mismatches_eq:
  "patch_mismatches (done @ alt_starts (length pre) as) (length pre + alts_size as) (length done)
     (alt_mismatch_slots (length pre) as) (pre @ alts_code False b j as @ post)
     = Some (pre @ alts_code True b j as @ post)"
proof (induction as arbitrary: pre "done")
  case (Cons a as)
  let ?head = "pre @ [alu64_reg BPF_MOV R6 R5, alu64_imm BPF_ADD R6 (ucast (slice_len a)),
      jmp_reg BPF_JGT R6 R3 (if b then of_nat (2 * length a + 1) else 0)]"
  let ?tail = "[jmp_imm BPF_JA R0 0 (if j then of_nat (alts_size as + 2) else 0)] @ alts_code False b j as @ post"
  have head: "patch_alt_mismatches (length pre + 4 + 2 * length a) (check_slots (length pre + 3) a)
      (?head @ alt_checks False 0 a @ ?tail) = Some (?head @ alt_checks True 0 a @ ?tail)"
    by (rule patch_alt_mismatches_at) simp_all
  let ?pre = "pre @ alt_block True b j (alts_size as + 2) a"
  have rest: "patch_mismatches ((done @ [length pre]) @ alt_starts (length ?pre) as)
      (length ?pre + alts_size as) (length (done @ [length pre])) (alt_mismatch_slots (length ?pre) as)
      (?pre @ alts_code False b j as @ post) = Some (?pre @ alts_code True b j as @ post)"
    by (rule Cons.IH)
  have block: "pre @ alts_code False b j (a # as) @ post = ?head @ alt_checks False 0 a @ ?tail"
    "?head @ alt_checks True 0 a @ ?tail = ?pre @ alts_code False b j as @ post"
    by (simp_all add: alt_block_def)
  show ?case
    unfolding alt_mismatch_slots.simps patch_mismatches.simps next_alt_idx_eq block(1) head bind.simps block(2)
    using rest by (simp add: add.assoc)
qed simp

lemma patch_bounds_eq:
  "patch_bounds (done @ alt_starts (length pre) as) (length pre + alts_size as) (length done)
     (alt_bound_slots (length pre) as) (pre @ alts_code m False j as @ post)
     = Some (pre @ alts_code m True j as @ post)"
proof (induction as arbitrary: pre "done")
  case (Cons a as)
  let ?head = "pre @ [alu64_reg BPF_MOV R6 R5, alu64_imm BPF_ADD R6 (ucast (slice_len a))]"
  let ?tail = "alt_checks m 0 a @ [jmp_imm BPF_JA R0 0 (if j then of_nat (alts_size as + 2) else 0)]
      @ alts_code m False j as @ post"
  have off: "jump_offset (length pre + 2) (length pre + 4 + 2 * length a) = of_nat (2 * length a + 1)"
    by (rule jump_offset_eq) simp
  have head: "patch_reg_jump (?head @ jmp_reg BPF_JGT R6 R3 0 # ?tail) (length pre + 2)
      (length pre + 4 + 2 * length a) R6 R3 BPF_JGT
      = Some (?head @ jmp_reg BPF_JGT R6 R3 (of_nat (2 * length a + 1)) # ?tail)"
    unfolding patch_reg_jump_def off jmp_reg_def by (rule set_index_at(1)) simp
  let ?pre = "pre @ alt_block m True j (alts_size as + 2) a"
  have rest: "patch_bounds ((done @ [length pre]) @ alt_starts (length ?pre) as)
      (length ?pre + alts_size as) (length (done @ [length pre])) (alt_bound_slots (length ?pre) as)
      (?pre @ alts_code m False j as @ post) = Some (?pre @ alts_code m True j as @ post)"
    by (rule Cons.IH)
  have block: "pre @ alts_code m False j (a # as) @ post = ?head @ jmp_reg BPF_JGT R6 R3 0 # ?tail"
    "?head @ jmp_reg BPF_JGT R6 R3 (of_nat (2 * length a + 1)) # ?tail = ?pre @ alts_code m False j as @ post"
    by (simp_all add: alt_block_def)
  show ?case
    unfolding alt_bound_slots.simps patch_bounds.simps next_alt_idx_eq block(1) head bind.simps block(2)
    using rest by (simp add: add.assoc)
qed simp

lemma patch_matches_eq:
  "success = length pre + alts_size as + 2 \<Longrightarrow>
   patch_matches success (alt_match_slots (length pre) as) (pre @ alts_code m b False as @ post)
     = Some (pre @ alts_code m b True as @ post)"
proof (induction as arbitrary: pre)
  case (Cons a as)
  let ?head = "pre @ [alu64_reg BPF_MOV R6 R5, alu64_imm BPF_ADD R6 (ucast (slice_len a)),
      jmp_reg BPF_JGT R6 R3 (if b then of_nat (2 * length a + 1) else 0)] @ alt_checks m 0 a"
  let ?tail = "alts_code m b False as @ post"
  have off: "jump_offset (length pre + 3 + 2 * length a) success = of_nat (alts_size as + 2)"
    by (rule jump_offset_eq) (use Cons.prems in simp)
  have ja: "bpf_insn_new (BPF_JMP OR BPF_JA) R0 0 x 0 = jmp_imm BPF_JA R0 0 x" for x
    by (simp add: jmp_imm_def bpf_opcodes)
  have head: "patch_match_jump (?head @ jmp_imm BPF_JA R0 0 0 # ?tail) (length pre + 3 + 2 * length a) success
      = Some (?head @ jmp_imm BPF_JA R0 0 (of_nat (alts_size as + 2)) # ?tail)"
    unfolding patch_match_jump_def off ja by (rule set_index_at(1)) simp
  let ?pre = "pre @ alt_block m b True (alts_size as + 2) a"
  have rest: "patch_matches success (alt_match_slots (length ?pre) as) (?pre @ alts_code m b False as @ post)
      = Some (?pre @ alts_code m b True as @ post)"
    by (rule Cons.IH) (use Cons.prems in simp)
  have block: "pre @ alts_code m b False (a # as) @ post = ?head @ jmp_imm BPF_JA R0 0 0 # ?tail"
    "?head @ jmp_imm BPF_JA R0 0 (of_nat (alts_size as + 2)) # ?tail = ?pre @ alts_code m b False as @ post"
    by (simp_all add: alt_block_def)
  show ?case
    unfolding alt_match_slots.simps patch_matches.simps block(1) head bind.simps block(2)
    using rest by (simp add: add.assoc)
qed simp

subsection \<open>The whole program\<close>

lemma estimate_fold:
  assumes "\<forall>a \<in> set as. a \<noteq> []" and "unat acc + alts_size as < 2 ^ 63"
  shows "unat (fold (\<lambda>alt acc. acc + (if alt = [] then 0 else 4 + slice_len alt * 2)) as acc :: usize)
           = unat acc + alts_size as"
  using assms
proof (induction as arbitrary: acc)
  case (Cons a as)
  have "length a < 2 ^ 62"
    using Cons.prems(2) by simp
  then have a: "unat (4 + slice_len a * 2) = 4 + 2 * length a"
    using unat_double_count [of "length a" 4] by (simp add: slice_len_def)
  have "unat (acc + (4 + slice_len a * 2)) = unat acc + (4 + 2 * length a)"
    using Cons.prems(2) by (subst unat_add_small) (simp_all add: a)
  then show ?case
    using Cons.IH [of "acc + (4 + slice_len a * 2)"] Cons.prems by simp
qed simp

lemma estimate_alternation_unat:
  assumes "as \<noteq> []" "\<forall>a \<in> set as. a \<noteq> []" "alts_size as < 2 ^ 62"
  shows "unat (estimate_alternation_instructions as) = 4 + alts_size as"
proof -
  have f: "unat (fold (\<lambda>alt acc. acc + (if alt = [] then 0 else 4 + slice_len alt * 2)) as 0 :: usize) = alts_size as"
    using estimate_fold [OF assms(2), of 0] assms(3) by simp
  show ?thesis
    unfolding estimate_alternation_instructions_def
    using assms f by (auto simp: unat_add_small)
qed

lemma compile_alternation_eq:
  assumes "alts_size as < 2 ^ 62"
  shows "compile_alternation as = Some
    (if as = [] then Ok [alu64_imm BPF_MOV R0 0, exit_insn]
     else if [] \<in> set as then Ok [alu64_imm BPF_MOV R0 1, exit_insn]
     else if 4 + alts_size as \<le> 4096 then Ok (alternation_program as)
     else Err (PatternTooLong (of_nat (4 + alts_size as)) 4096))"
proof (cases "as = [] \<or> [] \<in> set as")
  case False
  then have count: "unat (estimate_alternation_instructions as) = 4 + alts_size as"
    using estimate_alternation_unat assms by blast
  then have eq: "estimate_alternation_instructions as = of_nat (4 + alts_size as)"
    by (rule word_of_unat)
  have lim: "4096 < estimate_alternation_instructions as \<longleftrightarrow> 4096 < 4 + alts_size as"
    unfolding word_less_nat_alt count by simp
  note passes = patch_mismatches_eq [of "[]" "[]" as False False] patch_bounds_eq [of "[]" "[]" as True False]
    patch_matches_eq [of _ "[]" as True True]
  from False lim passes show ?thesis
    by (auto simp: compile_alternation_def compile_with_limit_def fold_emit_alternative Let_def
        alternation_program_def eq MAX_BPF_INSTRUCTION_LEN_def)
qed (auto simp: compile_alternation_def)

section \<open>Jumps stay inside the program\<close>

lemma jumps_ok_append [simp]:
  "jumps_ok len idx (xs @ ys) \<longleftrightarrow> jumps_ok len idx xs \<and> jumps_ok len (idx + length xs) ys"
  by (induction xs arbitrary: idx) auto

lemmas jump_macros = jmp_imm_def jmp_reg_def alu64_imm_def alu64_reg_def ldx_mem_def exit_insn_def

lemma insn_jump_ok_straight [simp]:
  "insn_jump_ok len idx (ldx_mem BPF_B d s f)" "insn_jump_ok len idx (ldx_mem BPF_W d s f)"
  "insn_jump_ok len idx (alu64_imm BPF_MOV d k)" "insn_jump_ok len idx (alu64_imm BPF_ADD d k)"
  "insn_jump_ok len idx (alu64_reg BPF_MOV d s)" "insn_jump_ok len idx (alu64_reg BPF_ADD d s)"
  "insn_jump_ok len idx exit_insn"
  by (simp_all add: insn_jump_ok_def jump_macros bpf_opcodes)

lemma insn_jump_ok_branch:
  "int idx + 1 + sint f \<ge> 0 \<Longrightarrow> int idx + 1 + sint f < int len \<Longrightarrow> insn_jump_ok len idx (jmp_imm op d k f)"
  "int idx + 1 + sint f \<ge> 0 \<Longrightarrow> int idx + 1 + sint f < int len \<Longrightarrow> insn_jump_ok len idx (jmp_reg op d s f)"
  by (auto simp: insn_jump_ok_def jump_macros Let_def)

lemma jump_forward:
  "idx + 1 + k < len \<Longrightarrow> k < 32768 \<Longrightarrow> insn_jump_ok len idx (jmp_imm op d c (of_nat k))"
  "idx + 1 + k < len \<Longrightarrow> k < 32768 \<Longrightarrow> insn_jump_ok len idx (jmp_reg op d s (of_nat k))"
  by (rule insn_jump_ok_branch; simp add: sint_of_nat_16)+

lemma jumps_ok_byte_checks:
  "idx + 2 * length bs + skip < len \<Longrightarrow> len \<le> 32768 \<Longrightarrow> jumps_ok len idx (byte_checks skip i bs)"
proof (induction skip i bs arbitrary: idx rule: byte_checks.induct)
  case (2 skip i b bs)
  then have "insn_jump_ok len (Suc idx) (jmp_imm BPF_JNE R7 (ucast b) (of_nat (2 * length bs + skip)))"
    by (intro jump_forward) auto
  with 2 show ?case by simp
qed simp

lemma jumps_ok_class_code:
  "idx + 2 * length rs + 2 < len \<Longrightarrow> len \<le> 32768 \<Longrightarrow> jumps_ok len idx (class_code rs)"
proof (induction rs arbitrary: idx)
  case (Cons r rs)
  then have "insn_jump_ok len (Suc idx) (jmp_imm BPF_JLE R7 (ucast (hi r)) (of_nat (2 * length rs + 2)))"
    "insn_jump_ok len idx (jmp_imm BPF_JLT R7 (ucast (lo r)) (of_nat 1))"
    by (intro jump_forward; simp)+
  with Cons show ?case by simp
qed simp

lemma alt_checks_True: "alt_checks True i bs = byte_checks 1 i bs"
  by (induction "True" i bs rule: alt_checks.induct) auto

lemma jumps_ok_alts_code:
  "idx + alts_size as + 2 < len \<Longrightarrow> len \<le> 32768 \<Longrightarrow> jumps_ok len idx (alts_code True True True as)"
proof (induction as arbitrary: idx)
  case (Cons a as)
  then have j: "insn_jump_ok len (Suc (Suc idx)) (jmp_reg BPF_JGT R6 R3 (of_nat (2 * length a + 1)))"
    "insn_jump_ok len (Suc (Suc (Suc idx)) + 2 * length a) (jmp_imm BPF_JA R0 0 (of_nat (alts_size as + 2)))"
    by (intro jump_forward; simp)+
  have checks: "jumps_ok len (Suc (Suc (Suc idx))) (byte_checks 1 0 a)"
    by (rule jumps_ok_byte_checks) (use Cons.prems in simp_all)
  have "jumps_ok len (idx + (4 + 2 * length a)) (alts_code True True True as)"
    by (rule Cons.IH) (use Cons.prems in simp_all)
  moreover have "jumps_ok len idx (alt_block True True True (alts_size as + 2) a)"
    unfolding alt_block_def alt_checks_True if_True using j checks by simp
  ultimately show ?case
    by simp
qed simp

lemma length_literal_program [simp]: "length (literal_program pattern) = 14 + 2 * length pattern"
  by (simp add: literal_program_def Let_def)

lemma length_class_program [simp]: "length (class_program rs) = 4 + 2 * length rs"
  by (simp add: class_program_def)

lemma length_alternation_program [simp]: "length (alternation_program as) = 4 + alts_size as"
  by (simp add: alternation_program_def)

lemma literal_program_jumps:
  assumes "length pattern \<le> 1024"
  shows "assert_jump_offsets_are_valid (literal_program pattern)"
proof -
  let ?n = "length pattern" and ?len = "14 + 2 * length pattern"
  have "insn_jump_ok ?len 7 (jmp_reg BPF_JGT R6 R3 (of_nat (4 + 2 * ?n)))"
    by (rule jump_forward) (use assms in simp_all)
  then have bound: "insn_jump_ok ?len (Suc (Suc (Suc (Suc (Suc (Suc (Suc 0)))))))
      (jmp_reg BPF_JGT R6 R3 (of_nat (4 + 2 * ?n)))"
    by (simp add: eval_nat_numeral)
  have loop_back: "insn_jump_ok ?len (Suc (Suc (Suc (8 + 2 * ?n)))) (jmp_imm BPF_JA R0 0 (- of_nat (2 * ?n + 9)))"
    using assms sint_neg_of_nat_16 [of "2 * ?n + 9"] by (intro insn_jump_ok_branch) simp_all
  have "jumps_ok ?len 8 (byte_checks 2 0 pattern)"
    by (rule jumps_ok_byte_checks) (use assms in simp_all)
  then have checks: "jumps_ok ?len (Suc (Suc (Suc (Suc (Suc (Suc (Suc (Suc 0)))))))) (byte_checks 2 0 pattern)"
    by (simp add: eval_nat_numeral)
  show ?thesis
    unfolding assert_jump_offsets_are_valid_def length_literal_program
    unfolding literal_program_def Let_def
    using bound loop_back checks by (simp add: eval_nat_numeral)
qed

text \<open>A program that ends in an exit, and whose jumps stay inside it.\<close>

definition well_formed_program :: "bpf_insn list \<Rightarrow> bool" where
  "well_formed_program prog \<longleftrightarrow>
     prog \<noteq> [] \<and> last prog = exit_insn \<and> assert_jump_offsets_are_valid prog \<and> length prog \<le> 4096"

lemma constant_program_well_formed: "well_formed_program [alu64_imm BPF_MOV R0 k, exit_insn]"
  by (simp add: well_formed_program_def assert_jump_offsets_are_valid_def)

lemma literal_filter_well_formed:
  assumes "length pattern \<le> 1024"
  shows "well_formed_program (literal_filter pattern)"
proof (cases "pattern = []")
  case False
  then have "literal_filter pattern = literal_program pattern"
    by (simp add: literal_filter_def)
  moreover have "last (literal_program pattern) = exit_insn" "literal_program pattern \<noteq> []"
    by (simp_all add: literal_program_def Let_def)
  ultimately show ?thesis
    using literal_program_jumps [OF assms] assms by (simp add: well_formed_program_def)
qed (simp add: well_formed_program_def literal_filter_def assert_jump_offsets_are_valid_def)

lemma class_program_well_formed:
  assumes "length rs \<le> 2046"
  shows "well_formed_program (class_program rs)"
proof -
  have "jumps_ok (Suc (Suc (Suc (Suc (2 * length rs))))) 0 (class_code rs)"
    by (rule jumps_ok_class_code) (use assms in simp_all)
  then show ?thesis
    using assms by (simp add: well_formed_program_def class_program_def assert_jump_offsets_are_valid_def)
qed

lemma alternation_program_well_formed:
  assumes "4 + alts_size as \<le> 4096"
  shows "well_formed_program (alternation_program as)"
proof -
  have "jumps_ok (Suc (Suc (Suc (Suc (alts_size as))))) 0 (alts_code True True True as)"
    by (rule jumps_ok_alts_code) (use assms in simp_all)
  then show ?thesis
    using assms by (simp add: well_formed_program_def alternation_program_def assert_jump_offsets_are_valid_def)
qed

lemma to_char_range_ordered: "list_all range_ordered rs \<Longrightarrow> \<not> (\<exists>r \<in> set (map to_char_range rs). lo r > hi r)"
proof (induction rs)
  case (Cons r rs)
  then show ?case by (cases r) auto
qed simp

lemma compile_character_class_eq:
  assumes "length class' < 2 ^ 61"
  shows "compile_character_class class' = Some
    (if class' = [] then Ok [alu64_imm BPF_MOV R0 0, exit_insn]
     else case parse_character_class class' of
       Inl e \<Rightarrow> Err e
     | Inr rs \<Rightarrow> if length rs \<le> 2046 then Ok (class_program (map to_char_range rs))
                else Err (PatternTooLong (of_nat (4 + 2 * length rs)) 4096))"
proof (cases "class' = []")
  case False
  show ?thesis
  proof (cases "parse_character_class class'")
    case (Inr rs)
    then have "length rs < 2 ^ 62" "rs \<noteq> []" "list_all range_ordered rs"
      using parse_character_class_count [OF Inr] parse_character_class_nonempty [OF Inr False]
        parse_character_class_ordered [OF Inr] assms by simp_all
    then show ?thesis
      using False Inr to_char_range_ordered [of rs] compile_char_class_eq [of "map to_char_range rs"]
      by (auto simp: compile_character_class_def)
  qed (simp add: compile_character_class_def False)
qed (simp add: compile_character_class_def)

lemma compiled_well_formed:
  "(length pattern < 2 ^ 62 \<longrightarrow> compile_literal_search pattern = Some (Ok prog) \<longrightarrow> well_formed_program prog)
   \<and> (length rs < 2 ^ 62 \<longrightarrow> compile_char_class rs = Some (Ok prog) \<longrightarrow> well_formed_program prog)
   \<and> (length cls < 2 ^ 61 \<longrightarrow> compile_character_class cls = Some (Ok prog) \<longrightarrow> well_formed_program prog)
   \<and> (alts_size as < 2 ^ 62 \<longrightarrow> compile_alternation as = Some (Ok prog) \<longrightarrow> well_formed_program prog)"
proof (intro conjI impI)
  assume "length pattern < 2 ^ 62" "compile_literal_search pattern = Some (Ok prog)"
  then show "well_formed_program prog"
    using compile_literal_search_small compile_literal_search_large [of pattern]
    by (cases "length pattern \<le> 1024") (auto simp: literal_filter_well_formed)
next
  assume "length rs < 2 ^ 62" "compile_char_class rs = Some (Ok prog)"
  then show "well_formed_program prog"
    by (auto simp: compile_char_class_eq class_program_well_formed split: if_splits)
next
  assume "length cls < 2 ^ 61" "compile_character_class cls = Some (Ok prog)"
  then show "well_formed_program prog"
    by (auto simp: compile_character_class_eq class_program_well_formed constant_program_well_formed
        split: if_splits sum.splits)
next
  assume "alts_size as < 2 ^ 62" "compile_alternation as = Some (Ok prog)"
  then show "well_formed_program prog"
    by (auto simp: compile_alternation_eq alternation_program_well_formed constant_program_well_formed
        split: if_splits)
qed

section \<open>Exact estimates\<close>

lemma literal_estimate:
  assumes "length pattern < 2 ^ 62" "compile_literal_search pattern = Some (Ok prog)"
  shows "literal_search_instruction_count (slice_len pattern) = slice_len prog"
proof -
  have len: "length pattern \<le> 1024"
    using assms compile_literal_search_large [of pattern] by (cases "length pattern \<le> 1024") auto
  then have prog: "prog = literal_filter pattern"
    using assms(2) by (simp add: compile_literal_search_small)
  show ?thesis
  proof (cases "pattern = []")
    case False
    then show ?thesis
      using word_of_unat [OF literal_count_unat [of pattern]] len by (simp add: prog slice_len_def literal_filter_def)
  qed (simp add: prog literal_search_instruction_count_def literal_filter_def slice_len_def)
qed

lemma char_class_estimate:
  assumes "length ranges < 2 ^ 62" "compile_char_class ranges = Some (Ok prog)"
  shows "4 + slice_len ranges * 2 = slice_len prog"
  using assms by (auto simp: compile_char_class_eq slice_len_def split: if_splits)

lemma character_class_estimate:
  assumes "length cls < 2 ^ 61" "parse_character_class cls = Ok rs" "compile_character_class cls = Some (Ok prog)"
  shows "estimate_character_class_instructions rs = slice_len prog"
proof (cases "cls = []")
  case True
  then show ?thesis
    using assms(2,3) by (auto simp: parse_character_class_def compile_character_class_def
        estimate_character_class_instructions_def slice_len_def)
next
  case False
  then show ?thesis
    using assms parse_character_class_nonempty [OF assms(2)]
    by (auto simp: compile_character_class_eq estimate_character_class_instructions_def slice_len_def split: if_splits)
qed

lemma alternation_estimate:
  assumes "alts_size as < 2 ^ 62" "compile_alternation as = Some (Ok prog)"
  shows "estimate_alternation_instructions as = slice_len prog"
proof (cases "as = [] \<or> [] \<in> set as")
  case True
  then show ?thesis
    using assms by (auto simp: compile_alternation_eq estimate_alternation_instructions_def slice_len_def split: if_splits)
next
  case False
  then have prog: "prog = alternation_program as"
    using assms by (simp add: compile_alternation_eq split: if_splits)
  have "unat (estimate_alternation_instructions as) = 4 + alts_size as"
    using assms(1) False by (intro estimate_alternation_unat) auto
  then show ?thesis
    unfolding prog slice_len_def length_alternation_program by (rule word_of_unat)
qed

section \<open>Properties\<close>

text \<open>
  C24: literal search on every pattern: up to 1024 bytes the backpatched program is the
  directly written \<open>literal_filter\<close>; a longer pattern is refused as too long, by its
  length up to 2041 bytes and by its instruction count beyond. There is no panic.
\<close>

theorem compile_literal_search_spec:
  assumes "length pattern < 2 ^ 62"
  shows "compile_literal_search pattern = Some
    (if length pattern \<le> 1024 then Ok (literal_filter pattern)
     else if length pattern \<le> 2041 then Err (PatternTooLong (of_nat (length pattern)) 1024)
     else Err (PatternTooLong (of_nat (14 + 2 * length pattern)) 4096))"
proof (cases "length pattern \<le> 1024")
  case True
  then show ?thesis by (simp add: compile_literal_search_small)
next
  case False
  then show ?thesis
    using compile_literal_search_large [OF _ assms] by (simp add: slice_len_def)
qed

theorem compile_literal_search_spec_witness:
  "compile_literal_search [0x41, 0x5A] = Some (Ok (literal_filter [0x41, 0x5A]))"
  using compile_literal_search_spec [of "[0x41, 0x5A]"] by simp

text \<open>
  C26: character classes given as ranges: the emitted and patched program is the directly
  written one, and the three rejections (no range, reversed endpoints, too many ranges) are
  the only other results; there is no panic.
\<close>

theorem compile_char_class_spec:
  assumes "length rs < 2 ^ 62"
  shows "compile_char_class rs = Some
    (if rs = [] then Err (InvalidPattern ''character class must have at least one range'')
     else if \<exists>r \<in> set rs. lo r > hi r then Err (InvalidPattern ''character class range endpoints are reversed'')
     else if length rs \<le> 2046 then Ok (class_program rs)
     else Err (PatternTooLong (of_nat (4 + 2 * length rs)) 4096))"
  using assms by (rule compile_char_class_eq)

theorem compile_char_class_spec_witness:
  "compile_char_class [\<lparr>lo = 10, hi = 20\<rparr>, \<lparr>lo = 30, hi = 40\<rparr>]
     = Some (Ok (class_program [\<lparr>lo = 10, hi = 20\<rparr>, \<lparr>lo = 30, hi = 40\<rparr>]))"
  using compile_char_class_spec [of "[\<lparr>lo = 10, hi = 20\<rparr>, \<lparr>lo = 30, hi = 40\<rparr>]"] by simp

text \<open>
  C25: alternations: no alternative never matches, an empty alternative always does, and
  otherwise the three backpatching passes produce the directly written program unless it
  would exceed 4096 instructions; there is no panic.
\<close>

theorem compile_alternation_spec:
  assumes "alts_size as < 2 ^ 62"
  shows "compile_alternation as = Some
    (if as = [] then Ok [alu64_imm BPF_MOV R0 0, exit_insn]
     else if [] \<in> set as then Ok [alu64_imm BPF_MOV R0 1, exit_insn]
     else if 4 + alts_size as \<le> 4096 then Ok (alternation_program as)
     else Err (PatternTooLong (of_nat (4 + alts_size as)) 4096))"
  using assms by (rule compile_alternation_eq)

theorem compile_alternation_spec_witness:
  "compile_alternation [[0x61, 0x62], [0x63]] = Some (Ok (alternation_program [[0x61, 0x62], [0x63]]))"
  using compile_alternation_spec [of "[[0x61, 0x62], [0x63]]"] by simp

text \<open>
  C29: every program any of the four entry points returns ends in an exit, has only jumps
  to instructions of its own and at most 4096 instructions.
\<close>

theorem compiled_programs_well_formed:
  "(length pattern < 2 ^ 62 \<longrightarrow> compile_literal_search pattern = Some (Ok prog) \<longrightarrow> well_formed_program prog)
   \<and> (length rs < 2 ^ 62 \<longrightarrow> compile_char_class rs = Some (Ok prog) \<longrightarrow> well_formed_program prog)
   \<and> (length cls < 2 ^ 61 \<longrightarrow> compile_character_class cls = Some (Ok prog) \<longrightarrow> well_formed_program prog)
   \<and> (alts_size as < 2 ^ 62 \<longrightarrow> compile_alternation as = Some (Ok prog) \<longrightarrow> well_formed_program prog)"
  by (rule compiled_well_formed)

theorem compiled_programs_well_formed_witness:
  "compile_literal_search [] = Some (Ok (literal_filter [])) \<and> well_formed_program (literal_filter [])"
  using compiled_programs_well_formed [of "[]" "literal_filter []"] compile_literal_search_small [of "[]"]
  by simp

text \<open>
  C37: the instruction counts that the compile functions use for the limit check and the buffer capacity are exact:
  whenever one of the four returns a program, the estimate for its input is the length of that program.
\<close>

theorem estimates_exact:
  "(length pattern < 2 ^ 62 \<and> compile_literal_search pattern = Some (Ok prog) \<longrightarrow>
      literal_search_instruction_count (slice_len pattern) = slice_len prog)
   \<and> (length ranges < 2 ^ 62 \<and> compile_char_class ranges = Some (Ok prog) \<longrightarrow> 4 + slice_len ranges * 2 = slice_len prog)
   \<and> (length cls < 2 ^ 61 \<and> parse_character_class cls = Ok rs \<and> compile_character_class cls = Some (Ok prog) \<longrightarrow>
      estimate_character_class_instructions rs = slice_len prog)
   \<and> (alts_size as < 2 ^ 62 \<and> compile_alternation as = Some (Ok prog) \<longrightarrow>
      estimate_alternation_instructions as = slice_len prog)"
  using literal_estimate char_class_estimate character_class_estimate alternation_estimate by blast

theorem estimates_exact_witness:
  "literal_search_instruction_count (slice_len [0x41 :: u8]) = slice_len (literal_filter [0x41])
   \<and> estimate_alternation_instructions [[0x61]] = slice_len (alternation_program [[0x61]])"
  using estimates_exact [of "[0x41]" "literal_filter [0x41]"] estimates_exact [where as = "[[0x61]]" and prog = "alternation_program [[0x61]]"]
  by (simp add: compile_literal_search_small compile_alternation_eq)

end
