(* ===== verification/Machine.thy ===== *)
theory Machine
  imports Assembler
begin

text \<open>
  Running a compiled program. The eBPF machine itself is the kernel's, so it appears as a
  parameter: a step function on an instruction and a register state, about which the
  locales below assume the documented effect (RFC 9669, and the mnemonics the crate's own
  \<open>Display\<close> prints) of exactly the opcodes the compiler emits. \<open>isa_class\<close> is the part a
  character-class program needs; \<open>isa_filter\<close> extends it with loads, moves, additions and
  the jumps of the literal and alternation programs. The interpreter that the test-suite
  runs on compiled classes (\<open>tests/unit/compiler.rs\<close>) is modelled here and is an instance of
  \<open>isa_class\<close>; \<open>bpf_step\<close> is an instance of \<open>isa_filter\<close> for any memory.
\<close>

unbundle bit_operations_syntax

section \<open>States and runs\<close>

record bpf_state =
  pc :: int
  rf :: "u8 \<Rightarrow> u64"

datatype outcome = Continue bpf_state | Exited u64 | Fault

text \<open>Steps are counted by fuel; \<open>None\<close> is "still running". Leaving the program is a fault.\<close>

fun bpf_run :: "(bpf_insn \<Rightarrow> bpf_state \<Rightarrow> outcome) \<Rightarrow> bpf_insn list \<Rightarrow> nat \<Rightarrow> bpf_state \<Rightarrow> outcome option" where
  "bpf_run step prog 0 s = None"
| "bpf_run step prog (Suc n) s =
     (if 0 \<le> pc s \<and> nat (pc s) < length prog then
        (case step (prog ! nat (pc s)) s of
           Continue s' \<Rightarrow> bpf_run step prog n s'
         | Exited v \<Rightarrow> Some (Exited v)
         | Fault \<Rightarrow> Some Fault)
      else Some Fault)"

definition set_reg :: "u8 \<Rightarrow> u64 \<Rightarrow> bpf_state \<Rightarrow> bpf_state" where
  "set_reg r v s = s\<lparr>rf := (rf s)(r := v), pc := pc s + 1\<rparr>"

definition jump_if :: "bool \<Rightarrow> bpf_insn \<Rightarrow> bpf_state \<Rightarrow> bpf_state" where
  "jump_if c i s = s\<lparr>pc := pc s + 1 + (if c then sint (off i) else 0)\<rparr>"

definition load_reg :: "u8 \<Rightarrow> u64 option \<Rightarrow> bpf_state \<Rightarrow> outcome" where
  "load_reg r v s = (case v of None \<Rightarrow> Fault | Some x \<Rightarrow> Continue (set_reg r x s))"

text \<open>The address of a memory operand.\<close>

definition operand_addr :: "bpf_insn \<Rightarrow> bpf_state \<Rightarrow> u64" where
  "operand_addr i s = rf s (src_reg i) + scast (off i)"

section \<open>The test-suite's interpreter\<close>

definition char_class_step :: "bpf_insn \<Rightarrow> bpf_state \<Rightarrow> outcome" where
  "char_class_step insn s =
     (let dst = regs insn AND 0x0F in
      if code insn = BPF_ALU64 OR BPF_MOV OR BPF_K then Continue (set_reg dst (ucast (imm insn)) s)
      else if code insn = BPF_JMP OR BPF_JLT OR BPF_K then
        Continue (jump_if (rf s dst < ucast (imm insn)) insn s)
      else if code insn = BPF_JMP OR BPF_JLE OR BPF_K then
        Continue (jump_if (rf s dst \<le> ucast (imm insn)) insn s)
      else if code insn = BPF_JMP OR BPF_EXIT then Exited (rf s 0)
      else Fault)"

text \<open>
  Ten thousand steps at most; \<open>None\<close> stands for the three panics (program counter out of
  bounds, unsupported opcode, no termination).
\<close>

definition run_char_class :: "bpf_insn list \<Rightarrow> u8 \<Rightarrow> u64 option" where
  "run_char_class prog input =
     (case bpf_run char_class_step prog 10000 \<lparr>pc = 0, rf = (\<lambda>_. 0)(7 := ucast input)\<rparr> of
        Some (Exited v) \<Rightarrow> Some v
      | _ \<Rightarrow> None)"

section \<open>Assumptions on the machine\<close>

locale isa_class =
  fixes step :: "bpf_insn \<Rightarrow> bpf_state \<Rightarrow> outcome"
  assumes mov_k: "code i = BPF_ALU64 OR BPF_MOV OR BPF_K \<Longrightarrow> dst_reg i \<le> R9 \<Longrightarrow> 0 \<le> sint (imm i) \<Longrightarrow>
      step i s = Continue (set_reg (dst_reg i) (ucast (imm i)) s)"
    and jlt_k: "code i = BPF_JMP OR BPF_JLT OR BPF_K \<Longrightarrow> 0 \<le> sint (imm i) \<Longrightarrow>
      step i s = Continue (jump_if (rf s (dst_reg i) < ucast (imm i)) i s)"
    and jle_k: "code i = BPF_JMP OR BPF_JLE OR BPF_K \<Longrightarrow> 0 \<le> sint (imm i) \<Longrightarrow>
      step i s = Continue (jump_if (rf s (dst_reg i) \<le> ucast (imm i)) i s)"
    and exit': "code i = BPF_JMP OR BPF_EXIT \<Longrightarrow> step i s = Exited (rf s R0)"

locale isa_filter = isa_class step
  for step :: "bpf_insn \<Rightarrow> bpf_state \<Rightarrow> outcome" +
  fixes ld8 :: "u64 \<Rightarrow> u8 option" and ld32 :: "u64 \<Rightarrow> u64 option"
  assumes mov_x: "code i = BPF_ALU64 OR BPF_MOV OR BPF_X \<Longrightarrow> dst_reg i \<le> R9 \<Longrightarrow>
      step i s = Continue (set_reg (dst_reg i) (rf s (src_reg i)) s)"
    and add_k: "code i = BPF_ALU64 OR BPF_ADD OR BPF_K \<Longrightarrow> dst_reg i \<le> R9 \<Longrightarrow> 0 \<le> sint (imm i) \<Longrightarrow>
      step i s = Continue (set_reg (dst_reg i) (rf s (dst_reg i) + ucast (imm i)) s)"
    and add_x: "code i = BPF_ALU64 OR BPF_ADD OR BPF_X \<Longrightarrow> dst_reg i \<le> R9 \<Longrightarrow>
      step i s = Continue (set_reg (dst_reg i) (rf s (dst_reg i) + rf s (src_reg i)) s)"
    and ldx_b: "code i = BPF_LDX OR BPF_MEM OR BPF_B \<Longrightarrow> dst_reg i \<le> R9 \<Longrightarrow>
      step i s = load_reg (dst_reg i) (map_option ucast (ld8 (operand_addr i s))) s"
    and ldx_w: "code i = BPF_LDX OR BPF_MEM OR BPF_W \<Longrightarrow> dst_reg i \<le> R9 \<Longrightarrow>
      step i s = load_reg (dst_reg i) (ld32 (operand_addr i s)) s"
    and jne_k: "code i = BPF_JMP OR BPF_JNE OR BPF_K \<Longrightarrow> 0 \<le> sint (imm i) \<Longrightarrow>
      step i s = Continue (jump_if (rf s (dst_reg i) \<noteq> ucast (imm i)) i s)"
    and jgt_x: "code i = BPF_JMP OR BPF_JGT OR BPF_X \<Longrightarrow>
      step i s = Continue (jump_if (rf s (dst_reg i) > rf s (src_reg i)) i s)"
    and ja: "code i = BPF_JMP OR BPF_JA \<Longrightarrow> step i s = Continue (jump_if True i s)"

text \<open>
  An executable machine with this instruction set. Immediates are sign-extended to 64
  bits, as the standard prescribes.
\<close>

definition bpf_step :: "(u64 \<Rightarrow> u8 option) \<Rightarrow> (u64 \<Rightarrow> u64 option) \<Rightarrow> bpf_insn \<Rightarrow> bpf_state \<Rightarrow> outcome" where
  "bpf_step ld8 ld32 i s =
     (let d = rf s (dst_reg i); x = rf s (src_reg i); k = (scast (imm i) :: u64);
          to_dst = (\<lambda>v. if dst_reg i \<le> R9 then Continue (set_reg (dst_reg i) v s) else Fault);
          load = (\<lambda>v. if dst_reg i \<le> R9 then load_reg (dst_reg i) v s else Fault);
          branch = (\<lambda>c. Continue (jump_if c i s)) in
      if code i = BPF_JMP OR BPF_EXIT then Exited (rf s R0)
      else if code i = BPF_LDX OR BPF_MEM OR BPF_B then load (map_option ucast (ld8 (operand_addr i s)))
      else if code i = BPF_LDX OR BPF_MEM OR BPF_W then load (ld32 (operand_addr i s))
      else if code i = BPF_ALU64 OR BPF_MOV OR BPF_K then to_dst k
      else if code i = BPF_ALU64 OR BPF_MOV OR BPF_X then to_dst x
      else if code i = BPF_ALU64 OR BPF_ADD OR BPF_K then to_dst (d + k)
      else if code i = BPF_ALU64 OR BPF_ADD OR BPF_X then to_dst (d + x)
      else if code i = BPF_JMP OR BPF_JA then branch True
      else if code i = BPF_JMP OR BPF_JEQ OR BPF_K then branch (d = k)
      else if code i = BPF_JMP OR BPF_JNE OR BPF_K then branch (d \<noteq> k)
      else if code i = BPF_JMP OR BPF_JGT OR BPF_X then branch (d > x)
      else if code i = BPF_JMP OR BPF_JLT OR BPF_K then branch (d < k)
      else if code i = BPF_JMP OR BPF_JLE OR BPF_K then branch (d \<le> k)
      else Fault)"

section \<open>Instances\<close>

interpretation test_vm: isa_class char_class_step
  by unfold_locales (simp_all add: char_class_step_def bpf_opcodes dst_reg_def)

interpretation bpf_vm: isa_filter "bpf_step ld8 ld32" ld8 ld32 for ld8 ld32
  by unfold_locales (simp_all add: bpf_step_def bpf_opcodes scast_nonneg Let_def)

section \<open>Reaching a state\<close>

definition reach :: "(bpf_insn \<Rightarrow> bpf_state \<Rightarrow> outcome) \<Rightarrow> bpf_insn list \<Rightarrow> nat \<Rightarrow> bpf_state \<Rightarrow> bpf_state \<Rightarrow> bool" where
  "reach step prog k s s' \<longleftrightarrow> (\<forall>f. bpf_run step prog (k + f) s = bpf_run step prog f s')"

lemma reach_refl [simp]: "reach step prog 0 s s"
  by (simp add: reach_def)

lemma reach_trans: "reach step prog j s t \<Longrightarrow> reach step prog k t u \<Longrightarrow> reach step prog (j + k) s u"
  by (simp add: reach_def add.assoc)

lemma reach_step:
  assumes "pc s = int k" "k < length prog" "step (prog ! k) s = Continue s'" "reach step prog n s' t"
  shows "reach step prog (Suc n) s t"
  using assms by (simp add: reach_def)

lemma reach_one:
  "pc s = int k \<Longrightarrow> k < length prog \<Longrightarrow> step (prog ! k) s = Continue t \<Longrightarrow> reach step prog (Suc 0) s t"
  by (rule reach_step [OF _ _ _ reach_refl])

lemma reach_exit:
  assumes "reach step prog n s t" "pc t = int k" "k < length prog" "step (prog ! k) t = Exited v" "n < f"
  shows "bpf_run step prog f s = Some (Exited v)"
proof -
  from \<open>n < f\<close> obtain g where f: "f = n + Suc g"
    using less_imp_add_positive by (metis Suc_pred)
  have "bpf_run step prog f s = bpf_run step prog (Suc g) t"
    using assms(1) by (simp only: reach_def f)
  with assms show ?thesis by simp
qed

end
