(* ===== verification/Class_Semantics.thy ===== *)
theory Class_Semantics
  imports Layout Machine
begin

text \<open>
  What compiled character classes compute, on any machine with the instruction set of
  \<open>isa_class\<close> and in particular on the interpreter of the test-suite: the program exits with
  1 exactly on the bytes of the class and with 0 on every other byte.
\<close>

unbundle bit_operations_syntax

section \<open>Fetching\<close>

lemma nth_class_code:
  "i < length rs \<Longrightarrow> class_code rs ! (2 * i) = jmp_imm BPF_JLT R7 (ucast (lo (rs ! i))) 1"
  "i < length rs \<Longrightarrow> class_code rs ! Suc (2 * i)
     = jmp_imm BPF_JLE R7 (ucast (hi (rs ! i))) (of_nat (2 * (length rs - Suc i) + 2))"
proof (induction rs arbitrary: i)
  case (Cons r rs)
  { case 1 then show ?case using Cons.IH(1) [of "i - 1"] by (cases i) auto }
  { case 2 then show ?case using Cons.IH(2) [of "i - 1"] by (cases i) auto }
qed simp_all

lemma nth_class_program:
  assumes "i < length rs"
  shows "class_program rs ! (2 * i) = jmp_imm BPF_JLT R7 (ucast (lo (rs ! i))) 1"
    and "class_program rs ! Suc (2 * i)
      = jmp_imm BPF_JLE R7 (ucast (hi (rs ! i))) (of_nat (2 * (length rs - Suc i) + 2))"
  using assms nth_class_code [OF assms] by (simp_all add: class_program_def nth_append)

lemma class_program_tail:
  "class_program rs ! (2 * length rs) = alu64_imm BPF_MOV R0 0"
  "class_program rs ! Suc (2 * length rs) = exit_insn"
  "class_program rs ! Suc (Suc (2 * length rs)) = alu64_imm BPF_MOV R0 1"
  "class_program rs ! Suc (Suc (Suc (2 * length rs))) = exit_insn"
  by (simp_all add: class_program_def nth_append)

section \<open>Execution\<close>

definition in_ranges :: "char_range list \<Rightarrow> u8 \<Rightarrow> bool" where
  "in_ranges rs b \<longleftrightarrow> (\<exists>r \<in> set rs. lo r \<le> b \<and> b \<le> hi r)"

context isa_class
begin

lemma step_mov_R0: "0 \<le> sint k \<Longrightarrow> step (alu64_imm BPF_MOV R0 k) s = Continue (set_reg R0 (ucast k) s)"
  using mov_k [of "alu64_imm BPF_MOV R0 k"] by (simp add: alu64_imm_def bpf_opcodes)

lemma step_exit: "step exit_insn s = Exited (rf s R0)"
  by (rule exit') (simp add: exit_insn_def)

lemma step_jlt_R7: "step (jmp_imm BPF_JLT R7 (ucast (b :: u8)) f) s
    = Continue (s\<lparr>pc := pc s + 1 + (if rf s R7 < ucast (ucast b :: i32) then sint f else 0)\<rparr>)"
  using jlt_k [of "jmp_imm BPF_JLT R7 (ucast b) f"] sint_ucast_u8 [of b]
  by (simp add: jmp_imm_def bpf_opcodes jump_if_def)

lemma step_jle_R7: "step (jmp_imm BPF_JLE R7 (ucast (b :: u8)) f) s
    = Continue (s\<lparr>pc := pc s + 1 + (if rf s R7 \<le> ucast (ucast b :: i32) then sint f else 0)\<rparr>)"
  using jle_k [of "jmp_imm BPF_JLE R7 (ucast b) f"] sint_ucast_u8 [of b]
  by (simp add: jmp_imm_def bpf_opcodes jump_if_def)

lemma class_test:
  assumes "length rs \<le> 2046" "rf s R7 = ucast b" "i < length rs" "pc s = int (2 * i)"
  shows "\<exists>k \<le> 2. reach step (class_program rs) k s
    (s\<lparr>pc := int (if lo (rs ! i) \<le> b \<and> b \<le> hi (rs ! i) then 2 * length rs + 2 else 2 * Suc i)\<rparr>)"
proof -
  let ?prog = "class_program rs" and ?r = "rs ! i"
  have jlt: "step (?prog ! (2 * i)) s = Continue (s\<lparr>pc := int (if b < lo ?r then 2 * Suc i else Suc (2 * i))\<rparr>)"
    using assms by (simp add: nth_class_program step_jlt_R7 ucast_u8_compare)
  show ?thesis
  proof (cases "b < lo ?r")
    case True
    then have "reach step ?prog (Suc 0) s (s\<lparr>pc := int (2 * Suc i)\<rparr>)"
      by (intro reach_one [where k = "2 * i"]) (use assms jlt in simp_all)
    with True show ?thesis by (intro exI [of _ "Suc 0"]) auto
  next
    case False
    let ?t = "s\<lparr>pc := int (if b \<le> hi ?r then 2 * length rs + 2 else 2 * Suc i)\<rparr>"
    have "sint (of_nat (2 * (length rs - Suc i) + 2) :: i16) = int (2 * (length rs - Suc i) + 2)"
      by (rule sint_of_nat_16) (use assms in simp)
    then have jle: "step (?prog ! Suc (2 * i)) (s\<lparr>pc := int (Suc (2 * i))\<rparr>) = Continue ?t"
      using assms by (simp add: nth_class_program step_jle_R7 ucast_u8_compare)
    have second: "reach step ?prog (Suc 0) (s\<lparr>pc := int (Suc (2 * i))\<rparr>) ?t"
      by (rule reach_one [where k = "Suc (2 * i)"]) (use assms jle in simp_all)
    have "reach step ?prog (Suc 0) s (s\<lparr>pc := int (Suc (2 * i))\<rparr>)"
      by (rule reach_one [where k = "2 * i"]) (use assms jlt False in simp_all)
    from reach_trans [OF this second] False show ?thesis
      by (intro exI [of _ "Suc 0 + Suc 0"]) (simp add: not_less)
  qed
qed

lemma class_scan:
  assumes "length rs \<le> 2046" "rf s R7 = ucast b" "i \<le> length rs" "pc s = int (2 * i)"
  shows "\<exists>k \<le> 2 * (length rs - i). reach step (class_program rs) k s
    (s\<lparr>pc := int (if in_ranges (drop i rs) b then 2 * length rs + 2 else 2 * length rs)\<rparr>)"
  using assms(2-4)
proof (induction "length rs - i" arbitrary: i s)
  case 0
  then have "s\<lparr>pc := int (if in_ranges (drop i rs) b then 2 * length rs + 2 else 2 * length rs)\<rparr> = s"
    by (simp add: in_ranges_def)
  then show ?case by auto
next
  case (Suc m)
  let ?prog = "class_program rs" and ?hit = "lo (rs ! i) \<le> b \<and> b \<le> hi (rs ! i)"
  let ?fin = "\<lambda>i. s\<lparr>pc := int (if in_ranges (drop i rs) b then 2 * length rs + 2 else 2 * length rs)\<rparr>"
  have i: "i < length rs" and m: "m = length rs - Suc i"
    using Suc.hyps(2) by auto
  have member: "in_ranges (drop i rs) b \<longleftrightarrow> ?hit \<or> in_ranges (drop (Suc i) rs) b"
    using i by (simp add: Cons_nth_drop_Suc [symmetric] in_ranges_def)
  obtain k where k: "k \<le> 2"
    "reach step ?prog k s (s\<lparr>pc := int (if ?hit then 2 * length rs + 2 else 2 * Suc i)\<rparr>)"
    using class_test [OF assms(1) Suc.prems(1) i Suc.prems(3)] by blast
  show ?case
  proof (cases ?hit)
    case True
    with k member m Suc.hyps(2) show ?thesis by (intro exI [of _ k]) simp
  next
    case False
    have "\<exists>k' \<le> 2 * m. reach step ?prog k' (s\<lparr>pc := int (2 * Suc i)\<rparr>) (?fin (Suc i))"
      using Suc.hyps(1) [OF m, of "s\<lparr>pc := int (2 * Suc i)\<rparr>"] Suc.prems i m by simp
    then obtain k' where k': "k' \<le> 2 * m" "reach step ?prog k' (s\<lparr>pc := int (2 * Suc i)\<rparr>) (?fin (Suc i))"
      by blast
    have "reach step ?prog (k + k') s (?fin (Suc i))"
      by (rule reach_trans [OF _ k'(2)]) (use k False in simp)
    moreover have "?fin (Suc i) = ?fin i"
      using False member by simp
    ultimately show ?thesis
      using k k' Suc.hyps(2) by (intro exI [of _ "k + k'"]) simp
  qed
qed

lemma class_program_exits:
  assumes "length rs \<le> 2046" "rf s R7 = ucast b" "pc s = 0" "2 * length rs + 2 \<le> fuel"
  shows "bpf_run step (class_program rs) fuel s = Some (Exited (if in_ranges rs b then 1 else 0))"
proof -
  let ?prog = "class_program rs" and ?v = "(if in_ranges rs b then 1 else 0) :: u64"
  define l where "l = (if in_ranges rs b then 2 * length rs + 2 else 2 * length rs)"
  obtain k where k: "k \<le> 2 * length rs" "reach step ?prog k s (s\<lparr>pc := int l\<rparr>)"
    using class_scan [OF assms(1,2), of 0] assms(3) by (auto simp: l_def)
  let ?t = "set_reg R0 ?v (s\<lparr>pc := int l\<rparr>)"
  have "step (?prog ! l) (s\<lparr>pc := int l\<rparr>) = Continue ?t"
    by (simp add: l_def class_program_tail step_mov_R0)
  then have "reach step ?prog (Suc 0) (s\<lparr>pc := int l\<rparr>) ?t"
    by (intro reach_one [where k = l]) (simp_all add: l_def)
  with k(2) have "reach step ?prog (k + Suc 0) s ?t"
    by (rule reach_trans)
  then show ?thesis
  proof (rule reach_exit [where k = "Suc l"])
    show "step (?prog ! Suc l) ?t = Exited ?v"
      by (simp add: l_def class_program_tail step_exit set_reg_def)
  qed (use k assms in \<open>simp_all add: l_def set_reg_def\<close>)
qed

end

section \<open>On the test-suite's interpreter\<close>

lemma run_class_program:
  assumes "length rs \<le> 2046"
  shows "run_char_class (class_program rs) b = Some (if in_ranges rs b then 1 else 0)"
proof -
  have "bpf_run char_class_step (class_program rs) 10000 \<lparr>pc = 0, rf = (\<lambda>_. 0)(7 := ucast b)\<rparr>
      = Some (Exited (if in_ranges rs b then 1 else 0))"
    by (rule test_vm.class_program_exits) (use assms in \<open>simp_all add: R7_def\<close>)
  then show ?thesis by (simp add: run_char_class_def)
qed

lemma run_reject_all: "run_char_class [alu64_imm BPF_MOV R0 0, exit_insn] b = Some 0"
proof -
  have "bpf_run char_class_step [alu64_imm BPF_MOV R0 0, exit_insn] (Suc (Suc n)) \<lparr>pc = 0, rf = r\<rparr> = Some (Exited 0)"
    for n r by (simp add: test_vm.step_mov_R0 test_vm.step_exit set_reg_def)
  from this [of 9998] show ?thesis by (simp add: run_char_class_def numeral_eq_Suc)
qed

lemma in_ranges_to_char_range: "in_ranges (map to_char_range rs) b \<longleftrightarrow> (\<exists>r \<in> set rs. range_member b r)"
proof (induction rs)
  case (Cons r rs)
  then show ?case by (cases r) (auto simp: in_ranges_def)
qed (simp add: in_ranges_def)

lemma length_class_text: "length (class_text rs) \<le> 5 * length rs"
proof (induction rs)
  case (Cons r rs)
  then show ?case by (cases r) (auto simp: class_text_def class_byte_text_def)
qed (simp add: class_text_def)

lemma class_text_empty: "class_text rs = [] \<longleftrightarrow> rs = []"
proof (cases rs)
  case (Cons r rs')
  then show ?thesis by (cases r) (simp_all add: class_text_def class_byte_text_def)
qed (simp add: class_text_def)

lemma class_text_compiles:
  assumes "parse_character_class cls = Ok rs" "cls \<noteq> []" "length cls < 2 ^ 61" "length rs \<le> 2046"
    and "\<And>b. (\<exists>r \<in> set rs. range_member b r) \<longleftrightarrow> P b"
  shows "\<exists>prog. compile_character_class cls = Some (Ok prog) \<and> (\<forall>b. run_char_class prog b = Some (if P b then 1 else 0))"
  using assms by (simp add: compile_character_class_eq run_class_program in_ranges_to_char_range)

section \<open>Properties\<close>

text \<open>
  C11: a compiled class decides membership on every machine that implements the moves,
  comparisons and exit of the instruction set: started with the byte in R7, within
  two instructions per range and two more, the program exits with 1 when the byte lies in
  one of the ranges and with 0 when it lies in none.
\<close>

theorem char_class_decides:
  assumes "isa_class step" and "length rs < 2 ^ 62" and "compile_char_class rs = Some (Ok prog)"
    and "pc s = 0" and "rf s R7 = ucast b" and "2 * length rs + 2 \<le> fuel"
  shows "bpf_run step prog fuel s = Some (Exited (if \<exists>r \<in> set rs. lo r \<le> b \<and> b \<le> hi r then 1 else 0))"
proof -
  have "prog = class_program rs" "length rs \<le> 2046"
    using assms(2,3) by (auto simp: compile_char_class_eq split: if_splits)
  then show ?thesis
    using isa_class.class_program_exits [OF assms(1) _ assms(5,4,6)] by (simp add: in_ranges_def)
qed

theorem char_class_decides_witness:
  "bpf_run (bpf_step (\<lambda>_. None) (\<lambda>_. None)) (class_program [\<lparr>lo = 0x30, hi = 0x39\<rparr>]) 4
     \<lparr>pc = 0, rf = (\<lambda>_. 0)(7 := 0x35)\<rparr> = Some (Exited 1)"
  using char_class_decides [where step = "bpf_step (\<lambda>_. None) (\<lambda>_. None)" and rs = "[\<lparr>lo = 0x30, hi = 0x39\<rparr>]"
      and prog = "class_program [\<lparr>lo = 0x30, hi = 0x39\<rparr>]" and s = "\<lparr>pc = 0, rf = (\<lambda>_. 0)(7 := 0x35)\<rparr>"
      and b = "0x35" and fuel = 4]
  by (simp add: bpf_vm.isa_class_axioms compile_char_class_eq R7_def)

text \<open>
  From class text to verdict: what \<open>compile_character_class\<close> returns for a text, run on
  the interpreter of the test-suite, terminates without panic for every byte and answers 1
  exactly on the members of the ranges the text was parsed to (none for the empty text).
\<close>

theorem character_class_text_decides:
  assumes "length cls < 2 ^ 61" and "compile_character_class cls = Some (Ok prog)"
  shows "\<exists>rs. parse_character_class cls = Ok rs
    \<and> (\<forall>b. run_char_class prog b = Some (if \<exists>r \<in> set rs. range_member b r then 1 else 0))"
proof (cases "cls = []")
  case True
  have "prog = [alu64_imm BPF_MOV R0 0, exit_insn]"
    using assms(2) True by (simp add: compile_character_class_def)
  moreover have "parse_character_class [] = Ok []"
    by (simp add: parse_character_class_def)
  ultimately show ?thesis
    using True by (intro exI [of _ "[]"]) (simp add: run_reject_all)
next
  case False
  then obtain rs where "parse_character_class cls = Ok rs" "length rs \<le> 2046"
    "prog = class_program (map to_char_range rs)"
    using assms by (auto simp: compile_character_class_eq split: sum.splits if_splits)
  then show ?thesis
    by (intro exI [of _ rs]) (simp add: run_class_program in_ranges_to_char_range)
qed

theorem character_class_text_decides_witness:
  "\<exists>rs. parse_character_class [0x61, 0x2D, 0x7A] = Ok rs
    \<and> (\<forall>b. run_char_class (class_program [\<lparr>lo = 0x61, hi = 0x7A\<rparr>]) b
          = Some (if \<exists>r \<in> set rs. range_member b r then 1 else 0))"
proof (rule character_class_text_decides)
  have "parse_character_class [0x61, 0x2D, 0x7A] = Ok [Span 0x61 0x7A]"
    by (simp add: parse_character_class_def)
  then show "compile_character_class [0x61, 0x2D, 0x7A] = Some (Ok (class_program [\<lparr>lo = 0x61, hi = 0x7A\<rparr>]))"
    by (simp add: compile_character_class_eq)
qed simp

text \<open>
  Completeness: for any at most 2046 ordered ASCII ranges, the canonical class text is
  accepted and the resulting program answers 1 on exactly the bytes of those ranges.
\<close>

theorem canonical_class_compiles:
  assumes "list_all range_ordered rs" "\<forall>r \<in> set rs. \<forall>b \<in> set (range_bytes r). b < 0x80" "length rs \<le> 2046"
  shows "\<exists>prog. compile_character_class (class_text rs) = Some (Ok prog)
    \<and> (\<forall>b. run_char_class prog b = Some (if \<exists>r \<in> set rs. range_member b r then 1 else 0))"
proof (cases "rs = []")
  case True
  then show ?thesis
    by (auto simp: compile_character_class_def class_text_def run_reject_all)
next
  case False
  have "length (class_text rs) < 2 ^ 61"
    using length_class_text [of rs] assms(3) by simp
  then have "compile_character_class (class_text rs) = Some (Ok (class_program (map to_char_range rs)))"
    using False assms by (simp add: compile_character_class_eq parse_class_text class_text_empty)
  then show ?thesis
    using assms(3) by (simp add: run_class_program in_ranges_to_char_range)
qed

theorem canonical_class_compiles_witness:
  "\<exists>prog. compile_character_class (class_text [Span 0x30 0x39, Single 0x2D]) = Some (Ok prog)
    \<and> (\<forall>b. run_char_class prog b
          = Some (if \<exists>r \<in> set [Span 0x30 0x39, Single 0x2D]. range_member b r then 1 else 0))"
  by (rule canonical_class_compiles) simp_all

text \<open>
  The class escapes mean what their names say: \<open>\d\<close>, \<open>\s\<close> and \<open>\w\<close> compile to programs that
  accept exactly the ASCII digits, the ASCII white space (tab to carriage return, and the
  space) and the word characters; their negations are refused.
\<close>

theorem class_escapes_decide:
  "(\<exists>prog. compile_character_class [0x5C, byte (CHR ''d'')] = Some (Ok prog)
      \<and> (\<forall>b. run_char_class prog b = Some (if 0x30 \<le> b \<and> b \<le> 0x39 then 1 else 0)))
   \<and> (\<exists>prog. compile_character_class [0x5C, byte (CHR ''s'')] = Some (Ok prog)
      \<and> (\<forall>b. run_char_class prog b = Some (if 9 \<le> b \<and> b \<le> 13 \<or> b = 0x20 then 1 else 0)))
   \<and> (\<exists>prog. compile_character_class [0x5C, byte (CHR ''w'')] = Some (Ok prog)
      \<and> (\<forall>b. run_char_class prog b = Some (if 0x61 \<le> b \<and> b \<le> 0x7A \<or> 0x41 \<le> b \<and> b \<le> 0x5A
            \<or> 0x30 \<le> b \<and> b \<le> 0x39 \<or> b = 0x5F then 1 else 0)))
   \<and> list_all (\<lambda>c. compile_character_class [0x5C, byte c]
        = Some (Err (InvalidPattern ''negated character-class escapes are not supported''))) ''DSW''"
proof (intro conjI)
  note parse = parse_character_class_def decode_character_class_escape_def
  have d: "parse_character_class [0x5C, byte (CHR ''d'')] = Ok [Span 0x30 0x39]"
    by (simp add: parse)
  show "\<exists>prog. compile_character_class [0x5C, byte (CHR ''d'')] = Some (Ok prog)
      \<and> (\<forall>b. run_char_class prog b = Some (if 0x30 \<le> b \<and> b \<le> 0x39 then 1 else 0))"
    by (rule class_text_compiles [OF d]) simp_all
  have s: "parse_character_class [0x5C, byte (CHR ''s'')] = Ok [Span 9 13, Single 0x20]"
    by (simp add: parse)
  show "\<exists>prog. compile_character_class [0x5C, byte (CHR ''s'')] = Some (Ok prog)
      \<and> (\<forall>b. run_char_class prog b = Some (if 9 \<le> b \<and> b \<le> 13 \<or> b = 0x20 then 1 else 0))"
    by (rule class_text_compiles [OF s]) auto
  have w: "parse_character_class [0x5C, byte (CHR ''w'')]
      = Ok [Span 0x61 0x7A, Span 0x41 0x5A, Span 0x30 0x39, Single 0x5F]"
    by (simp add: parse)
  show "\<exists>prog. compile_character_class [0x5C, byte (CHR ''w'')] = Some (Ok prog)
      \<and> (\<forall>b. run_char_class prog b = Some (if 0x61 \<le> b \<and> b \<le> 0x7A \<or> 0x41 \<le> b \<and> b \<le> 0x5A
            \<or> 0x30 \<le> b \<and> b \<le> 0x39 \<or> b = 0x5F then 1 else 0))"
    by (rule class_text_compiles [OF w]) auto
  show "list_all (\<lambda>c. compile_character_class [0x5C, byte c]
        = Some (Err (InvalidPattern ''negated character-class escapes are not supported''))) ''DSW''"
    by (simp add: compile_character_class_def parse)
qed

end
