(* ===== verification/Filter_Semantics.thy ===== *)
theory Filter_Semantics
  imports Class_Semantics
begin

text \<open>
  What compiled literal filters and alternations compute on any machine with the
  instruction set of \<open>isa_filter\<close>: the literal filter scans the packet and exits with 1
  exactly when the pattern occurs in it, the alternation compares at one position. Both
  are shown to terminate within an explicit number of steps, to read only bytes of the
  packet (a load outside it would be a fault) and never to leave the program.
\<close>

unbundle bit_operations_syntax

section \<open>Code and data in place\<close>

definition code_at :: "bpf_insn list \<Rightarrow> nat \<Rightarrow> bpf_insn list \<Rightarrow> bool" where
  "code_at prog base insns \<longleftrightarrow> (\<exists>pre post. prog = pre @ insns @ post \<and> length pre = base)"

definition mem_at :: "(u64 \<Rightarrow> u8 option) \<Rightarrow> u64 \<Rightarrow> u8 list \<Rightarrow> bool" where
  "mem_at ld8 a bs \<longleftrightarrow> (\<forall>i < length bs. ld8 (a + of_nat i) = Some (bs ! i))"

text \<open>
  A start state as the compiler expects it (\<open>codegen.rs\<close>, lines 30 to 33): R1 points to a context whose fields at
  offsets 0 and 4 load as the start and the end of the packet \<open>buf\<close>. This is the layout of \<open>xdp_md\<close>.
\<close>

definition packet_context ::
  "(u64 \<Rightarrow> u8 option) \<Rightarrow> (u64 \<Rightarrow> u64 option) \<Rightarrow> bpf_state \<Rightarrow> u64 \<Rightarrow> u8 list \<Rightarrow> bool" where
  "packet_context ld8 ld32 s data buf \<longleftrightarrow> pc s = 0 \<and> ld32 (rf s R1) = Some data
     \<and> ld32 (rf s R1 + 4) = Some (data + of_nat (length buf)) \<and> mem_at ld8 data buf"

text \<open>
  A start state as the kernel gives it to a socket filter: the first two fields of \<open>__sk_buff\<close> are the
  32-bit length of the packet and its type, which has three bits.
\<close>

definition sk_buff_context :: "(u64 \<Rightarrow> u64 option) \<Rightarrow> bpf_state \<Rightarrow> u64 \<Rightarrow> u64 \<Rightarrow> bool" where
  "sk_buff_context ld32 s len pkt_type \<longleftrightarrow> pc s = 0 \<and> ld32 (rf s R1) = Some len \<and> ld32 (rf s R1 + 4) = Some pkt_type
     \<and> unat len < 2 ^ 32 \<and> unat pkt_type < 8"

lemma code_at_append:
  "code_at prog base (xs @ ys) \<Longrightarrow> code_at prog base xs"
  "code_at prog base (xs @ ys) \<Longrightarrow> code_at prog (base + length xs) ys"
  unfolding code_at_def by (metis append.assoc length_append)+

lemma code_at_Cons:
  assumes "code_at prog base (c # cs)"
  shows "base < length prog" "prog ! base = c" "code_at prog (Suc base) cs"
proof -
  from assms obtain pre post where "prog = pre @ c # cs @ post" "length pre = base"
    by (auto simp: code_at_def)
  then show "base < length prog" "prog ! base = c"
    by auto
  have "prog = (pre @ [c]) @ cs @ post \<and> length (pre @ [c]) = Suc base"
    using \<open>prog = pre @ c # cs @ post\<close> \<open>length pre = base\<close> by simp
  then show "code_at prog (Suc base) cs"
    unfolding code_at_def by blast
qed

lemma code_at_self: "code_at prog 0 prog"
  by (auto simp: code_at_def)

lemma mem_at_Cons:
  "mem_at ld8 (a + of_nat i) (b # bs) \<Longrightarrow> ld8 (a + of_nat i) = Some b"
  "mem_at ld8 (a + of_nat i) (b # bs) \<Longrightarrow> mem_at ld8 (a + of_nat (Suc i)) bs"
  unfolding mem_at_def by (force simp: algebra_simps dest: spec [of _ "Suc _"])+

lemma mem_at_window:
  "mem_at ld8 a buf \<Longrightarrow> j + n \<le> length buf \<Longrightarrow> mem_at ld8 (a + of_nat j) (take n (drop j buf))"
  by (auto simp: mem_at_def add.assoc simp flip: of_nat_add)

lemma ucast_of_nat_i32: "n < 2 ^ 31 \<Longrightarrow> ucast (of_nat n :: i32) = (of_nat n :: u64)"
  by (simp add: word_unat_eq_iff unsigned_ucast_eq unat_of_nat take_bit_nat_eq_self)

lemma sint_of_nat_i32: "n < 2 ^ 31 \<Longrightarrow> 0 \<le> sint (of_nat n :: i32)"
  by (simp add: signed_of_nat signed_take_bit_int_eq_self)

lemma pointer_compare:
  assumes "unat a + m < 2 ^ 64" "unat a + n < 2 ^ 64"
  shows "a + of_nat m > (a + of_nat n :: u64) \<longleftrightarrow> m > n"
proof -
  have "unat (a + of_nat k) = unat a + k" if "unat a + k < 2 ^ 64" for k
    using that by (simp add: unat_word_ariths unat_of_nat)
  then show ?thesis
    using assms by (simp add: word_less_nat_alt)
qed

lemma reg_distinct [simp]:
  "R0 \<noteq> R1" "R0 \<noteq> R2" "R0 \<noteq> R3" "R0 \<noteq> R4" "R0 \<noteq> R5" "R0 \<noteq> R6" "R0 \<noteq> R7"
  "R1 \<noteq> R0" "R1 \<noteq> R2" "R1 \<noteq> R3" "R1 \<noteq> R4" "R1 \<noteq> R5" "R1 \<noteq> R6" "R1 \<noteq> R7"
  "R2 \<noteq> R0" "R2 \<noteq> R1" "R2 \<noteq> R3" "R2 \<noteq> R4" "R2 \<noteq> R5" "R2 \<noteq> R6" "R2 \<noteq> R7"
  "R3 \<noteq> R0" "R3 \<noteq> R1" "R3 \<noteq> R2" "R3 \<noteq> R4" "R3 \<noteq> R5" "R3 \<noteq> R6" "R3 \<noteq> R7"
  "R4 \<noteq> R0" "R4 \<noteq> R1" "R4 \<noteq> R2" "R4 \<noteq> R3" "R4 \<noteq> R5" "R4 \<noteq> R6" "R4 \<noteq> R7"
  "R5 \<noteq> R0" "R5 \<noteq> R1" "R5 \<noteq> R2" "R5 \<noteq> R3" "R5 \<noteq> R4" "R5 \<noteq> R6" "R5 \<noteq> R7"
  "R6 \<noteq> R0" "R6 \<noteq> R1" "R6 \<noteq> R2" "R6 \<noteq> R3" "R6 \<noteq> R4" "R6 \<noteq> R5" "R6 \<noteq> R7"
  "R7 \<noteq> R0" "R7 \<noteq> R1" "R7 \<noteq> R2" "R7 \<noteq> R3" "R7 \<noteq> R4" "R7 \<noteq> R5" "R7 \<noteq> R6"
  by (simp_all add: bpf_opcodes)

section \<open>Single instructions\<close>

context isa_filter
begin

lemmas emitted = alu64_imm_def alu64_reg_def ldx_mem_def jmp_imm_def jmp_reg_def exit_insn_def

lemma step_moves:
  "step (alu64_reg BPF_MOV R5 R2) s = Continue (set_reg R5 (rf s R2) s)"
  "step (alu64_reg BPF_MOV R6 R5) s = Continue (set_reg R6 (rf s R5) s)"
  "step (alu64_reg BPF_ADD R5 R4) s = Continue (set_reg R5 (rf s R5 + rf s R4) s)"
  "step (alu64_imm BPF_MOV R4 0) s = Continue (set_reg R4 0 s)"
  using mov_x [of "alu64_reg BPF_MOV R5 R2"] mov_x [of "alu64_reg BPF_MOV R6 R5"]
    add_x [of "alu64_reg BPF_ADD R5 R4"] mov_k [of "alu64_imm BPF_MOV R4 0"]
  by (simp_all add: emitted bpf_opcodes)

lemma step_adds:
  "n < 2 ^ 31 \<Longrightarrow> step (alu64_imm BPF_ADD R6 (of_nat n)) s = Continue (set_reg R6 (rf s R6 + of_nat n) s)"
  "step (alu64_imm BPF_ADD R4 1) s = Continue (set_reg R4 (rf s R4 + 1) s)"
  using add_k [of "alu64_imm BPF_ADD R6 (of_nat n)"] add_k [of "alu64_imm BPF_ADD R4 1"]
  by (simp_all add: emitted bpf_opcodes ucast_of_nat_i32 sint_of_nat_i32)

lemma step_loads:
  "step (ldx_mem BPF_W R2 R1 0) s = load_reg R2 (ld32 (rf s R1)) s"
  "step (ldx_mem BPF_W R3 R1 4) s = load_reg R3 (ld32 (rf s R1 + 4)) s"
  "i < 32768 \<Longrightarrow>
    step (ldx_mem BPF_B R7 R5 (of_nat i)) s = load_reg R7 (map_option ucast (ld8 (rf s R5 + of_nat i))) s"
  using ldx_w [of "ldx_mem BPF_W R2 R1 0"] ldx_w [of "ldx_mem BPF_W R3 R1 4"]
    ldx_b [of "ldx_mem BPF_B R7 R5 (of_nat i)"]
  by (simp_all add: emitted bpf_opcodes operand_addr_def scast_of_nat_16)

lemma step_jumps:
  "step (jmp_imm BPF_JNE R7 (ucast (b :: u8)) f) s
     = Continue (s\<lparr>pc := pc s + 1 + (if rf s R7 \<noteq> ucast (ucast b :: i32) then sint f else 0)\<rparr>)"
  "step (jmp_reg BPF_JGT R6 R3 f) s = Continue (s\<lparr>pc := pc s + 1 + (if rf s R6 > rf s R3 then sint f else 0)\<rparr>)"
  "step (jmp_imm BPF_JA R0 0 f) s = Continue (s\<lparr>pc := pc s + 1 + sint f\<rparr>)"
  using jne_k [of "jmp_imm BPF_JNE R7 (ucast b) f"] jgt_x [of "jmp_reg BPF_JGT R6 R3 f"]
    ja [of "jmp_imm BPF_JA R0 0 f"] sint_ucast_u8 [of b]
  by (simp_all add: emitted bpf_opcodes jump_if_def)

lemma reach_code:
  assumes "code_at prog base (c # cs)" "pc s = int base" "step c s = Continue t"
  shows "reach step prog (Suc 0) s t"
  using assms code_at_Cons [OF assms(1)] by (intro reach_one) auto

section \<open>Comparing bytes\<close>

lemma byte_check_step:
  assumes "code_at prog base (ldx_mem BPF_B R7 R5 (of_nat i) # jmp_imm BPF_JNE R7 (ucast b) (of_nat d) # rest)"
    "mem_at ld8 (rf s R5 + of_nat i) (x # w)" "i < 32768" "d < 32768" "pc s = int base"
  shows "reach step prog 2 s (s\<lparr>pc := int (base + 2 + (if x = b then 0 else d)), rf := (rf s)(R7 := ucast x)\<rparr>)"
    (is "reach step prog 2 s ?s2")
proof -
  note load = code_at_Cons [OF assms(1)]
  note test = code_at_Cons [OF load(3)]
  let ?s1 = "set_reg R7 (ucast x) s"
  have "step (ldx_mem BPF_B R7 R5 (of_nat i)) s = Continue ?s1"
    using assms(2,3) mem_at_Cons(1) [of ld8 "rf s R5" i x w] by (simp add: step_loads load_reg_def)
  then have one: "reach step prog (Suc 0) s ?s1"
    using assms(5) load(1,2) by (intro reach_one [where k = base]) auto
  have "step (jmp_imm BPF_JNE R7 (ucast b) (of_nat d)) ?s1 = Continue ?s2"
    using assms(4,5) by (simp add: step_jumps set_reg_def ucast_u8_compare sint_of_nat_16)
  then have "reach step prog (Suc 0) ?s1 ?s2"
    using assms(5) test(1,2) by (intro reach_one [where k = "Suc base"]) (auto simp: set_reg_def)
  with one have "reach step prog (Suc 0 + Suc 0) s ?s2"
    by (rule reach_trans)
  then show ?thesis by (simp add: numeral_2_eq_2)
qed

lemma byte_checks_run:
  assumes "code_at prog base (byte_checks skip i bs)" "mem_at ld8 (rf s R5 + of_nat i) w"
    "length w = length bs" "i + length bs \<le> 32768" "2 * length bs + skip < 32768" "pc s = int base"
  shows "\<exists>k v. k \<le> 2 * length bs \<and> reach step prog k s
    (s\<lparr>pc := int (base + 2 * length bs + (if w = bs then 0 else skip)), rf := (rf s)(R7 := v)\<rparr>)"
  using assms
proof (induction bs arbitrary: i base s w)
  case Nil
  then have "reach step prog 0 s (s\<lparr>pc := int base\<rparr>)"
    by (cases s) simp
  then show ?case using Nil by (intro exI [of _ "0 :: nat"] exI [of _ "rf s R7"]) simp
next
  case (Cons b bs)
  from Cons.prems(3) obtain x w' where w: "w = x # w'"
    by (cases w) auto
  let ?d = "2 * length bs + skip"
  let ?s2 = "s\<lparr>pc := int (base + 2 + (if x = b then 0 else ?d)), rf := (rf s)(R7 := ucast x)\<rparr>"
  note code = Cons.prems(1) [unfolded byte_checks.simps]
  have two: "reach step prog 2 s ?s2"
    by (rule byte_check_step [OF code, where w = w']) (use Cons.prems w in simp_all)
  show ?case
  proof (cases "x = b")
    case False
    then show ?thesis
      using two by (intro exI [of _ 2] exI [of _ "ucast x"]) (simp add: w algebra_simps fun_upd_def)
  next
    case True
    have "\<exists>k v. k \<le> 2 * length bs \<and> reach step prog k ?s2
      (?s2\<lparr>pc := int (Suc (Suc base) + 2 * length bs + (if w' = bs then 0 else skip)), rf := (rf ?s2)(R7 := v)\<rparr>)"
    proof (rule Cons.IH [OF code_at_Cons(3) [OF code_at_Cons(3) [OF code]]])
      show "mem_at ld8 (rf ?s2 R5 + of_nat (Suc i)) w'"
        using mem_at_Cons(2) [of ld8 "rf s R5" i x w'] Cons.prems(2) w by simp
    qed (use Cons.prems True w in simp_all)
    then obtain k v where k: "k \<le> 2 * length bs" and "reach step prog k ?s2
      (?s2\<lparr>pc := int (Suc (Suc base) + 2 * length bs + (if w' = bs then 0 else skip)), rf := (rf ?s2)(R7 := v)\<rparr>)"
      by blast
    from reach_trans [OF two this(2)] have "reach step prog (2 + k) s
      (s\<lparr>pc := int (base + 2 * length (b # bs) + (if w = b # bs then 0 else skip)), rf := (rf s)(R7 := v)\<rparr>)"
      using True by (simp add: w)
    moreover have "2 + k \<le> 2 * length (b # bs)"
      using k by simp
    ultimately show ?thesis
      by blast
  qed
qed

section \<open>Literal search\<close>

lemma nth_literal_program:
  "code_at (literal_program pat) 0
     [ldx_mem BPF_W R2 R1 0, ldx_mem BPF_W R3 R1 4, alu64_imm BPF_MOV R4 0]"
  "code_at (literal_program pat) 3
     [alu64_reg BPF_MOV R5 R2, alu64_reg BPF_ADD R5 R4, alu64_reg BPF_MOV R6 R5,
      alu64_imm BPF_ADD R6 (of_nat (length pat)), jmp_reg BPF_JGT R6 R3 (of_nat (4 + 2 * length pat))]"
  "code_at (literal_program pat) 8 (byte_checks 2 0 pat)"
  "code_at (literal_program pat) (8 + 2 * length pat)
     [alu64_imm BPF_MOV R0 1, exit_insn, alu64_imm BPF_ADD R4 1,
      jmp_imm BPF_JA R0 0 (- of_nat (2 * length pat + 9)), alu64_imm BPF_MOV R0 0, exit_insn]"
proof -
  let ?a = "[ldx_mem BPF_W R2 R1 0, ldx_mem BPF_W R3 R1 4, alu64_imm BPF_MOV R4 0]"
  let ?b = "[alu64_reg BPF_MOV R5 R2, alu64_reg BPF_ADD R5 R4, alu64_reg BPF_MOV R6 R5,
      alu64_imm BPF_ADD R6 (of_nat (length pat)), jmp_reg BPF_JGT R6 R3 (of_nat (4 + 2 * length pat))]"
  let ?c = "byte_checks 2 0 pat"
  let ?d = "[alu64_imm BPF_MOV R0 1, exit_insn, alu64_imm BPF_ADD R4 1,
      jmp_imm BPF_JA R0 0 (- of_nat (2 * length pat + 9)), alu64_imm BPF_MOV R0 0, exit_insn]"
  have prog: "code_at (literal_program pat) 0 (?a @ ?b @ ?c @ ?d)"
    using code_at_self [of "literal_program pat"] unfolding literal_program_def Let_def by simp
  note rest = code_at_append(2) [OF prog]
  note rest2 = code_at_append(2) [OF rest]
  show "code_at (literal_program pat) 0 ?a"
    by (rule code_at_append(1) [OF prog])
  show "code_at (literal_program pat) 3 ?b"
    using code_at_append(1) [OF rest] by (simp add: eval_nat_numeral)
  show "code_at (literal_program pat) 8 ?c"
    using code_at_append(1) [OF rest2] by (simp add: eval_nat_numeral)
  show "code_at (literal_program pat) (8 + 2 * length pat) ?d"
    using code_at_append(2) [OF rest2] by (simp add: eval_nat_numeral)
qed

text \<open>The head of an iteration: the current pointer, its end, and the bound check.\<close>

lemma literal_head:
  assumes "length pat \<le> 1024" "pc s = 3"
  shows "reach step (literal_program pat) 5 s
    (s\<lparr>pc := (if rf s R2 + rf s R4 + of_nat (length pat) > rf s R3 then 12 + 2 * int (length pat) else 8),
       rf := (rf s)(R5 := rf s R2 + rf s R4, R6 := rf s R2 + rf s R4 + of_nat (length pat))\<rparr>)"
    (is "reach step ?prog 5 s ?t")
proof -
  note c1 = code_at_Cons [OF nth_literal_program(2) [of pat]]
  note c2 = code_at_Cons [OF c1(3)]
  note c3 = code_at_Cons [OF c2(3)]
  note c4 = code_at_Cons [OF c3(3)]
  note c5 = code_at_Cons [OF c4(3)]
  let ?x = "rf s R2 + rf s R4"
  let ?s1 = "s\<lparr>pc := 4, rf := (rf s)(R5 := rf s R2)\<rparr>"
  let ?s2 = "s\<lparr>pc := 5, rf := (rf s)(R5 := ?x)\<rparr>"
  let ?s3 = "s\<lparr>pc := 6, rf := (rf s)(R5 := ?x, R6 := ?x)\<rparr>"
  let ?s4 = "s\<lparr>pc := 7, rf := (rf s)(R5 := ?x, R6 := ?x + of_nat (length pat))\<rparr>"
  have "sint (of_nat (4 + 2 * length pat) :: i16) = int (4 + 2 * length pat)"
    by (rule sint_of_nat_16) (use assms in simp)
  then have off: "sint (4 + 2 * of_nat (length pat) :: i16) = 4 + 2 * int (length pat)"
    by simp
  have "reach step ?prog (Suc 0) s ?s1"
    using c1(1,2) assms by (intro reach_one [where k = 3]) (simp_all add: step_moves set_reg_def)
  moreover have "reach step ?prog (Suc 0) ?s1 ?s2"
    using c2(1,2) by (intro reach_one [where k = 4]) (simp_all add: step_moves set_reg_def)
  moreover have "reach step ?prog (Suc 0) ?s2 ?s3"
    using c3(1,2) by (intro reach_one [where k = 5]) (simp_all add: step_moves set_reg_def)
  moreover have "reach step ?prog (Suc 0) ?s3 ?s4"
    using c4(1,2) assms by (intro reach_one [where k = 6]) (simp_all add: step_adds set_reg_def)
  moreover have "reach step ?prog (Suc 0) ?s4 ?t"
    using c5(1,2) off by (intro reach_one [where k = 7]) (simp_all add: step_jumps)
  ultimately have "reach step ?prog (Suc 0 + (Suc 0 + (Suc 0 + (Suc 0 + Suc 0)))) s ?t"
    by (blast intro: reach_trans)
  then show ?thesis
    by (simp add: eval_nat_numeral)
qed

text \<open>The three ways on: found, the next position, not found.\<close>

lemma verdict:
  assumes "code_at prog base (alu64_imm BPF_MOV R0 k # exit_insn # cs)" "0 \<le> sint k"
    "reach step prog n s t" "pc t = int base" "n + 1 < f"
  shows "bpf_run step prog f s = Some (Exited (ucast k))"
proof -
  note mov = code_at_Cons [OF assms(1)]
  note ex = code_at_Cons [OF mov(3)]
  let ?u = "set_reg R0 (ucast k) t"
  have "reach step prog (Suc 0) t ?u"
    using mov(1,2) assms by (intro reach_one [where k = base]) (simp_all add: step_mov_R0)
  with assms(3) have "reach step prog (n + Suc 0) s ?u"
    by (rule reach_trans)
  then show ?thesis
    by (rule reach_exit [where k = "Suc base"]) (use ex(1,2) assms in \<open>simp_all add: step_exit set_reg_def\<close>)
qed

lemma literal_next:
  assumes "length pat \<le> 1024" "pc s = int (10 + 2 * length pat)"
  shows "reach step (literal_program pat) 2 s (s\<lparr>pc := 3, rf := (rf s)(R4 := rf s R4 + 1)\<rparr>)"
    (is "reach step ?prog 2 s ?t")
proof -
  note c1 = code_at_Cons [OF code_at_Cons(3) [OF code_at_Cons(3) [OF nth_literal_program(4) [of pat]]]]
  note c2 = code_at_Cons [OF c1(3)]
  let ?s1 = "set_reg R4 (rf s R4 + 1) s"
  have "sint (- of_nat (2 * length pat + 9) :: i16) = - int (2 * length pat + 9)"
    by (rule sint_neg_of_nat_16) (use assms in simp)
  then have "step (jmp_imm BPF_JA R0 0 (- of_nat (2 * length pat + 9))) ?s1 = Continue ?t"
    using assms by (simp add: step_jumps set_reg_def)
  then have "reach step ?prog (Suc 0) ?s1 ?t"
    using c2(1,2) assms by (intro reach_one [where k = "Suc (Suc (Suc (8 + 2 * length pat)))"]) (simp_all add: set_reg_def)
  moreover have "reach step ?prog (Suc 0) s ?s1"
    using c1(1,2) assms by (intro reach_one [where k = "Suc (Suc (8 + 2 * length pat))"]) (simp_all add: step_adds)
  ultimately have "reach step ?prog (Suc 0 + Suc 0) s ?t"
    by (blast intro: reach_trans)
  then show ?thesis by (simp add: eval_nat_numeral)
qed

lemma literal_mismatch_next:
  assumes "take (length pat) (drop j buf) \<noteq> pat" "j < length buf"
  shows "sublist pat (drop j buf) \<longleftrightarrow> sublist pat (drop (Suc j) buf)"
proof -
  have "\<not> prefix pat (drop j buf)"
    using assms(1) by (auto simp: prefix_def)
  then show ?thesis
    using assms(2) by (simp flip: Cons_nth_drop_Suc add: sublist_Cons_right)
qed

lemma literal_attempt:
  assumes len: "length pat \<le> 1024"
    and mem: "mem_at ld8 data buf" "unat data + length buf + length pat < 2 ^ 64"
    and s: "pc s = 3" "rf s R2 = data" "rf s R3 = data + of_nat (length buf)" "rf s R4 = of_nat j" "j + length pat \<le> length buf"
  shows "\<exists>k v. k \<le> 2 * length pat \<and> reach step (literal_program pat) (5 + k) s
    (s\<lparr>pc := int (8 + 2 * length pat + (if take (length pat) (drop j buf) = pat then 0 else 2)),
       rf := (rf s)(R5 := data + of_nat j, R6 := data + of_nat j + of_nat (length pat), R7 := v)\<rparr>)"
proof -
  let ?prog = "literal_program pat" and ?n = "length pat" and ?w = "take (length pat) (drop j buf)"
  let ?t = "s\<lparr>pc := 8, rf := (rf s)(R5 := data + of_nat j, R6 := data + of_nat j + of_nat ?n)\<rparr>"
  have head: "reach step ?prog 5 s ?t"
    using literal_head [OF len s(1)] s pointer_compare [of data "j + ?n" "length buf"] mem(2) by (simp add: add.assoc)
  have "\<exists>k v. k \<le> 2 * ?n \<and> reach step ?prog k ?t
      (?t\<lparr>pc := int (8 + 2 * ?n + (if ?w = pat then 0 else 2)), rf := (rf ?t)(R7 := v)\<rparr>)"
    by (rule byte_checks_run [OF nth_literal_program(3)])
      (use s(5) mem_at_window [OF mem(1), of j ?n] len in simp_all)
  then obtain k v where k: "k \<le> 2 * ?n" "reach step ?prog k ?t
      (?t\<lparr>pc := int (8 + 2 * ?n + (if ?w = pat then 0 else 2)), rf := (rf ?t)(R7 := v)\<rparr>)"
    by blast
  from reach_trans [OF head k(2)] k(1) show ?thesis
    by (intro exI [of _ k] exI [of _ v]) simp
qed

lemma literal_short:
  assumes len: "length pat \<le> 1024" "pat \<noteq> []" and wrap: "unat data + length buf + length pat < 2 ^ 64"
    and s: "pc s = 3" "rf s R2 = data" "rf s R3 = data + of_nat (length buf)" "rf s R4 = of_nat j" "j \<le> length buf"
    and short: "length buf < j + length pat" "2 * length pat + 7 \<le> f"
  shows "bpf_run step (literal_program pat) f s = Some (Exited (if sublist pat (drop j buf) then 1 else 0))"
proof -
  let ?n = "length pat"
  have "data + of_nat j + of_nat ?n > data + of_nat (length buf)"
    using pointer_compare [of data "j + ?n" "length buf"] wrap s(5) short(1) by (simp add: add.assoc)
  then have head: "reach step (literal_program pat) 5 s (s\<lparr>pc := 12 + 2 * int ?n,
      rf := (rf s)(R5 := data + of_nat j, R6 := data + of_nat j + of_nat ?n)\<rparr>)"
    using literal_head [OF len(1) s(1)] s by simp
  note code_at_Cons(3) [OF code_at_Cons(3) [OF code_at_Cons(3) [OF code_at_Cons(3) [OF nth_literal_program(4)]]]]
  from verdict [OF this _ head] have "bpf_run step (literal_program pat) f s = Some (Exited 0)"
    using short(2) len(2) by simp
  moreover have "\<not> sublist pat (drop j buf)"
    using short(1) s(5) sublist_length_le [of pat "drop j buf"] by auto
  ultimately show ?thesis by simp
qed

lemma literal_loop:
  assumes len: "length pat \<le> 1024" "pat \<noteq> []"
    and mem: "mem_at ld8 data buf" "unat data + length buf + length pat < 2 ^ 64"
    and s: "pc s = 3" "rf s R2 = data" "rf s R3 = data + of_nat (length buf)" "rf s R4 = of_nat j" "j \<le> length buf"
    and fuel: "Suc (length buf - j) * (2 * length pat + 7) \<le> f"
  shows "bpf_run step (literal_program pat) f s = Some (Exited (if sublist pat (drop j buf) then 1 else 0))"
  using s fuel
proof (induction "length buf - j" arbitrary: j s f rule: less_induct)
  case less
  let ?prog = "literal_program pat" and ?n = "length pat" and ?w = "take (length pat) (drop j buf)"
  have f: "2 * ?n + 7 \<le> f"
    using less.prems(6) by simp
  show ?case
  proof (cases "length buf < j + ?n")
    case True
    then show ?thesis
      by (rule literal_short [OF len mem(2) less.prems(1-5) _ f])
  next
    case False
    then obtain k v where k: "k \<le> 2 * ?n" and u: "reach step ?prog (5 + k) s
        (s\<lparr>pc := int (8 + 2 * ?n + (if ?w = pat then 0 else 2)),
           rf := (rf s)(R5 := data + of_nat j, R6 := data + of_nat j + of_nat ?n, R7 := v)\<rparr>)"
      (is "reach step ?prog (5 + k) s ?u")
      using literal_attempt [OF len(1) mem less.prems(1-4)] by auto
    show ?thesis
    proof (cases "?w = pat")
      case True
      then have "sublist pat (drop j buf)"
        by (metis prefix_imp_sublist take_is_prefix)
      moreover have "bpf_run step ?prog f s = Some (Exited (ucast (1 :: i32)))"
        by (rule verdict [OF nth_literal_program(4) _ u]) (use True f k in simp_all)
      ultimately show ?thesis by simp
    next
      case mismatch: False
      let ?v = "?u\<lparr>pc := 3, rf := (rf ?u)(R4 := rf ?u R4 + 1)\<rparr>"
      have "reach step ?prog 2 ?u ?v"
        by (rule literal_next [OF len(1)]) (use mismatch in simp)
      with u have v: "reach step ?prog (5 + k + 2) s ?v"
        by (rule reach_trans)
      have j: "j < length buf"
        using False len(2) by (cases pat) auto
      have cost: "5 + k + 2 + Suc (length buf - Suc j) * (2 * ?n + 7) \<le> f"
        using less.prems(6) k j by (simp add: Suc_diff_Suc)
      define g where "g = f - (5 + k + 2)"
      then have g: "f = 5 + k + 2 + g" "Suc (length buf - Suc j) * (2 * ?n + 7) \<le> g"
        using cost by linarith+
      have "bpf_run step ?prog g ?v = Some (Exited (if sublist pat (drop (Suc j) buf) then 1 else 0))"
        by (rule less.hyps [OF _ _ _ _ _ _ g(2)]) (use j less.prems in \<open>simp_all add: algebra_simps\<close>)
      then show ?thesis
        using v literal_mismatch_next [OF mismatch j] unfolding reach_def g(1) by simp
    qed
  qed
qed

lemma literal_entry:
  assumes "pc s = 0" "ld32 (rf s R1) = Some data" "ld32 (rf s R1 + 4) = Some data_end"
    "code_at prog 0 (ldx_mem BPF_W R2 R1 0 # ldx_mem BPF_W R3 R1 4 # cs)"
  shows "reach step prog 2 s (s\<lparr>pc := 2, rf := (rf s)(R2 := data, R3 := data_end)\<rparr>)"
    (is "reach step prog 2 s ?t")
proof -
  note c1 = code_at_Cons [OF assms(4)]
  note c2 = code_at_Cons [OF c1(3)]
  let ?s1 = "set_reg R2 data s"
  have "reach step prog (Suc 0) s ?s1"
    using c1(1,2) assms by (intro reach_one [where k = 0]) (simp_all add: step_loads load_reg_def)
  moreover have "reach step prog (Suc 0) ?s1 ?t"
    using c2(1,2) assms by (intro reach_one [where k = 1]) (simp_all add: step_loads load_reg_def set_reg_def)
  ultimately have "reach step prog (Suc 0 + Suc 0) s ?t"
    by (blast intro: reach_trans)
  then show ?thesis by (simp add: eval_nat_numeral)
qed

text \<open>From the start to the first bound check.\<close>

lemma literal_start:
  assumes "pc s = 0" "ld32 (rf s R1) = Some data" "ld32 (rf s R1 + 4) = Some data_end"
  shows "reach step (literal_program pat) 3 s (s\<lparr>pc := 3, rf := (rf s)(R2 := data, R3 := data_end, R4 := 0)\<rparr>)"
    (is "reach step ?prog 3 s ?head")
proof -
  let ?mid = "s\<lparr>pc := 2, rf := (rf s)(R2 := data, R3 := data_end)\<rparr>"
  note c = code_at_Cons [OF code_at_Cons(3) [OF code_at_Cons(3) [OF nth_literal_program(1) [of pat]]]]
  have "reach step ?prog 2 s ?mid"
    by (rule literal_entry [OF assms nth_literal_program(1)])
  moreover have "reach step ?prog (Suc 0) ?mid ?head"
    using c(1,2) by (intro reach_one [where k = 2]) (simp_all add: step_moves set_reg_def eval_nat_numeral)
  ultimately have "reach step ?prog (2 + Suc 0) s ?head"
    by (rule reach_trans)
  then show ?thesis by (simp add: eval_nat_numeral)
qed

text \<open>Where no window lies between the two fields, the first bound check ends the search.\<close>

lemma literal_filter_gives_up:
  assumes "length pat \<le> 1024" "pat \<noteq> []" "pc s = 0" "ld32 (rf s R1) = Some data" "ld32 (rf s R1 + 4) = Some data_end"
    and "data_end < data + of_nat (length pat)" "10 \<le> f"
  shows "bpf_run step (literal_filter pat) f s = Some (Exited 0)"
proof -
  let ?head = "s\<lparr>pc := 3, rf := (rf s)(R2 := data, R3 := data_end, R4 := 0)\<rparr>"
  have "reach step (literal_program pat) 5 ?head (?head\<lparr>pc := 12 + 2 * int (length pat),
      rf := (rf ?head)(R5 := data, R6 := data + of_nat (length pat))\<rparr>)"
    using literal_head [OF assms(1), of ?head] assms(6) by simp
  note all = reach_trans [OF literal_start [OF assms(3-5)] this]
  note code_at_Cons(3) [OF code_at_Cons(3) [OF code_at_Cons(3) [OF code_at_Cons(3) [OF nth_literal_program(4)]]]]
  from verdict [OF this _ all] have "bpf_run step (literal_program pat) f s = Some (Exited 0)"
    using assms(7) by simp
  with assms(2) show ?thesis by (simp add: literal_filter_def)
qed

lemma literal_filter_exits:
  assumes "length pat \<le> 1024" "mem_at ld8 data buf" "unat data + length buf + length pat < 2 ^ 64"
    and "pc s = 0" "ld32 (rf s R1) = Some data" "ld32 (rf s R1 + 4) = Some (data + of_nat (length buf))"
    and "Suc (length buf) * (2 * length pat + 7) + 3 \<le> f"
  shows "bpf_run step (literal_filter pat) f s = Some (Exited (if sublist pat buf then 1 else 0))"
proof (cases "pat = []")
  case True
  let ?prog = "literal_filter []"
  let ?mid = "s\<lparr>pc := 2, rf := (rf s)(R2 := data, R3 := data + of_nat (length buf))\<rparr>"
  have prog: "code_at ?prog 0
      (ldx_mem BPF_W R2 R1 0 # ldx_mem BPF_W R3 R1 4 # alu64_imm BPF_MOV R0 1 # exit_insn # [])"
    using code_at_self [of ?prog] by (simp add: literal_filter_def)
  have entry: "reach step ?prog 2 s ?mid"
    by (rule literal_entry [OF assms(4-6) prog])
  have "bpf_run step ?prog f s = Some (Exited (ucast (1 :: i32)))"
    by (rule verdict [OF code_at_Cons(3) [OF code_at_Cons(3) [OF prog]] _ entry]) (use assms(7) in simp_all)
  with True show ?thesis by simp
next
  case False
  let ?prog = "literal_program pat"
  let ?head = "s\<lparr>pc := 3, rf := (rf s)(R2 := data, R3 := data + of_nat (length buf), R4 := 0)\<rparr>"
  have start: "reach step ?prog 3 s ?head"
    by (rule literal_start [OF assms(4-6)])
  have "3 \<le> f"
    using assms(7) by simp
  then obtain g where g: "f = 3 + g"
    using le_Suc_ex by blast
  have "bpf_run step ?prog g ?head = Some (Exited (if sublist pat (drop 0 buf) then 1 else 0))"
    by (rule literal_loop [OF assms(1) False assms(2,3)]) (use assms(7) g in simp_all)
  then show ?thesis
    using start False unfolding reach_def g by (simp add: literal_filter_def)
qed

section \<open>Alternations\<close>

lemma alt_head:
  assumes "code_at prog base
      (alu64_reg BPF_MOV R6 R5 # alu64_imm BPF_ADD R6 (of_nat n) # jmp_reg BPF_JGT R6 R3 (of_nat (2 * n + 1)) # cs)"
    "2 * n + 1 < 32768" "pc s = int base"
  shows "reach step prog 3 s
    (s\<lparr>pc := int (base + 3 + (if rf s R5 + of_nat n > rf s R3 then 2 * n + 1 else 0)),
       rf := (rf s)(R6 := rf s R5 + of_nat n)\<rparr>)" (is "reach step prog 3 s ?t")
proof -
  note c1 = code_at_Cons [OF assms(1)]
  note c2 = code_at_Cons [OF c1(3)]
  note c3 = code_at_Cons [OF c2(3)]
  let ?s1 = "set_reg R6 (rf s R5) s"
  let ?s2 = "s\<lparr>pc := int (Suc (Suc base)), rf := (rf s)(R6 := rf s R5 + of_nat n)\<rparr>"
  have off: "sint (of_nat (2 * n + 1) :: i16) = int (2 * n + 1)"
    by (rule sint_of_nat_16) (use assms in simp)
  have "reach step prog (Suc 0) s ?s1"
    using c1(1,2) assms by (intro reach_one [where k = base]) (simp_all add: step_moves)
  moreover have "reach step prog (Suc 0) ?s1 ?s2"
    using c2(1,2) assms by (intro reach_one [where k = "Suc base"]) (simp_all add: step_adds set_reg_def)
  moreover have "reach step prog (Suc 0) ?s2 ?t"
    using c3(1,2) off by (intro reach_one [where k = "Suc (Suc base)"]) (simp_all add: step_jumps)
  ultimately have "reach step prog (Suc 0 + (Suc 0 + Suc 0)) s ?t"
    by (blast intro: reach_trans)
  then show ?thesis by (simp add: eval_nat_numeral)
qed

text \<open>One alternative: on to the next block, or to its match jump.\<close>

lemma alt_block_run:
  assumes "code_at prog base (alt_block True True True d a @ cs)" "length a \<le> 2048"
    and "mem_at ld8 (rf s R5) rest" "rf s R3 = rf s R5 + of_nat (length rest)"
    and "unat (rf s R5) + length rest + length a < 2 ^ 64" "pc s = int base"
  shows "\<exists>k rf'. k \<le> 3 + 2 * length a \<and> rf' R5 = rf s R5 \<and> rf' R3 = rf s R3
    \<and> reach step prog k s (s\<lparr>pc := int (base + 3 + 2 * length a + (if prefix a rest then 0 else 1)), rf := rf'\<rparr>)"
proof -
  let ?n = "length a" and ?w = "take (length a) rest"
  have imm: "(ucast (slice_len a) :: i32) = of_nat ?n"
    using assms(2) by (intro slice_len_i32) simp
  have block: "code_at prog base
      ([alu64_reg BPF_MOV R6 R5, alu64_imm BPF_ADD R6 (of_nat ?n), jmp_reg BPF_JGT R6 R3 (of_nat (2 * ?n + 1))]
       @ byte_checks 1 0 a @ [jmp_imm BPF_JA R0 0 (of_nat d)] @ cs)"
    using assms(1) by (simp add: alt_block_def imm alt_checks_True)
  have bytes: "code_at prog (base + 3) (byte_checks 1 0 a)"
    using code_at_append(1) [OF code_at_append(2) [OF block]] by (simp add: eval_nat_numeral)
  have bound: "rf s R5 + of_nat ?n > rf s R3 \<longleftrightarrow> length rest < ?n"
    using pointer_compare [of "rf s R5" ?n "length rest"] assms(4,5) by simp
  let ?t = "s\<lparr>pc := int (base + 3 + (if length rest < ?n then 2 * ?n + 1 else 0)),
       rf := (rf s)(R6 := rf s R5 + of_nat ?n)\<rparr>"
  have head: "reach step prog 3 s ?t"
    using alt_head [of prog base ?n _ s] block assms(2,6) bound by simp
  show ?thesis
  proof (cases "length rest < ?n")
    case True
    then have "\<not> prefix a rest"
      by (auto dest: prefix_length_le)
    with True head show ?thesis
      by (intro exI [of _ 3] exI [of _ "rf ?t"]) (simp add: algebra_simps)
  next
    case False
    have "\<exists>k v. k \<le> 2 * ?n \<and> reach step prog k ?t
        (?t\<lparr>pc := int (base + 3 + 2 * ?n + (if ?w = a then 0 else 1)), rf := (rf ?t)(R7 := v)\<rparr>)"
      by (rule byte_checks_run [OF bytes])
        (use False mem_at_window [OF assms(3), of 0 ?n] assms(2) in simp_all)
    then obtain k v where k: "k \<le> 2 * ?n" "reach step prog k ?t
        (?t\<lparr>pc := int (base + 3 + 2 * ?n + (if ?w = a then 0 else 1)), rf := (rf ?t)(R7 := v)\<rparr>)"
      by blast
    have "?w = a \<longleftrightarrow> prefix a rest"
      by (metis append_eq_conv_conj prefix_def take_is_prefix)
    with reach_trans [OF head k(2)] k(1) show ?thesis
      by (intro exI [of _ "3 + k"] exI [of _ "(rf ?t)(R7 := v)"]) simp
  qed
qed

text \<open>A matching alternative jumps over the remaining ones to the accepting exit.\<close>

lemma alt_hit:
  assumes code: "code_at prog base (alt_block True True True (alts_size as + 2) a @ alts_code True True True as
      @ [alu64_imm BPF_MOV R0 0, exit_insn, alu64_imm BPF_MOV R0 1, exit_insn])" "alts_size as \<le> 4092"
    and run: "reach step prog k s (s\<lparr>pc := int (base + 3 + 2 * length a), rf := rf'\<rparr>)" "k + 3 \<le> f"
  shows "bpf_run step prog f s = Some (Exited 1)"
proof -
  let ?n = "length a" and ?d = "alts_size as + 2"
  let ?t = "s\<lparr>pc := int (base + 3 + 2 * ?n), rf := rf'\<rparr>"
  let ?u = "?t\<lparr>pc := int (base + (4 + 2 * ?n) + alts_size as + 2)\<rparr>"
  have ja: "base + 3 + 2 * ?n < length prog" "prog ! (base + 3 + 2 * ?n) = jmp_imm BPF_JA R0 0 (of_nat ?d)"
    using code by (auto simp: code_at_def alt_block_def nth_append)
  have "sint (of_nat ?d :: i16) = int ?d"
    by (rule sint_of_nat_16) (use code(2) in simp)
  then have "reach step prog (Suc 0) ?t ?u"
    using ja by (intro reach_one [where k = "base + 3 + 2 * ?n"]) (simp_all add: step_jumps)
  with run(1) have u: "reach step prog (k + Suc 0) s ?u"
    by (rule reach_trans)
  have "code_at prog (base + (4 + 2 * ?n) + alts_size as)
      [alu64_imm BPF_MOV R0 0, exit_insn, alu64_imm BPF_MOV R0 1, exit_insn]"
    using code_at_append(2) [OF code_at_append(2) [OF code(1)]] by simp
  from code_at_Cons(3) [OF code_at_Cons(3) [OF this]]
  have "code_at prog (base + (4 + 2 * ?n) + alts_size as + 2) (alu64_imm BPF_MOV R0 1 # exit_insn # [])"
    by (simp only: add_2_eq_Suc')
  from verdict [OF this _ u, of f] run(2) show ?thesis by simp
qed

lemma alts_run:
  assumes "code_at prog base (alts_code True True True as
      @ [alu64_imm BPF_MOV R0 0, exit_insn, alu64_imm BPF_MOV R0 1, exit_insn])" "alts_size as \<le> 4092"
    and "mem_at ld8 (rf s R5) rest" "rf s R3 = rf s R5 + of_nat (length rest)"
    and "\<forall>a \<in> set as. unat (rf s R5) + length rest + length a < 2 ^ 64"
    and "pc s = int base" "alts_size as + 2 \<le> f"
  shows "bpf_run step prog f s = Some (Exited (if \<exists>a \<in> set as. prefix a rest then 1 else 0))"
  using assms
proof (induction as arbitrary: base s f)
  case Nil
  from Nil.prems(1) have "code_at prog base (alu64_imm BPF_MOV R0 0 # exit_insn # [alu64_imm BPF_MOV R0 1, exit_insn])"
    by simp
  from verdict [OF this _ reach_refl, of s f] Nil.prems show ?case by simp
next
  case (Cons a as)
  let ?tail = "[alu64_imm BPF_MOV R0 0, exit_insn, alu64_imm BPF_MOV R0 1, exit_insn]"
  let ?n = "length a" and ?d = "alts_size as + 2"
  have code: "code_at prog base (alt_block True True True ?d a @ alts_code True True True as @ ?tail)"
    using Cons.prems(1) by simp
  have rest: "code_at prog (base + (4 + 2 * ?n)) (alts_code True True True as @ ?tail)"
    using code_at_append(2) [OF code] by simp
  have wrap: "unat (rf s R5) + length rest + length a < 2 ^ 64"
    using Cons.prems(5) by simp
  have n: "?n \<le> 2048"
    using Cons.prems(2) by simp
  obtain k rf' where k: "k \<le> 3 + 2 * ?n" and rf': "rf' R5 = rf s R5" "rf' R3 = rf s R3"
    and run: "reach step prog k s (s\<lparr>pc := int (base + 3 + 2 * ?n + (if prefix a rest then 0 else 1)), rf := rf'\<rparr>)"
    using alt_block_run [OF code n Cons.prems(3,4) wrap Cons.prems(6)] by blast
  show ?case
  proof (cases "prefix a rest")
    case True
    then have "reach step prog k s (s\<lparr>pc := int (base + 3 + 2 * ?n), rf := rf'\<rparr>)"
      using run by simp
    from alt_hit [OF code _ this, of f] True k Cons.prems(2,7) show ?thesis by simp
  next
    case False
    let ?t = "s\<lparr>pc := int (base + (4 + 2 * ?n)), rf := rf'\<rparr>"
    have "base + 3 + 2 * ?n + 1 = base + (4 + 2 * ?n)"
      by simp
    with run False have t: "reach step prog k s ?t"
      by (simp only: if_False)
    have "k \<le> f"
      using k Cons.prems(7) by simp
    then obtain g where g: "f = k + g"
      using le_Suc_ex by blast
    have "bpf_run step prog g ?t = Some (Exited (if \<exists>a \<in> set as. prefix a rest then 1 else 0))"
      by (rule Cons.IH [OF rest]) (use Cons.prems rf' k g in simp_all)
    with t False show ?thesis
      unfolding reach_def g by simp
  qed
qed

end

section \<open>Whole alternations\<close>

lemma compiled_alternation_exits:
  assumes "isa_filter step ld8 ld32"
    and "alts_size as < 2 ^ 62" and "compile_alternation as = Some (Ok prog)"
    and "mem_at ld8 (rf s R5) rest" and "rf s R3 = rf s R5 + of_nat (length rest)"
    and "\<forall>a \<in> set as. unat (rf s R5) + length rest + length a < 2 ^ 64"
    and "pc s = 0" and "length prog \<le> fuel"
  shows "bpf_run step prog fuel s = Some (Exited (if \<exists>a \<in> set as. prefix a rest then 1 else 0))"
proof (cases "as = [] \<or> [] \<in> set as")
  case True
  define k :: i32 where k: "k = (if as = [] then 0 else 1)"
  have prog: "prog = [alu64_imm BPF_MOV R0 k, exit_insn]"
    using True assms(2,3) by (simp add: compile_alternation_eq k split: if_splits)
  have "bpf_run step prog fuel s = Some (Exited (ucast k))"
    using isa_filter.verdict [OF assms(1) _ _ reach_refl, of prog 0 k "[]" s fuel] assms(7,8) code_at_self [of prog]
    by (auto simp: prog k)
  with True show ?thesis by (auto simp: k intro!: bexI [of _ "[]"])
next
  case False
  then have "prog = alternation_program as" "alts_size as \<le> 4092"
    using assms(2,3) by (auto simp: compile_alternation_eq split: if_splits)
  then show ?thesis
    using isa_filter.alts_run [OF assms(1) _ _ assms(4-6), of prog 0 fuel] code_at_self [of prog] assms(7,8)
    by (simp add: alternation_program_def)
qed

section \<open>Properties\<close>

text \<open>
  C3: a compiled literal filter searches the packet. On every machine with the documented
  instruction set, started with R1 pointing at a context whose two fields hold the start
  and the end of the packet, the filter terminates, reads no byte outside the packet, and
  exits with 1 if the pattern occurs somewhere in the packet and with 0 otherwise. The
  number of steps is at most \<open>(len + 1) * (2 * n + 7) + 3\<close> for a packet of \<open>len\<close> and a
  pattern of \<open>n\<close> bytes.
\<close>

theorem literal_filter_decides:
  assumes "isa_filter step ld8 ld32"
    and "length pat < 2 ^ 62" and "compile_literal_search pat = Some (Ok prog)"
    and "mem_at ld8 data buf" and "unat data + length buf + length pat < 2 ^ 64"
    and "pc s = 0" and "ld32 (rf s R1) = Some data" and "ld32 (rf s R1 + 4) = Some (data + of_nat (length buf))"
    and "Suc (length buf) * (2 * length pat + 7) + 3 \<le> fuel"
  shows "bpf_run step prog fuel s = Some (Exited (if sublist pat buf then 1 else 0))"
proof -
  have "length pat \<le> 1024 \<and> prog = literal_filter pat"
    using assms(2,3) compile_literal_search_small [of pat] compile_literal_search_large [of pat]
    by (cases "length pat \<le> 1024") auto
  then show ?thesis
    using isa_filter.literal_filter_exits [OF assms(1) _ assms(4-9)] by simp
qed

definition demo_ld8 :: "u64 \<Rightarrow> u8 option" where
  "demo_ld8 a = (if a = 0x1000 then Some 0x41 else if a = 0x1001 then Some 0x42 else None)"

definition demo_ld32 :: "u64 \<Rightarrow> u64 option" where
  "demo_ld32 a = (if a = 0x10 then Some 0x1000 else if a = 0x14 then Some 0x1002 else None)"

lemma demo_memory: "mem_at demo_ld8 0x1000 [0x41, 0x42]"
  by (simp add: mem_at_def demo_ld8_def less_Suc_eq)

theorem literal_filter_decides_witness:
  "bpf_run (bpf_step demo_ld8 demo_ld32) (literal_filter [0x42]) 30 \<lparr>pc = 0, rf = (\<lambda>_. 0)(1 := 0x10)\<rparr>
     = Some (Exited 1)"
  using literal_filter_decides [where step = "bpf_step demo_ld8 demo_ld32" and ?ld8.0 = demo_ld8
      and ?ld32.0 = demo_ld32 and pat = "[0x42]" and buf = "[0x41, 0x42]" and data = "0x1000"
      and prog = "literal_filter [0x42]" and s = "\<lparr>pc = 0, rf = (\<lambda>_. 0)(1 := 0x10)\<rparr>" and fuel = 30]
  by (simp add: bpf_vm.isa_filter_axioms compile_literal_search_small demo_memory demo_ld32_def R1_def
      sublist_Cons_right)

text \<open>
  C12: a compiled alternation matches at the scan position. With R5 pointing at the remaining
  bytes of the packet and R3 at its end, the program terminates within as many steps as it has
  instructions, reads no byte outside the packet, and exits with 1 exactly when one of
  the alternatives is a prefix of the remaining bytes.
\<close>

theorem alternation_decides:
  assumes "isa_filter step ld8 ld32"
    and "alts_size as < 2 ^ 62" and "compile_alternation as = Some (Ok prog)"
    and "mem_at ld8 (rf s R5) rest" and "rf s R3 = rf s R5 + of_nat (length rest)"
    and "\<forall>a \<in> set as. unat (rf s R5) + length rest + length a < 2 ^ 64"
    and "pc s = 0" and "length prog \<le> fuel"
  shows "bpf_run step prog fuel s = Some (Exited (if \<exists>a \<in> set as. prefix a rest then 1 else 0))"
  using assms by (rule compiled_alternation_exits)

theorem alternation_decides_witness:
  "bpf_run (bpf_step demo_ld8 demo_ld32) (alternation_program [[0x42], [0x41, 0x42]]) 20
     \<lparr>pc = 0, rf = (\<lambda>_. 0)(5 := 0x1000, 3 := 0x1002)\<rparr> = Some (Exited 1)"
  using alternation_decides [where step = "bpf_step demo_ld8 demo_ld32" and ?ld8.0 = demo_ld8
      and ?ld32.0 = demo_ld32 and as = "[[0x42], [0x41, 0x42]]" and rest = "[0x41, 0x42]"
      and prog = "alternation_program [[0x42], [0x41, 0x42]]"
      and s = "\<lparr>pc = 0, rf = (\<lambda>_. 0)(5 := 0x1000, 3 := 0x1002)\<rparr>" and fuel = 20]
  by (simp add: bpf_vm.isa_filter_axioms compile_alternation_eq demo_memory R3_def R5_def)

end
