(* ===== verification/Reg_Types.thy ===== *)
theory Reg_Types
  imports Filter_Semantics
begin

text \<open>
  A type discipline for compiled programs. The kernel accepts a program only if it never reads
  a register it has not written, dereferences only pointers, keeps pointers into the packet,
  the end of the packet, the context and plain numbers apart, and returns a number. Here this is
  a machine whose registers hold tagged values and may be unwritten, and a type checker for
  instruction lists in the style of a bytecode verifier: a typing gives the registers' types before
  each instruction, and every instruction must respect it towards all its successors. Well-typed
  programs never perform an illegal operation (type soundness), and on the tagged machine they
  compute what they compute on the untyped one. All compiled programs are well typed from
  the registers that their documentation says the caller provides.
\<close>

unbundle bit_operations_syntax

section \<open>Instructions as syntax\<close>

datatype cmp = Eq | Ne | Lt | Le

datatype op =
    MovK u8 i32 | MovX u8 u8 | AddK u8 i32 | AddX u8 u8
  | LoadB u8 u8 i16 | LoadW u8 u8 i16
  | Ja i16 | JumpK cmp u8 i32 i16 | JgtX u8 u8 i16 | Exit | Unknown

definition decode :: "bpf_insn \<Rightarrow> op" where
  "decode i =
     (if code i = BPF_JMP OR BPF_EXIT then Exit
      else if code i = BPF_LDX OR BPF_MEM OR BPF_B then LoadB (dst_reg i) (src_reg i) (off i)
      else if code i = BPF_LDX OR BPF_MEM OR BPF_W then LoadW (dst_reg i) (src_reg i) (off i)
      else if code i = BPF_ALU64 OR BPF_MOV OR BPF_K then MovK (dst_reg i) (imm i)
      else if code i = BPF_ALU64 OR BPF_MOV OR BPF_X then MovX (dst_reg i) (src_reg i)
      else if code i = BPF_ALU64 OR BPF_ADD OR BPF_K then AddK (dst_reg i) (imm i)
      else if code i = BPF_ALU64 OR BPF_ADD OR BPF_X then AddX (dst_reg i) (src_reg i)
      else if code i = BPF_JMP OR BPF_JA then Ja (off i)
      else if code i = BPF_JMP OR BPF_JEQ OR BPF_K then JumpK Eq (dst_reg i) (imm i) (off i)
      else if code i = BPF_JMP OR BPF_JNE OR BPF_K then JumpK Ne (dst_reg i) (imm i) (off i)
      else if code i = BPF_JMP OR BPF_JGT OR BPF_X then JgtX (dst_reg i) (src_reg i) (off i)
      else if code i = BPF_JMP OR BPF_JLT OR BPF_K then JumpK Lt (dst_reg i) (imm i) (off i)
      else if code i = BPF_JMP OR BPF_JLE OR BPF_K then JumpK Le (dst_reg i) (imm i) (off i)
      else Unknown)"

section \<open>The tagged machine\<close>

text \<open>A packet pointer carries its distance from the start of the packet.\<close>

datatype tval = Num u64 | Ctx | Pkt u64 | End

record tag_state =
  tpc :: int
  treg :: "u8 \<rightharpoonup> tval"

datatype tag_outcome = TContinue tag_state | TExit u64 | Out_of_packet | Illegal

fun tag_add :: "tval \<Rightarrow> tval \<Rightarrow> tval option" where
  "tag_add (Num a) (Num b) = Some (Num (a + b))"
| "tag_add (Pkt a) (Num b) = Some (Pkt (a + b))"
| "tag_add _ _ = None"

fun compare_k :: "cmp \<Rightarrow> u64 \<Rightarrow> u64 \<Rightarrow> bool" where
  "compare_k Eq a b = (a = b)"
| "compare_k Ne a b = (a \<noteq> b)"
| "compare_k Lt a b = (a < b)"
| "compare_k Le a b = (a \<le> b)"

definition tag_set :: "u8 \<Rightarrow> tval option \<Rightarrow> tag_state \<Rightarrow> tag_outcome" where
  "tag_set r v s = (case v of Some x \<Rightarrow> if r \<le> R9 then TContinue (s\<lparr>tpc := tpc s + 1, treg := (treg s)(r \<mapsto> x)\<rparr>) else Illegal
     | None \<Rightarrow> Illegal)"

definition tag_jump :: "bool \<Rightarrow> i16 \<Rightarrow> tag_state \<Rightarrow> tag_outcome" where
  "tag_jump c f s = TContinue (s\<lparr>tpc := tpc s + 1 + (if c then sint f else 0)\<rparr>)"

text \<open>The packet \<open>buf\<close> lies at address \<open>data\<close>; the order of packet pointers is that of their addresses.\<close>

fun tag_op :: "u64 \<Rightarrow> u8 list \<Rightarrow> op \<Rightarrow> tag_state \<Rightarrow> tag_outcome" where
  "tag_op data buf (MovK d k) s = tag_set d (Some (Num (scast k))) s"
| "tag_op data buf (MovX d x) s = tag_set d (treg s x) s"
| "tag_op data buf (AddK d k) s = tag_set d (Option.bind (treg s d) (\<lambda>v. tag_add v (Num (scast k)))) s"
| "tag_op data buf (AddX d x) s = tag_set d (Option.bind (treg s d) (\<lambda>v. Option.bind (treg s x) (tag_add v))) s"
| "tag_op data buf (LoadW d x f) s =
     (case treg s x of Some Ctx \<Rightarrow> tag_set d (if f = 0 then Some (Pkt 0) else if f = 4 then Some End else None) s | _ \<Rightarrow> Illegal)"
| "tag_op data buf (LoadB d x f) s =
     (case treg s x of
        Some (Pkt a) \<Rightarrow> let i = unat (a + scast f) in
          if \<not> d \<le> R9 then Illegal
          else if i < length buf then tag_set d (Some (Num (ucast (buf ! i)))) s else Out_of_packet
      | _ \<Rightarrow> Illegal)"
| "tag_op data buf (Ja f) s = tag_jump True f s"
| "tag_op data buf (JumpK c d k f) s =
     (case treg s d of Some (Num v) \<Rightarrow> tag_jump (compare_k c v (scast k)) f s | _ \<Rightarrow> Illegal)"
| "tag_op data buf (JgtX d x f) s =
     (case (treg s d, treg s x) of
        (Some (Num a), Some (Num b)) \<Rightarrow> tag_jump (a > b) f s
      | (Some (Pkt a), Some End) \<Rightarrow> tag_jump (data + a > data + of_nat (length buf)) f s
      | _ \<Rightarrow> Illegal)"
| "tag_op data buf Exit s = (case treg s R0 of Some (Num v) \<Rightarrow> TExit v | _ \<Rightarrow> Illegal)"
| "tag_op data buf Unknown s = Illegal"

fun tag_run :: "u64 \<Rightarrow> u8 list \<Rightarrow> bpf_insn list \<Rightarrow> nat \<Rightarrow> tag_state \<Rightarrow> tag_outcome option" where
  "tag_run data buf prog 0 s = None"
| "tag_run data buf prog (Suc n) s =
     (if 0 \<le> tpc s \<and> nat (tpc s) < length prog then
        (case tag_op data buf (decode (prog ! nat (tpc s))) s of
           TContinue s' \<Rightarrow> tag_run data buf prog n s'
         | res \<Rightarrow> Some res)
      else Some Illegal)"

section \<open>Types\<close>

datatype rty = TNum | TCtx | TPkt | TEnd

type_synonym tenv = "u8 \<rightharpoonup> rty"

fun type_of :: "tval \<Rightarrow> rty" where
  "type_of (Num v) = TNum"
| "type_of Ctx = TCtx"
| "type_of (Pkt a) = TPkt"
| "type_of End = TEnd"

fun ty_add :: "rty \<Rightarrow> rty \<Rightarrow> rty option" where
  "ty_add TNum TNum = Some TNum"
| "ty_add TPkt TNum = Some TPkt"
| "ty_add _ _ = None"

definition ty_set :: "u8 \<Rightarrow> rty option \<Rightarrow> tenv \<Rightarrow> tenv option" where
  "ty_set r t G = (case t of Some u \<Rightarrow> if r \<le> R9 then Some (G(r \<mapsto> u)) else None | None \<Rightarrow> None)"

text \<open>The effect of an operation on the types, \<open>None\<close> when it is not allowed.\<close>

fun ty_op :: "op \<Rightarrow> tenv \<Rightarrow> tenv option" where
  "ty_op (MovK d k) G = ty_set d (Some TNum) G"
| "ty_op (MovX d x) G = ty_set d (G x) G"
| "ty_op (AddK d k) G = ty_set d (Option.bind (G d) (\<lambda>t. ty_add t TNum)) G"
| "ty_op (AddX d x) G = ty_set d (Option.bind (G d) (\<lambda>t. Option.bind (G x) (ty_add t))) G"
| "ty_op (LoadW d x f) G =
     (if G x = Some TCtx then ty_set d (if f = 0 then Some TPkt else if f = 4 then Some TEnd else None) G else None)"
| "ty_op (LoadB d x f) G = (if G x = Some TPkt then ty_set d (Some TNum) G else None)"
| "ty_op (Ja f) G = Some G"
| "ty_op (JumpK c d k f) G = (if G d = Some TNum then Some G else None)"
| "ty_op (JgtX d x f) G =
     (if G d = Some TNum \<and> G x = Some TNum \<or> G d = Some TPkt \<and> G x = Some TEnd then Some G else None)"
| "ty_op Exit G = (if G R0 = Some TNum then Some G else None)"
| "ty_op Unknown G = None"

fun op_writes :: "op \<Rightarrow> bool" where
  "op_writes (Ja f) = False"
| "op_writes (JumpK c d v f) = False"
| "op_writes (JgtX d x f) = False"
| "op_writes Exit = False"
| "op_writes Unknown = False"
| "op_writes _ = True"

fun op_succs :: "op \<Rightarrow> int \<Rightarrow> int list" where
  "op_succs (Ja f) k = [k + 1 + sint f]"
| "op_succs (JumpK c d v f) k = [k + 1, k + 1 + sint f]"
| "op_succs (JgtX d x f) k = [k + 1, k + 1 + sint f]"
| "op_succs Exit k = []"
| "op_succs _ k = [k + 1]"

definition wt_insn :: "(nat \<Rightarrow> tenv) \<Rightarrow> nat \<Rightarrow> nat \<Rightarrow> bpf_insn \<Rightarrow> bool" where
  "wt_insn T len k i \<longleftrightarrow>
     (case ty_op (decode i) (T k) of
        None \<Rightarrow> False
      | Some G \<Rightarrow> list_all (\<lambda>q. 0 \<le> q \<and> nat q < len \<and> T (nat q) \<subseteq>\<^sub>m G) (op_succs (decode i) (int k)))"

fun wt_code :: "(nat \<Rightarrow> tenv) \<Rightarrow> nat \<Rightarrow> nat \<Rightarrow> bpf_insn list \<Rightarrow> bool" where
  "wt_code T len k [] = True"
| "wt_code T len k (i # is) = (wt_insn T len k i \<and> wt_code T len (Suc k) is)"

text \<open>A program is well typed from the entry registers \<open>G\<close> if some typing starts there.\<close>

definition well_typed :: "tenv \<Rightarrow> bpf_insn list \<Rightarrow> bool" where
  "well_typed G prog \<longleftrightarrow> prog \<noteq> [] \<and> (\<exists>T. T 0 \<subseteq>\<^sub>m G \<and> wt_code T (length prog) 0 prog)"

section \<open>Type soundness\<close>

definition tenv_of :: "tag_state \<Rightarrow> tenv" where
  "tenv_of s = (\<lambda>r. map_option type_of (treg s r))"

fun_cases ty_add_SomeE: "ty_add a b = Some t"

lemma tenv_of_reg: "G \<subseteq>\<^sub>m tenv_of s \<Longrightarrow> G r = Some t \<Longrightarrow> \<exists>v. treg s r = Some v \<and> type_of v = t"
  unfolding map_le_def tenv_of_def by (metis domI map_option_eq_Some)

lemma type_of_inv:
  "type_of v = TNum \<longleftrightarrow> (\<exists>a. v = Num a)" "type_of v = TCtx \<longleftrightarrow> v = Ctx"
  "type_of v = TPkt \<longleftrightarrow> (\<exists>a. v = Pkt a)" "type_of v = TEnd \<longleftrightarrow> v = End"
  by (cases v; simp)+

lemma tag_add_typed: "ty_add (type_of a) (type_of b) = Some t \<Longrightarrow> \<exists>v. tag_add a b = Some v \<and> type_of v = t"
  by (cases a; cases b) auto

lemma tag_set_typed:
  assumes "ty_set r (Some t) G = Some G'" "G \<subseteq>\<^sub>m tenv_of s" "type_of v = t"
  shows "\<exists>s'. tag_set r (Some v) s = TContinue s' \<and> G' \<subseteq>\<^sub>m tenv_of s' \<and> tpc s' = tpc s + 1"
  using assms by (auto simp: ty_set_def tag_set_def tenv_of_def map_le_def dom_def split: if_splits)

text \<open>Progress and preservation in one: the only way to stop a well-typed step is a load outside the packet.\<close>

text \<open>Operations that write a register, then those that only move the program counter.\<close>

lemma tag_write_typed:
  assumes "ty_op x G = Some G'" "G \<subseteq>\<^sub>m tenv_of s" "op_writes x"
  shows "(\<exists>s'. tag_op data buf x s = TContinue s' \<and> G' \<subseteq>\<^sub>m tenv_of s' \<and> tpc s' = tpc s + 1)
    \<or> tag_op data buf x s = Out_of_packet"
proof -
  note reg = tenv_of_reg [OF assms(2)]
  have set: "\<exists>s'. tag_set r (Some v) s = TContinue s' \<and> G' \<subseteq>\<^sub>m tenv_of s' \<and> tpc s' = tpc s + 1"
    if "ty_set r (Some (type_of v)) G = Some G'" for r v
    using tag_set_typed [OF that assms(2) refl] .
  have written: "\<exists>t. u = Some t \<and> ty_set r (Some t) G = Some G'" if "ty_set r u G = Some G'" for r u
    using that by (cases u) (auto simp: ty_set_def)
  show ?thesis
  proof (cases x)
    case (MovK d k)
    then show ?thesis using assms(1) set [of d "Num (scast k)"] by auto
  next
    case (MovX d y)
    then obtain t where "G y = Some t" "ty_set d (Some t) G = Some G'" using assms(1) written by fastforce
    then show ?thesis using MovX reg [of y t] set [of d] by fastforce
  next
    case (AddK d k)
    then obtain t u where t: "G d = Some t" "ty_add t TNum = Some u" "ty_set d (Some u) G = Some G'"
      using assms(1) written by (fastforce simp: bind_eq_Some_conv)
    then obtain v where v: "treg s d = Some v" "type_of v = t" using reg by blast
    obtain v' where "tag_add v (Num (scast k)) = Some v'" "type_of v' = u"
      using tag_add_typed [of v "Num (scast k)" u] t v by auto
    then show ?thesis using AddK t v set [of d v'] by auto
  next
    case (AddX d y)
    then obtain t t' u where t: "G d = Some t" "G y = Some t'" "ty_add t t' = Some u" "ty_set d (Some u) G = Some G'"
      using assms(1) written by (fastforce simp: bind_eq_Some_conv)
    then obtain v w where v: "treg s d = Some v" "type_of v = t" "treg s y = Some w" "type_of w = t'" using reg by blast
    obtain v' where "tag_add v w = Some v'" "type_of v' = u"
      using tag_add_typed [of v w u] t v by auto
    then show ?thesis using AddX t v set [of d v'] by auto
  next
    case (LoadB d y f)
    then have "G y = Some TPkt" "ty_set d (Some TNum) G = Some G'" using assms(1) by (auto split: if_splits)
    then obtain a where "treg s y = Some (Pkt a)" "ty_set d (Some TNum) G = Some G'" "d \<le> R9"
      using reg [of y] by (auto simp: type_of_inv ty_set_def split: if_splits)
    then show ?thesis using LoadB set [of d "Num (ucast (buf ! unat (a + scast f)))"] by (auto simp: Let_def)
  next
    case (LoadW d y f)
    then obtain t where t: "G y = Some TCtx" "ty_set d (Some t) G = Some G'"
      "(if f = 0 then Some TPkt else if f = 4 then Some TEnd else None) = Some t"
      using assms(1) written by (fastforce split: if_splits)
    then have "treg s y = Some Ctx" using reg [of y] by (auto simp: type_of_inv)
    then show ?thesis using LoadW t set [of d "Pkt 0"] set [of d End] by (auto split: if_splits)
  qed (use assms(3) in simp_all)
qed

lemma tag_move_typed:
  assumes "ty_op x G = Some G'" "G \<subseteq>\<^sub>m tenv_of s" "\<not> op_writes x"
  shows "(\<exists>s'. tag_op data buf x s = TContinue s' \<and> G' \<subseteq>\<^sub>m tenv_of s' \<and> tpc s' \<in> set (op_succs x (tpc s)))
    \<or> (\<exists>v. tag_op data buf x s = TExit v)"
proof -
  note reg = tenv_of_reg [OF assms(2)]
  have kept: "G \<subseteq>\<^sub>m tenv_of (s\<lparr>tpc := q\<rparr>)" for q
    using assms(2) by (simp add: tenv_of_def)
  show ?thesis
  proof (cases x)
    case (Ja f)
    then show ?thesis using assms(1) kept by (simp add: tag_jump_def)
  next
    case (JumpK c d k f)
    then have G: "G d = Some TNum" "G' = G" using assms(1) by (auto split: if_splits)
    then obtain v where "treg s d = Some (Num v)" using reg [of d] by (auto simp: type_of_inv)
    then show ?thesis using JumpK G kept by (simp add: tag_jump_def)
  next
    case (JgtX d y f)
    then have G: "G' = G" "G d = Some TNum \<and> G y = Some TNum \<or> G d = Some TPkt \<and> G y = Some TEnd"
      using assms(1) by (auto split: if_splits)
    then consider a b where "treg s d = Some (Num a)" "treg s y = Some (Num b)"
      | a where "treg s d = Some (Pkt a)" "treg s y = Some End"
      using reg [of d] reg [of y] by (fastforce simp: type_of_inv)
    then show ?thesis using JgtX G kept by cases (simp_all add: tag_jump_def)
  next
    case Exit
    then show ?thesis using assms(1) reg [of R0] by (fastforce simp: type_of_inv split: if_splits)
  qed (use assms(1,3) in simp_all)
qed

lemma op_succs_write: "op_writes x \<Longrightarrow> k + 1 \<in> set (op_succs x k)"
  by (cases x) simp_all

lemma tag_op_typed:
  assumes "ty_op x G = Some G'" "G \<subseteq>\<^sub>m tenv_of s"
  shows "(\<exists>s'. tag_op data buf x s = TContinue s' \<and> G' \<subseteq>\<^sub>m tenv_of s' \<and> tpc s' \<in> set (op_succs x (tpc s)))
    \<or> (\<exists>v. tag_op data buf x s = TExit v) \<or> tag_op data buf x s = Out_of_packet"
  using tag_write_typed [OF assms, of data buf] tag_move_typed [OF assms, of data buf] op_succs_write [of x "tpc s"]
  by (cases "op_writes x") auto

lemma wt_code_nth: "wt_code T len k is \<Longrightarrow> j < length is \<Longrightarrow> wt_insn T len (k + j) (is ! j)"
proof (induction "is" arbitrary: k j)
  case (Cons i "is")
  then show ?case using Cons.IH [of "Suc k" "j - 1"] by (cases j) auto
qed simp

lemma wt_code_append: "wt_code T len k (xs @ ys) \<longleftrightarrow> wt_code T len k xs \<and> wt_code T len (k + length xs) ys"
  by (induction xs arbitrary: k) auto

lemma typed_run_legal:
  assumes "wt_code T (length prog) 0 prog" "tpc s = int k" "k < length prog" "T k \<subseteq>\<^sub>m tenv_of s"
  shows "tag_run data buf prog n s \<noteq> Some Illegal"
  using assms(2-)
proof (induction n arbitrary: s k)
  case (Suc n)
  have insn: "wt_insn T (length prog) k (prog ! k)"
    using wt_code_nth [OF assms(1) Suc.prems(2)] by simp
  then obtain G where G: "ty_op (decode (prog ! k)) (T k) = Some G"
    "\<forall>q \<in> set (op_succs (decode (prog ! k)) (int k)). 0 \<le> q \<and> nat q < length prog \<and> T (nat q) \<subseteq>\<^sub>m G"
    by (auto simp: wt_insn_def list_all_iff split: option.splits)
  show ?case
    using tag_op_typed [OF G(1) Suc.prems(3), of data buf]
  proof (elim disjE exE conjE)
    fix s' assume s': "tag_op data buf (decode (prog ! k)) s = TContinue s'" "G \<subseteq>\<^sub>m tenv_of s'"
      "tpc s' \<in> set (op_succs (decode (prog ! k)) (tpc s))"
    then have "0 \<le> tpc s'" "nat (tpc s') < length prog" "T (nat (tpc s')) \<subseteq>\<^sub>m tenv_of s'"
      using G(2) Suc.prems(1) by (auto intro: map_le_trans)
    then have "tag_run data buf prog n s' \<noteq> Some Illegal"
      using Suc.IH [of s' "nat (tpc s')"] by simp
    then show ?thesis using Suc.prems s'(1) by simp
  qed (use Suc.prems in simp_all)
qed simp

lemma well_typed_run_legal:
  assumes "well_typed G prog" "tpc s = 0" "G \<subseteq>\<^sub>m tenv_of s"
  shows "tag_run data buf prog n s \<noteq> Some Illegal"
proof -
  obtain T where T: "prog \<noteq> []" "T 0 \<subseteq>\<^sub>m G" "wt_code T (length prog) 0 prog"
    using assms(1) by (auto simp: well_typed_def)
  show ?thesis
    by (rule typed_run_legal [OF T(3), of s 0]) (use assms(2,3) T(1,2) in \<open>auto intro: map_le_trans\<close>)
qed

section \<open>Typing the emitted code\<close>

lemma decode_emitted [simp]:
  "decode (ldx_mem BPF_B R7 R5 f) = LoadB R7 R5 f" "decode (ldx_mem BPF_W R2 R1 f) = LoadW R2 R1 f"
  "decode (ldx_mem BPF_W R3 R1 f) = LoadW R3 R1 f"
  "decode (alu64_imm BPF_MOV R0 k) = MovK R0 k" "decode (alu64_imm BPF_MOV R4 k) = MovK R4 k"
  "decode (alu64_imm BPF_ADD R4 k) = AddK R4 k" "decode (alu64_imm BPF_ADD R6 k) = AddK R6 k"
  "decode (alu64_reg BPF_MOV R5 R2) = MovX R5 R2" "decode (alu64_reg BPF_MOV R6 R5) = MovX R6 R5"
  "decode (alu64_reg BPF_ADD R5 R4) = AddX R5 R4"
  "decode (jmp_imm BPF_JNE R7 k f) = JumpK Ne R7 k f" "decode (jmp_imm BPF_JLT R7 k f) = JumpK Lt R7 k f"
  "decode (jmp_imm BPF_JLE R7 k f) = JumpK Le R7 k f" "decode (jmp_reg BPF_JGT R6 R3 f) = JgtX R6 R3 f"
  "decode (jmp_imm BPF_JA R0 0 f) = Ja f" "decode exit_insn = Exit"
  by (simp_all add: decode_def jump_macros bpf_opcodes)

lemma written_regs [simp]: "R0 \<le> R9" "R2 \<le> R9" "R3 \<le> R9" "R4 \<le> R9" "R5 \<le> R9" "R6 \<le> R9" "R7 \<le> R9"
  by (simp_all add: bpf_opcodes)

lemma nat_int_Suc: "nat (int k + 1) = Suc k" "nat (int k + 1 + int m) = Suc (k + m)"
  by simp_all

text \<open>Unchanged registers, and forgetting some.\<close>

lemma upd_map_le: "m \<subseteq>\<^sub>m n \<Longrightarrow> m r = None \<Longrightarrow> m \<subseteq>\<^sub>m n(r \<mapsto> v)"
  by (auto simp: map_le_def)

lemma wt_straight:
  assumes "ty_op (decode i) (T k) = Some G" "T (Suc k) \<subseteq>\<^sub>m G" "Suc k < len" "op_succs (decode i) (int k) = [int k + 1]"
  shows "wt_insn T len k i"
  using assms by (simp add: wt_insn_def nat_int_Suc)

lemma wt_branch:
  assumes "ty_op (decode i) (T k) = Some G" "T (Suc k) \<subseteq>\<^sub>m G" "T (Suc (k + m)) \<subseteq>\<^sub>m G" "Suc (k + m) < len" "m < 32768"
    and "op_succs (decode i) (int k) = [int k + 1, int k + 1 + sint (of_nat m :: i16)]"
  shows "wt_insn T len k i"
  using assms by (simp add: wt_insn_def sint_of_nat_16 nat_int_Suc)

lemma wt_goto:
  assumes "T (Suc (k + m)) \<subseteq>\<^sub>m T k" "Suc (k + m) < len" "m < 32768"
  shows "wt_insn T len k (jmp_imm BPF_JA R0 0 (of_nat m))"
  using assms by (simp add: wt_insn_def sint_of_nat_16 nat_int_Suc)

lemma wt_verdict:
  assumes "T (Suc k) = [R0 \<mapsto> TNum]" "Suc k < len"
  shows "wt_code T len k [alu64_imm BPF_MOV R0 c, exit_insn]"
  using assms by (auto simp: wt_insn_def nat_int_Suc ty_set_def map_le_def)

lemma wt_byte_checks:
  assumes "\<forall>j < length bs. T (k + 2 * j) = F \<and> T (Suc (k + 2 * j)) = F(R7 \<mapsto> TNum)"
    and "T (k + 2 * length bs) \<subseteq>\<^sub>m F" "T (k + 2 * length bs + skip) \<subseteq>\<^sub>m F"
    and "F R5 = Some TPkt" "F R7 = None" "k + 2 * length bs + skip < len" "len \<le> 32768"
  shows "wt_code T len k (byte_checks skip i bs)"
  using assms
proof (induction skip i bs arbitrary: k rule: byte_checks.induct)
  case (2 skip i b bs)
  have T: "T k = F" "T (Suc k) = F(R7 \<mapsto> TNum)"
    using 2(2) [rule_format, of 0] by simp_all
  have next_le: "T (Suc (Suc k)) \<subseteq>\<^sub>m F"
    using 2(2) [rule_format, of 1] 2(3) by (cases bs) simp_all
  have grow: "m \<subseteq>\<^sub>m F \<Longrightarrow> m \<subseteq>\<^sub>m F(R7 \<mapsto> TNum)" for m
    using 2(6) by (auto simp: map_le_def dom_def)
  have load: "wt_insn T len k (ldx_mem BPF_B R7 R5 (of_nat i))"
    by (rule wt_straight [where G = "F(R7 \<mapsto> TNum)"]) (use 2 T in \<open>simp_all add: ty_set_def\<close>)
  have jump: "wt_insn T len (Suc k) (jmp_imm BPF_JNE R7 (ucast b) (of_nat (2 * length bs + skip)))"
    by (rule wt_branch [where G = "F(R7 \<mapsto> TNum)" and m = "2 * length bs + skip"])
      (use 2 T grow [OF next_le] grow [OF 2(4)] in \<open>simp_all add: add.commute add.left_commute\<close>)
  have "wt_code T len (Suc (Suc k)) (byte_checks skip (Suc i) bs)"
  proof (rule 2(1))
    show "\<forall>j < length bs. T (Suc (Suc k) + 2 * j) = F \<and> T (Suc (Suc (Suc k) + 2 * j)) = F(R7 \<mapsto> TNum)"
      using 2(2) [rule_format, of "Suc _"] by simp
  qed (use 2 in simp_all)
  with load jump show ?case by simp
qed simp


definition scan_env :: tenv where
  "scan_env = [R2 \<mapsto> TPkt, R3 \<mapsto> TEnd, R4 \<mapsto> TNum]"

definition check_env :: tenv where
  "check_env = scan_env(R5 \<mapsto> TPkt, R6 \<mapsto> TPkt)"

definition literal_typing :: "nat \<Rightarrow> nat \<Rightarrow> tenv" where
  "literal_typing n k =
     (if k = 0 then [R1 \<mapsto> TCtx] else if k = 1 then [R1 \<mapsto> TCtx, R2 \<mapsto> TPkt]
      else if k = 2 then [R2 \<mapsto> TPkt, R3 \<mapsto> TEnd] else if k = 3 then scan_env
      else if k = 4 \<or> k = 5 then scan_env(R5 \<mapsto> TPkt)
      else if k < 8 + 2 * n \<and> odd k \<and> 8 \<le> k then check_env(R7 \<mapsto> TNum)
      else if k = 9 + 2 * n \<or> k = 13 + 2 * n then [R0 \<mapsto> TNum]
      else check_env)"

lemmas env_defs = scan_env_def check_env_def map_le_def ty_set_def

lemma literal_program_typed:
  assumes "length pattern \<le> 1024"
  shows "wt_code (literal_typing (length pattern)) (length (literal_program pattern)) 0 (literal_program pattern)"
proof -
  let ?n = "length pattern"
  let ?T = "literal_typing ?n" and ?len = "14 + 2 * ?n"
  have head: "wt_code ?T ?len 0 [ldx_mem BPF_W R2 R1 0, ldx_mem BPF_W R3 R1 4, alu64_imm BPF_MOV R4 0,
       alu64_reg BPF_MOV R5 R2, alu64_reg BPF_ADD R5 R4, alu64_reg BPF_MOV R6 R5, alu64_imm BPF_ADD R6 (of_nat ?n)]"
    by (simp add: wt_insn_def literal_typing_def env_defs)
  have bound: "wt_insn ?T ?len 7 (jmp_reg BPF_JGT R6 R3 (of_nat (4 + 2 * ?n)))"
    by (rule wt_branch [where m = "4 + 2 * ?n" and G = check_env]) (use assms in \<open>simp_all add: literal_typing_def env_defs\<close>)
  have checks: "wt_code ?T ?len 8 (byte_checks 2 0 pattern)"
    by (rule wt_byte_checks [where F = check_env]) (use assms in \<open>simp_all add: literal_typing_def env_defs\<close>)
  have loop_back: "wt_insn ?T ?len (11 + 2 * ?n) (jmp_imm BPF_JA R0 0 (- of_nat (2 * ?n + 9)))"
    using assms sint_neg_of_nat_16 [of "2 * ?n + 9"] by (simp add: wt_insn_def literal_typing_def env_defs)
  have match: "wt_code ?T ?len (8 + 2 * ?n) [alu64_imm BPF_MOV R0 1, exit_insn]"
    and fail: "wt_code ?T ?len (12 + 2 * ?n) [alu64_imm BPF_MOV R0 0, exit_insn]"
    by (rule wt_verdict; simp add: literal_typing_def)+
  have advance: "wt_insn ?T ?len (10 + 2 * ?n) (alu64_imm BPF_ADD R4 1)"
    by (rule wt_straight [where G = check_env]) (simp_all add: literal_typing_def env_defs fun_eq_iff)
  show ?thesis
    unfolding length_literal_program unfolding literal_program_def Let_def
    using head bound checks loop_back match fail advance by (simp add: wt_code_append eval_nat_numeral)
qed

subsection \<open>Classes and alternations\<close>

definition byte_env :: tenv where
  "byte_env = [R7 \<mapsto> TNum]"

definition class_typing :: "nat \<Rightarrow> nat \<Rightarrow> tenv" where
  "class_typing n k = (if k = 2 * n + 1 \<or> k = 2 * n + 3 then [R0 \<mapsto> TNum] else byte_env)"

lemma byte_env_R7: "byte_env R7 = Some TNum"
  by (simp add: byte_env_def)

lemma wt_class_code:
  assumes "\<forall>j \<le> 2 * length rs. T (k + j) = byte_env" "T (k + 2 * length rs + 2) = byte_env"
    and "k + 2 * length rs + 2 < len" "len \<le> 32768"
  shows "wt_code T len k (class_code rs)"
  using assms
proof (induction rs arbitrary: k)
  case (Cons r rs)
  have T: "T k = byte_env" "T (Suc k) = byte_env" "T (Suc (Suc k)) = byte_env"
    using Cons.prems(1) [rule_format, of 0] Cons.prems(1) [rule_format, of 1] Cons.prems(1) [rule_format, of 2] by simp_all
  have below: "wt_insn T len k (jmp_imm BPF_JLT R7 (ucast (lo r)) 1)"
    by (rule wt_branch [where m = 1 and G = "byte_env"]) (use Cons.prems T byte_env_R7 in simp_all)
  have above: "wt_insn T len (Suc k) (jmp_imm BPF_JLE R7 (ucast (hi r)) (of_nat (2 * length rs + 2)))"
    by (rule wt_branch [where m = "2 * length rs + 2" and G = "byte_env"]) (use Cons.prems T byte_env_R7 in \<open>simp_all add: add.commute\<close>)
  have "wt_code T len (Suc (Suc k)) (class_code rs)"
  proof (rule Cons.IH)
    show "\<forall>j \<le> 2 * length rs. T (Suc (Suc k) + j) = byte_env"
      using Cons.prems(1) [rule_format, of "Suc (Suc _)"] by simp
  qed (use Cons.prems in simp_all)
  with below above show ?case by simp
qed simp

lemma class_program_typed:
  assumes "length rs \<le> 2046"
  shows "wt_code (class_typing (length rs)) (length (class_program rs)) 0 (class_program rs)"
proof -
  let ?T = "class_typing (length rs)" and ?len = "4 + 2 * length rs"
  have "wt_code ?T ?len 0 (class_code rs)"
    by (rule wt_class_code) (use assms in \<open>simp_all add: class_typing_def\<close>)
  moreover have "wt_code ?T ?len (2 * length rs) [alu64_imm BPF_MOV R0 0, exit_insn]"
    "wt_code ?T ?len (2 * length rs + 2) [alu64_imm BPF_MOV R0 1, exit_insn]"
    by (rule wt_verdict; simp add: class_typing_def)+
  ultimately show ?thesis
    unfolding length_class_program unfolding class_program_def by (simp add: wt_code_append)
qed

definition alt_env :: tenv where
  "alt_env = [R3 \<mapsto> TEnd, R5 \<mapsto> TPkt]"

fun alts_typing :: "u8 list list \<Rightarrow> nat \<Rightarrow> tenv" where
  "alts_typing [] k = (if odd k then [R0 \<mapsto> TNum] else alt_env)"
| "alts_typing (a # as) k =
     (if k \<ge> 4 + 2 * length a then alts_typing as (k - (4 + 2 * length a))
      else if k = 0 then alt_env
      else if k \<ge> 4 \<and> even k then alt_env(R6 \<mapsto> TPkt, R7 \<mapsto> TNum)
      else alt_env(R6 \<mapsto> TPkt))"

lemma alts_typing_entry: "alts_typing as 0 = alt_env"
  by (cases as) simp_all

lemma alts_typing_tail: "alts_typing as (alts_size as + k) = alts_typing [] k"
  by (induction as arbitrary: k) (simp_all add: add.assoc)

lemma wt_alts_code:
  assumes "\<forall>j. T (k + j) = alts_typing as j" "len = k + alts_size as + 4" "len \<le> 32768"
  shows "wt_code T len k (alts_code True True True as)"
  using assms
proof (induction as arbitrary: k)
  case (Cons a as)
  note T = Cons.prems(1) [rule_format]
  let ?F = "alt_env(R6 \<mapsto> TPkt)" and ?after = "k + (4 + 2 * length a)"
  have env: "?F R3 = Some TEnd" "?F R5 = Some TPkt" "?F R6 = Some TPkt" "?F R7 = None" "alt_env \<subseteq>\<^sub>m ?F"
    by (auto simp: alt_env_def map_le_def)
  have next_env: "T ?after = alt_env" "T (?after + j) = alts_typing as j" for j
    using T [of "4 + 2 * length a"] T [of "4 + 2 * length a + j"] by (simp_all add: alts_typing_entry add.assoc)
  have success: "T (?after + alts_size as + 2) = alt_env"
    using next_env(2) [of "alts_size as + 2"] alts_typing_tail [of as 2] by (simp add: add.assoc)
  have first: "T k = alt_env" "T (Suc k) = ?F" "T (Suc (Suc k)) = ?F" "T (Suc (Suc (Suc k))) = ?F"
    using T [of 0] T [of 1] T [of 2] T [of 3] by (simp_all add: numeral_3_eq_3)
  have last: "T (k + 3 + 2 * length a) = ?F"
    using T [of "3 + 2 * length a"] by (simp add: add.assoc)
  have move: "wt_insn T len k (alu64_reg BPF_MOV R6 R5)" "wt_insn T len (Suc k) (alu64_imm BPF_ADD R6 (ucast (slice_len a)))"
    by (rule wt_straight [where G = ?F], use Cons.prems(2) first in \<open>simp_all add: ty_set_def alt_env_def\<close>)+
  have bound: "wt_insn T len (Suc (Suc k)) (jmp_reg BPF_JGT R6 R3 (of_nat (2 * length a + 1)))"
  proof (rule wt_branch [where m = "2 * length a + 1" and G = ?F])
    show "T (Suc (Suc (Suc k) + (2 * length a + 1))) \<subseteq>\<^sub>m ?F"
      using next_env(1) env(5) by (simp add: numeral_eq_Suc)
  qed (use Cons.prems(2,3) first env in simp_all)
  have checks: "wt_code T len (k + 3) (byte_checks 1 0 a)"
  proof (rule wt_byte_checks [where F = ?F])
    show "\<forall>j < length a. T (k + 3 + 2 * j) = ?F \<and> T (Suc (k + 3 + 2 * j)) = ?F(R7 \<mapsto> TNum)"
      using T [of "3 + 2 * _"] T [of "4 + 2 * _"] by (simp add: add.assoc add.left_commute [of k])
    show "T (k + 3 + 2 * length a + 1) \<subseteq>\<^sub>m ?F"
      using next_env(1) env(5) by (simp add: numeral_eq_Suc)
  qed (use Cons.prems(2,3) last env in simp_all)
  have match: "wt_insn T len (k + 3 + 2 * length a) (jmp_imm BPF_JA R0 0 (of_nat (alts_size as + 2)))"
  proof (rule wt_goto)
    have "Suc (k + 3 + 2 * length a + (alts_size as + 2)) = ?after + alts_size as + 2"
      by simp
    then show "T (Suc (k + 3 + 2 * length a + (alts_size as + 2))) \<subseteq>\<^sub>m T (k + 3 + 2 * length a)"
      unfolding last using success env(5) by simp
  qed (use Cons.prems(2,3) in simp_all)
  have "wt_code T len ?after (alts_code True True True as)"
    by (rule Cons.IH) (use Cons.prems(2,3) next_env(2) in simp_all)
  then show ?case
    using move bound checks match by (simp add: alt_block_def alt_checks_True wt_code_append eval_nat_numeral)
qed simp

lemma alternation_program_typed:
  assumes "4 + alts_size as \<le> 4096"
  shows "wt_code (alts_typing as) (length (alternation_program as)) 0 (alternation_program as)"
proof -
  let ?len = "4 + alts_size as"
  have "wt_code (alts_typing as) ?len 0 (alts_code True True True as)"
    by (rule wt_alts_code) (use assms in simp_all)
  moreover have "wt_code (alts_typing as) ?len (alts_size as) [alu64_imm BPF_MOV R0 0, exit_insn]"
    "wt_code (alts_typing as) ?len (alts_size as + 2) [alu64_imm BPF_MOV R0 1, exit_insn]"
    by (rule wt_verdict; use alts_typing_tail [of as 1] alts_typing_tail [of as 3] in \<open>simp add: numeral_3_eq_3\<close>)+
  ultimately show ?thesis
    unfolding length_alternation_program unfolding alternation_program_def by (simp add: wt_code_append)
qed

section \<open>Compiled programs are well typed\<close>

lemma constant_program_typed: "well_typed G [alu64_imm BPF_MOV R0 k, exit_insn]"
  using wt_verdict [of "\<lambda>k. if k = 0 then Map.empty else [R0 \<mapsto> TNum]" 0 2 k]
  by (auto simp: well_typed_def numeral_2_eq_2 intro!: exI [of _ "\<lambda>k. if k = 0 then Map.empty else [R0 \<mapsto> TNum]"])

lemma well_typedI: "prog \<noteq> [] \<Longrightarrow> T 0 \<subseteq>\<^sub>m G \<Longrightarrow> wt_code T (length prog) 0 prog \<Longrightarrow> well_typed G prog"
  unfolding well_typed_def by blast

lemma literal_filter_typed:
  assumes "length pattern \<le> 1024"
  shows "well_typed [R1 \<mapsto> TCtx] (literal_filter pattern)"
proof (cases "pattern = []")
  case True
  show ?thesis
    by (rule well_typedI [where T = "\<lambda>k. if k \<le> 1 then [R1 \<mapsto> TCtx] else if k = 2 then Map.empty else [R0 \<mapsto> TNum]"])
      (auto simp: True literal_filter_def wt_insn_def ty_set_def map_le_def)
next
  case False
  then show ?thesis
    using literal_program_typed [OF assms]
    by (intro well_typedI [where T = "literal_typing (length pattern)"])
      (auto simp: literal_filter_def literal_typing_def simp flip: length_greater_0_conv)
qed

lemma class_program_well_typed: "length rs \<le> 2046 \<Longrightarrow> well_typed [R7 \<mapsto> TNum] (class_program rs)"
  by (rule well_typedI [OF _ _ class_program_typed])
    (auto simp: class_typing_def byte_env_def simp flip: length_greater_0_conv)

lemma alternation_program_well_typed:
  "4 + alts_size as \<le> 4096 \<Longrightarrow> well_typed [R3 \<mapsto> TEnd, R5 \<mapsto> TPkt] (alternation_program as)"
  by (rule well_typedI [OF _ _ alternation_program_typed])
    (auto simp: alts_typing_entry alt_env_def simp flip: length_greater_0_conv)

lemma compiled_well_typed:
  "(length pattern < 2 ^ 62 \<longrightarrow> compile_literal_search pattern = Some (Ok prog) \<longrightarrow> well_typed [R1 \<mapsto> TCtx] prog)
   \<and> (length rs < 2 ^ 62 \<longrightarrow> compile_char_class rs = Some (Ok prog) \<longrightarrow> well_typed [R7 \<mapsto> TNum] prog)
   \<and> (length cls < 2 ^ 61 \<longrightarrow> compile_character_class cls = Some (Ok prog) \<longrightarrow> well_typed [R7 \<mapsto> TNum] prog)
   \<and> (alts_size as < 2 ^ 62 \<longrightarrow> compile_alternation as = Some (Ok prog) \<longrightarrow>
        well_typed [R3 \<mapsto> TEnd, R5 \<mapsto> TPkt] prog)"
proof (intro conjI impI)
  assume "length pattern < 2 ^ 62" "compile_literal_search pattern = Some (Ok prog)"
  then show "well_typed [R1 \<mapsto> TCtx] prog"
    using compile_literal_search_small [of pattern] compile_literal_search_large [of pattern]
    by (cases "length pattern \<le> 1024") (auto simp: literal_filter_typed)
next
  assume "length rs < 2 ^ 62" "compile_char_class rs = Some (Ok prog)"
  then show "well_typed [R7 \<mapsto> TNum] prog"
    by (auto simp: compile_char_class_eq class_program_well_typed simp del: fun_upd_apply split: if_splits)
next
  assume "length cls < 2 ^ 61" "compile_character_class cls = Some (Ok prog)"
  then show "well_typed [R7 \<mapsto> TNum] prog"
    by (auto simp: compile_character_class_eq class_program_well_typed constant_program_typed
        split: if_splits sum.splits)
next
  assume "alts_size as < 2 ^ 62" "compile_alternation as = Some (Ok prog)"
  then show "well_typed [R3 \<mapsto> TEnd, R5 \<mapsto> TPkt] prog"
    by (auto simp: compile_alternation_eq alternation_program_well_typed constant_program_typed split: if_splits)
qed

section \<open>Erasing the tags\<close>

fun untag :: "u64 \<Rightarrow> nat \<Rightarrow> tval \<Rightarrow> u64" where
  "untag data len (Num v) = v"
| "untag data len Ctx = 0"
| "untag data len (Pkt a) = data + a"
| "untag data len End = data + of_nat len"

definition packet_ld8 :: "u64 \<Rightarrow> u8 list \<Rightarrow> u64 \<Rightarrow> u8 option" where
  "packet_ld8 data buf a = get_index buf (unat (a - data))"

definition packet_ld32 :: "u64 \<Rightarrow> u8 list \<Rightarrow> u64 \<Rightarrow> u64 option" where
  "packet_ld32 data buf a = (if a = 0 then Some data else if a = 4 then Some (data + of_nat (length buf)) else None)"

definition erases :: "u64 \<Rightarrow> nat \<Rightarrow> tag_state \<Rightarrow> bpf_state \<Rightarrow> bool" where
  "erases data len s b \<longleftrightarrow> pc b = tpc s \<and> (\<forall>r v. treg s r = Some v \<longrightarrow> rf b r = untag data len v)"

text \<open>The untyped machine, instruction by instruction of the decoded syntax.\<close>

fun op_step :: "(u64 \<Rightarrow> u8 option) \<Rightarrow> (u64 \<Rightarrow> u64 option) \<Rightarrow> op \<Rightarrow> bpf_state \<Rightarrow> outcome" where
  "op_step ld8 ld32 (MovK d k) s = (if d \<le> R9 then Continue (set_reg d (scast k) s) else Fault)"
| "op_step ld8 ld32 (MovX d x) s = (if d \<le> R9 then Continue (set_reg d (rf s x) s) else Fault)"
| "op_step ld8 ld32 (AddK d k) s = (if d \<le> R9 then Continue (set_reg d (rf s d + scast k) s) else Fault)"
| "op_step ld8 ld32 (AddX d x) s = (if d \<le> R9 then Continue (set_reg d (rf s d + rf s x) s) else Fault)"
| "op_step ld8 ld32 (LoadB d x f) s =
     (if d \<le> R9 then load_reg d (map_option ucast (ld8 (rf s x + scast f))) s else Fault)"
| "op_step ld8 ld32 (LoadW d x f) s = (if d \<le> R9 then load_reg d (ld32 (rf s x + scast f)) s else Fault)"
| "op_step ld8 ld32 (Ja f) s = Continue (s\<lparr>pc := pc s + 1 + sint f\<rparr>)"
| "op_step ld8 ld32 (JumpK c d k f) s =
     Continue (s\<lparr>pc := pc s + 1 + (if compare_k c (rf s d) (scast k) then sint f else 0)\<rparr>)"
| "op_step ld8 ld32 (JgtX d x f) s =
     Continue (s\<lparr>pc := pc s + 1 + (if rf s d > rf s x then sint f else 0)\<rparr>)"
| "op_step ld8 ld32 Exit s = Exited (rf s R0)"
| "op_step ld8 ld32 Unknown s = Fault"

lemma bpf_step_decode: "bpf_step ld8 ld32 i s = op_step ld8 ld32 (decode i) s"
  by (simp add: bpf_step_def decode_def jump_if_def operand_addr_def Let_def)

lemma erases_set:
  "erases data len s b \<Longrightarrow> y = untag data len v \<Longrightarrow>
     erases data len (s\<lparr>tpc := tpc s + 1, treg := (treg s)(r \<mapsto> v)\<rparr>) (set_reg r y b)"
  by (auto simp: erases_def set_reg_def)

lemma erases_jump: "erases data len s b \<Longrightarrow> erases data len (s\<lparr>tpc := tpc s + k\<rparr>) (b\<lparr>pc := pc b + k\<rparr>)"
  by (auto simp: erases_def)

lemma tag_add_untag: "tag_add v w = Some u \<Longrightarrow> untag data len u = untag data len v + untag data len w"
  by (cases v; cases w) auto

lemma tag_set_Continue: "tag_set r v s = TContinue s' \<longleftrightarrow>
    (\<exists>x. v = Some x \<and> r \<le> R9 \<and> s' = s\<lparr>tpc := tpc s + 1, treg := (treg s)(r \<mapsto> x)\<rparr>)"
  by (auto simp: tag_set_def split: option.splits if_splits)

lemma tag_set_stops [simp]: "tag_set r v s \<noteq> TExit x" "tag_set r v s \<noteq> Out_of_packet"
  by (auto simp: tag_set_def split: option.splits)

lemma scast_four [simp]: "(scast (4 :: i16) :: u64) = 4" "(scast (0 :: i16) :: u64) = 0"
  by (simp_all add: scast_eq)

lemma tag_op_continues:
  assumes "erases data (length buf) s b" "tag_op data buf x s = TContinue s'"
  shows "\<exists>b'. op_step (packet_ld8 data buf) (packet_ld32 data buf) x b = Continue b' \<and> erases data (length buf) s' b'"
proof -
  have reg: "rf b r = untag data (length buf) v" if "treg s r = Some v" for r v
    using assms(1) that by (simp add: erases_def)
  note set = erases_set [OF assms(1)]
  note jump = erases_jump [OF assms(1), folded add.assoc]
  show ?thesis
  proof (cases x)
    case (AddK d k)
    then show ?thesis
      using assms(2) by (auto simp: tag_set_Continue bind_eq_Some_conv reg dest!: tag_add_untag [of _ _ _ data "length buf"] intro!: set)
  next
    case (AddX d y)
    then show ?thesis
      using assms(2) by (auto simp: tag_set_Continue bind_eq_Some_conv reg dest!: tag_add_untag [of _ _ _ data "length buf"] intro!: set)
  next
    case (LoadB d y f)
    then show ?thesis
      using assms(2) by (auto simp: tag_set_Continue reg load_reg_def packet_ld8_def get_index_def Let_def
          add.assoc intro!: set split: option.splits tval.splits if_splits)
  next
    case (LoadW d y f)
    then show ?thesis
      using assms(2) by (auto simp: tag_set_Continue reg load_reg_def packet_ld32_def
          intro!: set split: option.splits tval.splits if_splits)
  qed (use assms(2) jump in \<open>auto simp: tag_set_Continue reg tag_jump_def add.assoc
        intro!: set split: option.splits tval.splits\<close>)
qed

lemma tag_op_stops:
  assumes "erases data (length buf) s b"
  shows "tag_op data buf x s = TExit v \<Longrightarrow> op_step (packet_ld8 data buf) (packet_ld32 data buf) x b = Exited v"
    and "tag_op data buf x s = Out_of_packet \<Longrightarrow> op_step (packet_ld8 data buf) (packet_ld32 data buf) x b = Fault"
proof -
  have reg: "rf b r = untag data (length buf) v" if "treg s r = Some v" for r v
    using assms that by (simp add: erases_def)
  show "tag_op data buf x s = TExit v \<Longrightarrow> op_step (packet_ld8 data buf) (packet_ld32 data buf) x b = Exited v"
    by (cases x) (auto simp: reg tag_jump_def Let_def split: option.splits tval.splits if_splits)
  show "tag_op data buf x s = Out_of_packet \<Longrightarrow> op_step (packet_ld8 data buf) (packet_ld32 data buf) x b = Fault"
    by (cases x) (auto simp: reg tag_jump_def load_reg_def packet_ld8_def get_index_def Let_def add.assoc
        split: option.splits tval.splits if_splits)
qed

text \<open>A legal run on the tagged machine exits where the untyped one does.\<close>

lemma tag_run_erases:
  assumes "erases data (length buf) s b" "tag_run data buf prog n s \<noteq> Some Illegal"
    and "bpf_run (bpf_step (packet_ld8 data buf) (packet_ld32 data buf)) prog n b = Some (Exited v)"
  shows "tag_run data buf prog n s = Some (TExit v)"
  using assms
proof (induction n arbitrary: s b)
  case (Suc n)
  let ?x = "decode (prog ! nat (tpc s))"
  have pc: "pc b = tpc s" "0 \<le> tpc s" "nat (tpc s) < length prog"
    using Suc.prems(1,3) by (auto simp: erases_def split: if_splits)
  show ?case
  proof (cases "tag_op data buf ?x s")
    case (TContinue s')
    then obtain b' where b': "op_step (packet_ld8 data buf) (packet_ld32 data buf) ?x b = Continue b'"
      "erases data (length buf) s' b'"
      using tag_op_continues [OF Suc.prems(1)] by blast
    have "tag_run data buf prog n s' = Some (TExit v)"
      by (rule Suc.IH [OF b'(2)]) (use Suc.prems(2,3) pc TContinue b'(1) in \<open>simp_all add: bpf_step_decode\<close>)
    then show ?thesis using pc TContinue by simp
  qed (use Suc.prems pc tag_op_stops [OF Suc.prems(1), of ?x] in \<open>simp_all add: bpf_step_decode\<close>)
qed simp

definition erase_state :: "u64 \<Rightarrow> nat \<Rightarrow> tag_state \<Rightarrow> bpf_state" where
  "erase_state data len s = \<lparr>pc = tpc s, rf = (\<lambda>r. case treg s r of None \<Rightarrow> 0 | Some v \<Rightarrow> untag data len v)\<rparr>"

lemma erase_state_erases: "erases data len s (erase_state data len s)"
  by (simp add: erases_def erase_state_def)

lemma packet_mem_at: "length buf < 2 ^ 64 \<Longrightarrow> mem_at (packet_ld8 data buf) (data + of_nat a) (drop a buf)"
  by (auto simp: mem_at_def packet_ld8_def get_index_def add.assoc unat_of_nat simp flip: of_nat_add)

lemma well_typed_erases:
  assumes "well_typed G prog" "tpc s = 0" "G \<subseteq>\<^sub>m tenv_of s"
    and "bpf_run (bpf_step (packet_ld8 data buf) (packet_ld32 data buf)) prog n (erase_state data (length buf) s) = Some (Exited v)"
  shows "tag_run data buf prog n s = Some (TExit v)"
  using tag_run_erases [OF erase_state_erases well_typed_run_legal [OF assms(1-3)] assms(4)] .

lemma tagged_literal:
  assumes "length pattern < 2 ^ 62" "compile_literal_search pattern = Some (Ok prog)"
    and "unat data + length buf + length pattern < 2 ^ 64" "Suc (length buf) * (2 * length pattern + 7) + 3 \<le> fuel"
  shows "tag_run data buf prog fuel \<lparr>tpc = 0, treg = [R1 \<mapsto> Ctx]\<rparr> = Some (TExit (if sublist pattern buf then 1 else 0))"
proof (rule well_typed_erases [where G = "[R1 \<mapsto> TCtx]"])
  have prog: "length pattern \<le> 1024" "prog = literal_filter pattern"
    using assms(1,2) compile_literal_search_small [of pattern] compile_literal_search_large [of pattern]
    by (cases "length pattern \<le> 1024"; simp)+
  show "bpf_run (bpf_step (packet_ld8 data buf) (packet_ld32 data buf)) prog fuel
      (erase_state data (length buf) \<lparr>tpc = 0, treg = [R1 \<mapsto> Ctx]\<rparr>) = Some (Exited (if sublist pattern buf then 1 else 0))"
    unfolding prog(2)
    by (rule bpf_vm.literal_filter_exits [OF prog(1) _ assms(3)])
      (use assms packet_mem_at [of buf data 0] in \<open>simp_all add: erase_state_def packet_ld32_def\<close>)
qed (use assms compiled_well_typed in \<open>auto simp: tenv_of_def map_le_def\<close>)

lemma tagged_alternation:
  assumes "alts_size as < 2 ^ 62" "compile_alternation as = Some (Ok prog)"
    and "\<forall>x \<in> set as. unat data + length buf + length x < 2 ^ 64" "unat data + length buf < 2 ^ 64"
    and "a \<le> length buf" "length prog \<le> fuel"
  shows "tag_run data buf prog fuel \<lparr>tpc = 0, treg = [R3 \<mapsto> End, R5 \<mapsto> Pkt (of_nat a)]\<rparr>
    = Some (TExit (if \<exists>x \<in> set as. prefix x (drop a buf) then 1 else 0))"
proof (rule well_typed_erases [where G = "[R3 \<mapsto> TEnd, R5 \<mapsto> TPkt]"])
  have addr: "unat (data + of_nat a) = unat data + a"
    using assms(4,5) by (simp add: unat_word_ariths unat_of_nat)
  show "bpf_run (bpf_step (packet_ld8 data buf) (packet_ld32 data buf)) prog fuel
      (erase_state data (length buf) \<lparr>tpc = 0, treg = [R3 \<mapsto> End, R5 \<mapsto> Pkt (of_nat a)]\<rparr>)
    = Some (Exited (if \<exists>x \<in> set as. prefix x (drop a buf) then 1 else 0))"
    by (rule compiled_alternation_exits [OF bpf_vm.isa_filter_axioms assms(1,2)])
      (use assms packet_mem_at [of buf data a] addr in \<open>simp_all add: erase_state_def of_nat_diff\<close>)
qed (use assms compiled_well_typed in \<open>auto simp: tenv_of_def map_le_def\<close>)

section \<open>Properties\<close>

text \<open>
  C15: every program a compile function returns is well typed: literal filters from a context
  in R1 alone, alternations from the packet's end in R3 and the scan position in R5, classes
  from a number in R7. It reads no unwritten register, follows only pointers, compares only
  comparable values and returns a number.
\<close>

theorem compiled_programs_well_typed:
  "(length pattern < 2 ^ 62 \<longrightarrow> compile_literal_search pattern = Some (Ok prog) \<longrightarrow> well_typed [R1 \<mapsto> TCtx] prog)
   \<and> (length rs < 2 ^ 62 \<longrightarrow> compile_char_class rs = Some (Ok prog) \<longrightarrow> well_typed [R7 \<mapsto> TNum] prog)
   \<and> (length cls < 2 ^ 61 \<longrightarrow> compile_character_class cls = Some (Ok prog) \<longrightarrow> well_typed [R7 \<mapsto> TNum] prog)
   \<and> (alts_size as < 2 ^ 62 \<longrightarrow> compile_alternation as = Some (Ok prog) \<longrightarrow>
        well_typed [R3 \<mapsto> TEnd, R5 \<mapsto> TPkt] prog)"
  by (rule compiled_well_typed)

theorem compiled_programs_well_typed_witness:
  "compile_literal_search [0x41] = Some (Ok (literal_filter [0x41])) \<and> well_typed [R1 \<mapsto> TCtx] (literal_filter [0x41])"
  using compiled_programs_well_typed [of "[0x41]" "literal_filter [0x41]"] compile_literal_search_small [of "[0x41]"]
  by simp

text \<open>
  C16: type soundness on the packet. On the tagged machine, where a number is not a pointer, an
  unwritten register has no value and a load outside the packet stops the run, the compiled
  literal filter started with nothing but its context exits with 1 exactly if the pattern
  occurs, and the compiled alternation started at any position of the packet exits with 1
  exactly if an alternative is a prefix of what follows.
\<close>

theorem compiled_filters_run_typed:
  "(length pattern < 2 ^ 62 \<and> compile_literal_search pattern = Some (Ok prog)
      \<and> unat data + length buf + length pattern < 2 ^ 64 \<and> Suc (length buf) * (2 * length pattern + 7) + 3 \<le> fuel \<longrightarrow>
     tag_run data buf prog fuel \<lparr>tpc = 0, treg = [R1 \<mapsto> Ctx]\<rparr> = Some (TExit (if sublist pattern buf then 1 else 0)))
   \<and> (alts_size as < 2 ^ 62 \<and> compile_alternation as = Some (Ok prog) \<and> unat data + length buf < 2 ^ 64
      \<and> (\<forall>x \<in> set as. unat data + length buf + length x < 2 ^ 64) \<and> a \<le> length buf \<and> length prog \<le> fuel \<longrightarrow>
     tag_run data buf prog fuel \<lparr>tpc = 0, treg = [R3 \<mapsto> End, R5 \<mapsto> Pkt (of_nat a)]\<rparr>
       = Some (TExit (if \<exists>x \<in> set as. prefix x (drop a buf) then 1 else 0)))"
  using tagged_literal [of pattern prog data buf fuel] tagged_alternation [of as prog data buf a fuel] by blast

theorem compiled_filters_run_typed_witness:
  "tag_run 0x1000 [0x41, 0x42] (literal_filter [0x42]) 30 \<lparr>tpc = 0, treg = [R1 \<mapsto> Ctx]\<rparr> = Some (TExit 1)"
  using compiled_filters_run_typed [of "[0x42]" "literal_filter [0x42]" "0x1000" "[0x41, 0x42]" 30 "[]" 0]
    compile_literal_search_small [of "[0x42]"]
  by (simp add: sublist_Cons_right)

end
