(* ===== verification/Os.thy ===== *)
theory Os
  imports Rust_Str Assembler
begin

text \<open>
  The process and its kernel, as the loader sees them. Every system call, every access to
  the shared ring-buffer pages and every line written to standard error is an event; what
  the kernel answers is a function of the events so far and the call, a parameter of the
  model about which nothing is assumed unless a theorem says so. \<open>std::io::Error\<close> and the
  \<open>repr(C)\<close> attribute structures of the \<open>bpf\<close> system call are modelled here, with the
  process state that the loader keeps across calls (the cached page size, the once-only
  warning). Pointer fields of the attribute structures carry the memory they point to.
\<close>

section \<open>Attribute structures\<close>

text \<open>The size of a \<open>repr(C)\<close> structure, from its fields' sizes; every field is aligned to its element size.\<close>

fun repr_c_end :: "nat \<Rightarrow> (nat \<times> nat) list \<Rightarrow> nat" where
  "repr_c_end pos [] = pos"
| "repr_c_end pos ((sz, align) # fs) = repr_c_end ((pos + align - 1) div align * align + sz) fs"

definition repr_c_size :: "(nat \<times> nat) list \<Rightarrow> usize" where
  "repr_c_size fs = of_nat (let a = foldr max (map snd fs) 1 in (repr_c_end 0 fs + a - 1) div a * a)"

abbreviation f_u32 :: "nat \<times> nat" where "f_u32 \<equiv> (4, 4)"
abbreviation f_u64 :: "nat \<times> nat" where "f_u64 \<equiv> (8, 8)"
abbreviation f_name :: "nat \<times> nat" where "f_name \<equiv> (16, 1)"

text \<open>
  \<open>BpfAttrMapCreate\<close>, \<open>BpfAttrObjInfoByFd\<close> and \<open>BpfMapInfo\<close> of \<open>ringbuf.rs\<close>. The
  output pointer \<open>info\<close> of the second is the \<open>out_info\<close> of the call's result.
\<close>

record bpf_attr_map_create =
  mc_map_type :: u32
  mc_key_size :: u32
  mc_value_size :: u32
  mc_max_entries :: u32
  mc_map_flags :: u32
  mc_inner_map_fd :: u32
  mc_numa_node :: u32
  mc_map_name :: "u8 list"
  mc_map_ifindex :: u32
  mc_btf_fd :: u32
  mc_btf_key_type_id :: u32
  mc_btf_value_type_id :: u32
  mc_btf_vmlinux_value_type_id :: u32
  mc_map_extra :: u64

definition size_of_map_create :: usize where
  "size_of_map_create = repr_c_size
     [f_u32, f_u32, f_u32, f_u32, f_u32, f_u32, f_u32, f_name, f_u32, f_u32, f_u32, f_u32, f_u32, f_u64]"

record bpf_attr_obj_info_by_fd =
  oi_bpf_fd :: u32
  oi_info_len :: u32

definition size_of_obj_info :: usize where
  "size_of_obj_info = repr_c_size [f_u32, f_u32, f_u64]"

record bpf_map_info =
  map_type :: u32
  map_id :: u32
  key_size :: u32
  value_size :: u32
  max_entries :: u32
  map_flags :: u32
  map_name :: "u8 list"
  ifindex :: u32
  btf_vmlinux_value_type_id :: u32
  netns_dev :: u64
  netns_ino :: u64
  btf_id :: u32
  btf_key_type_id :: u32
  btf_value_type_id :: u32
  map_extra :: u64

definition size_of_map_info :: usize where
  "size_of_map_info = repr_c_size
     [f_u32, f_u32, f_u32, f_u32, f_u32, f_u32, f_name, f_u32, f_u32, f_u64, f_u64, f_u32, f_u32, f_u32, f_u64]"

text \<open>\<open>BpfAttrProgLoad\<close> of \<open>prog.rs\<close>; \<open>insns\<close>, \<open>license\<close> and \<open>log_buf\<close> are pointers there.\<close>

record bpf_attr_prog_load =
  prog_type :: u32
  insn_cnt :: u32
  insns :: "bpf_insn list"
  license :: "u8 list"
  log_level :: u32
  log_size :: u32
  log_buf :: "u8 list"
  kern_version :: u32
  prog_flags :: u32
  prog_name :: "u8 list"
  prog_ifindex :: u32
  expected_attach_type :: u32
  prog_btf_fd :: u32
  func_info_rec_size :: u32
  func_info :: u64
  func_info_cnt :: u32
  line_info_rec_size :: u32
  line_info :: u64
  line_info_cnt :: u32
  attach_btf_id :: u32

definition size_of_prog_load :: usize where
  "size_of_prog_load = repr_c_size
     [f_u32, f_u32, f_u64, f_u64, f_u32, f_u32, f_u64, f_u32, f_u32, f_name,
      f_u32, f_u32, f_u32, f_u32, f_u64, f_u32, f_u32, f_u64, f_u32, f_u32]"

section \<open>Errors\<close>

text \<open>
  \<open>io::ErrorKind\<close>: the kinds the loader builds or tests for, those of the error numbers the
  called system interfaces document, and the remaining ones by their error number.
\<close>

datatype error_kind = InvalidInput | InvalidData | Interrupted | Unsupported | PermissionDenied
  | NotFound | OutOfMemory | AlreadyExists | WouldBlock | Other | OtherKind i32

definition decode_error_kind :: "i32 \<Rightarrow> error_kind" where
  "decode_error_kind e =
     (if e = 1 \<or> e = 13 then PermissionDenied else if e = 2 then NotFound else if e = 4 then Interrupted
      else if e = 11 then WouldBlock else if e = 12 then OutOfMemory else if e = 17 then AlreadyExists
      else if e = 22 then InvalidInput else if e = 38 then Unsupported else OtherKind e)"

datatype io_error = OsError i32 | Custom error_kind rust_str

fun error_kind_of :: "io_error \<Rightarrow> error_kind" where
  "error_kind_of (OsError e) = decode_error_kind e"
| "error_kind_of (Custom k m) = k"

text \<open>\<open>Display\<close>: the C library's text for an error number, then the number.\<close>

fun io_error_text :: "(i32 \<Rightarrow> rust_str) \<Rightarrow> io_error \<Rightarrow> rust_str" where
  "io_error_text strerror (OsError e) = strerror e @ str_lit '' (os error '' @ str_lit (show_int (sint e)) @ str_lit '')''"
| "io_error_text strerror (Custom k m) = m"

section \<open>Calls, events, state\<close>

text \<open>
  The raw call \<open>libc::syscall(SYS_BPF, cmd, &attr, size)\<close> of \<open>prog.rs\<close> and \<open>ringbuf.rs\<close>: the
  number is that of the 64-bit x86 system call table, the command selects the attribute structure.
\<close>

definition SYS_BPF :: u64 where "SYS_BPF = 321"
definition BPF_PROG_LOAD :: u32 where "BPF_PROG_LOAD = 5"
definition BPF_MAP_CREATE :: u32 where "BPF_MAP_CREATE = 0"
definition BPF_OBJ_GET_INFO_BY_FD :: u32 where "BPF_OBJ_GET_INFO_BY_FD = 15"

datatype bpf_attr =
    Prog_load_attr bpf_attr_prog_load
  | Map_create_attr bpf_attr_map_create
  | Obj_info_attr bpf_attr_obj_info_by_fd

datatype syscall =
    Syscall u64 u32 bpf_attr usize
  | Setsockopt raw_fd i32 i32 raw_fd u32
  | Sysconf_pagesize
  | Mmap usize bool raw_fd u64
  | Munmap u64 usize
  | Close raw_fd
  | Epoll_create1
  | Epoll_ctl_add raw_fd raw_fd u64
  | Epoll_wait raw_fd
  | Read_file string
  | Path_exists string
  | Geteuid

abbreviation Bpf_prog_load :: "bpf_attr_prog_load \<Rightarrow> usize \<Rightarrow> syscall" where
  "Bpf_prog_load attr \<equiv> Syscall SYS_BPF BPF_PROG_LOAD (Prog_load_attr attr)"

abbreviation Bpf_map_create :: "bpf_attr_map_create \<Rightarrow> usize \<Rightarrow> syscall" where
  "Bpf_map_create attr \<equiv> Syscall SYS_BPF BPF_MAP_CREATE (Map_create_attr attr)"

abbreviation Bpf_obj_get_info :: "bpf_attr_obj_info_by_fd \<Rightarrow> usize \<Rightarrow> syscall" where
  "Bpf_obj_get_info attr \<equiv> Syscall SYS_BPF BPF_OBJ_GET_INFO_BY_FD (Obj_info_attr attr)"

record sysres =
  ret :: u64
  errno :: i32
  out_bytes :: "u8 list"
  out_info :: bpf_map_info

datatype event =
    Sys syscall sysres
  | Stderr rust_str
  | LoadConsumerPos u64
  | LoadProducerPos u64
  | LoadHeader usize u32
  | StoreConsumerPos u64
  | Callback usize "u8 list"

text \<open>
  The shared pages at some moment: the two positions and the bytes reachable from
  \<open>data_ptr\<close>. The world answers calls and shows memory depending on what has happened.
\<close>

record ring_view =
  view_consumer :: u64
  view_producer :: u64
  view_cell :: "nat \<Rightarrow> u8"

record world =
  kcall :: "event list \<Rightarrow> syscall \<Rightarrow> sysres"
  kstrerror :: "i32 \<Rightarrow> rust_str"
  kshared :: "event list \<Rightarrow> ring_view"

text \<open>What the process keeps: its history, \<open>CACHE\<close> of \<open>page_size\<close>, \<open>WARNED\<close> of \<open>core_detect\<close>.\<close>

record proc =
  hist :: "event list"
  page_cache :: "usize option"
  warned :: bool

definition log_event :: "event \<Rightarrow> proc \<Rightarrow> proc" where
  "log_event e p = p\<lparr>hist := hist p @ [e]\<rparr>"

definition call :: "world \<Rightarrow> syscall \<Rightarrow> proc \<Rightarrow> sysres \<times> proc" where
  "call w c p = (let r = kcall w (hist p) c in (r, log_event (Sys c r) p))"

definition eprintln :: "rust_str \<Rightarrow> proc \<Rightarrow> proc" where
  "eprintln msg p = log_event (Stderr msg) p"

text \<open>A C return value is an error when negative; \<open>last_os_error\<close> then reads \<open>errno\<close>.\<close>

definition failed :: "sysres \<Rightarrow> bool" where
  "failed r \<longleftrightarrow> sint (ret r) < 0"

definition last_os_error :: "sysres \<Rightarrow> io_error" where
  "last_os_error r = OsError (errno r)"

fun is_stderr :: "event \<Rightarrow> bool" where
  "is_stderr (Stderr m) = True"
| "is_stderr _ = False"

text \<open>The system calls of a history.\<close>

fun event_call :: "event \<Rightarrow> syscall list" where
  "event_call (Sys c r) = [c]"
| "event_call _ = []"

definition calls_of :: "event list \<Rightarrow> syscall list" where
  "calls_of h = concat (map event_call h)"

lemma calls_of_simps [simp]:
  "calls_of [] = []"
  "calls_of (h @ h') = calls_of h @ calls_of h'"
  "calls_of (e # h) = event_call e @ calls_of h"
  by (simp_all add: calls_of_def)

lemma log_event_fields [simp]:
  "hist (log_event e p) = hist p @ [e]"
  "page_cache (log_event e p) = page_cache p"
  "warned (log_event e p) = warned p"
  by (simp_all add: log_event_def)

lemma hist_eprintln [simp]:
  "hist (eprintln m p) = hist p @ [Stderr m]"
  "page_cache (eprintln m p) = page_cache p"
  "warned (eprintln m p) = warned p"
  by (simp_all add: eprintln_def)

lemma struct_sizes:
  "size_of_map_create = 72" "size_of_obj_info = 16" "size_of_map_info = 88" "size_of_prog_load = 112"
  by (simp_all add: size_of_map_create_def size_of_obj_info_def size_of_map_info_def size_of_prog_load_def
      repr_c_size_def)

end
