(* ===== verification/Core_Detect.thy ===== *)
theory Core_Detect
  imports Os "HOL-Library.Product_Lexorder"
begin

text \<open>
  Capability detection (\<open>src/loader/core_detect.rs\<close>): parsing the kernel release, the
  fail-closed version with its once-only warning, the feature gates and the diagnostic
  summary.
\<close>

type_synonym version = "u32 \<times> u32 \<times> u32"

section \<open>Operations\<close>

definition opt_part :: "rust_str list \<Rightarrow> nat \<Rightarrow> u32 option" where
  "opt_part parts i = (case get_index parts i of None \<Rightarrow> Some 0 | Some s \<Rightarrow> parse_u32 s)"

definition parse_kernel_release :: "rust_str \<Rightarrow> version option" where
  "parse_kernel_release trimmed =
     (let parts = split_where (\<lambda>c. \<not> is_ascii_digit c) trimmed in
      Option.bind (Option.bind (get_index parts 0) parse_u32) (\<lambda>major.
      Option.bind (opt_part parts 1) (\<lambda>minor.
      Option.bind (opt_part parts 2) (\<lambda>patch. Some (major, minor, patch)))))"

text \<open>
  \<open>{:?}\<close> of a string: quoted and escaped. (Characters beyond ASCII are printed as they are;
  the release string has none.)
\<close>

fun show_hex :: "nat \<Rightarrow> string" where
  "show_hex n = (if n < 16 then [digit_char n] else show_hex (n div 16) @ [digit_char (n mod 16)])"

declare show_hex.simps [simp del]

definition debug_char :: "nat \<Rightarrow> rust_str" where
  "debug_char c =
     (if c = 0 then [92, 48] else if c = 9 then [92, 116] else if c = 10 then [92, 110] else if c = 13 then [92, 114]
      else if c = 34 then [92, 34] else if c = 92 then [92, 92]
      else if c < 32 \<or> c = 127 then str_lit (CHR 0x5C # ''u{'' @ show_hex c @ ''}'')
      else [c])"

definition debug_str :: "rust_str \<Rightarrow> rust_str" where
  "debug_str s = [34] @ concat (map debug_char s) @ [34]"

definition undetected_text :: "rust_str \<Rightarrow> rust_str" where
  "undetected_text reason = str_lit ''ebpfkit: could not determine kernel version ('' @ reason
     @ str_lit ''); treating all version-gated eBPF features (ring buffer, fentry, ...) as UNAVAILABLE''"

definition warn_kernel_undetected :: "rust_str \<Rightarrow> proc \<Rightarrow> proc" where
  "warn_kernel_undetected reason p =
     (if warned p then p else (eprintln (undetected_text reason) p)\<lparr>warned := True\<rparr>)"

text \<open>\<open>std::fs::read_to_string\<close>: a failed read, or bytes that are not UTF-8, are errors.\<close>

definition read_to_string :: "world \<Rightarrow> string \<Rightarrow> proc \<Rightarrow> (io_error + rust_str) \<times> proc" where
  "read_to_string w path p =
     (let (r, p) = call w (Read_file path) p in
      if failed r then (Err (last_os_error r), p)
      else if from_utf8_ok (out_bytes r) then (Ok (from_utf8_lossy (out_bytes r)), p)
      else (Err (Custom InvalidData (str_lit ''stream did not contain valid UTF-8'')), p))"

definition kernel_version :: "world \<Rightarrow> proc \<Rightarrow> version \<times> proc" where
  "kernel_version w p =
     (case read_to_string w ''/proc/sys/kernel/osrelease'' p of
        (Inr release, p) \<Rightarrow>
          (case parse_kernel_release (trim release) of
             Some v \<Rightarrow> (v, p)
           | None \<Rightarrow> ((0, 0, 0), warn_kernel_undetected
               (str_lit ''unparseable major version in osrelease '' @ debug_str (trim release)) p))
      | (Inl err, p) \<Rightarrow> ((0, 0, 0), warn_kernel_undetected
          (str_lit ''cannot read /proc/sys/kernel/osrelease: '' @ io_error_text (kstrerror w) err) p))"

definition has_btf :: "world \<Rightarrow> proc \<Rightarrow> bool \<times> proc" where
  "has_btf w p = (let (r, p) = call w (Path_exists ''/sys/kernel/btf/vmlinux'') p in (\<not> failed r, p))"

text \<open>The order of tuples is the lexicographic one, as in Rust.\<close>

definition has_ringbuf :: "world \<Rightarrow> proc \<Rightarrow> bool \<times> proc" where
  "has_ringbuf w p = (let (v, p) = kernel_version w p in ((5, 8, 0) \<le> v, p))"

definition has_fentry :: "world \<Rightarrow> proc \<Rightarrow> bool \<times> proc" where
  "has_fentry w p = (let (v, p) = kernel_version w p in ((5, 5, 0) \<le> v, p))"

definition show_bool :: "bool \<Rightarrow> string" where
  "show_bool b = (if b then ''true'' else ''false'')"

definition diagnostics :: "world \<Rightarrow> proc \<Rightarrow> string list \<times> proc" where
  "diagnostics w p =
     (let (version, p) = kernel_version w p;
          d1 = ''kernel: '' @ show_nat (unat (fst version)) @ ''.'' @ show_nat (unat (fst (snd version)))
                 @ ''.'' @ show_nat (unat (snd (snd version)));
          (btf, p) = has_btf w p;
          (fentry, p) = has_fentry w p;
          (ringbuf, p) = has_ringbuf w p;
          (euid, p) = call w Geteuid p
      in ([d1, ''BTF available: '' @ show_bool btf, ''fentry support: '' @ show_bool fentry,
           ''ring buffer support: '' @ show_bool ringbuf, ''running as root: '' @ show_bool (ret euid = 0)], p))"

section \<open>Reading versions\<close>

lemma parse_u32_version: "parse_u32 (str_lit (show_nat (unat (v :: u32)))) = Some v"
  using parse_u32_show [of "unat v"] unat_bound [of v] by simp

lemma split_where_all: "\<forall>c \<in> set ds. \<not> P c \<Longrightarrow> split_where P ds = [ds]"
  by (induction ds) auto

lemma split_where_at: "\<forall>c \<in> set ds. \<not> P c \<Longrightarrow> P x \<Longrightarrow> split_where P (ds @ x # rest) = ds # split_where P rest"
  by (induction ds) auto

lemmas split_number = split_where_at [where P = "\<lambda>c. \<not> is_ascii_digit c", simplified]
  split_where_all [where P = "\<lambda>c. \<not> is_ascii_digit c", simplified]

lemma dot_not_digit: "\<not> is_ascii_digit 46" "\<not> is_ascii_digit 43"
  by (simp_all add: is_ascii_digit_def)

text \<open>A version followed by anything that does not continue its last number.\<close>

definition number_ends :: "rust_str \<Rightarrow> bool" where
  "number_ends s \<longleftrightarrow> s = [] \<or> \<not> is_ascii_digit (hd s)"

lemma split_last_number:
  assumes "\<forall>c \<in> set ds. is_ascii_digit c" "number_ends rest"
  shows "\<exists>tl. split_where (\<lambda>c. \<not> is_ascii_digit c) (ds @ rest) = ds # tl"
  using assms by (cases rest) (auto simp: number_ends_def split_number)

abbreviation num :: "u32 \<Rightarrow> rust_str" where
  "num v \<equiv> str_lit (show_nat (unat v))"

lemma parse_release_three:
  assumes "number_ends rest"
  shows "parse_kernel_release (num a @ [46] @ num b @ [46] @ num c @ rest) = Some (a, b, c)"
proof -
  obtain tl where "split_where (\<lambda>c. \<not> is_ascii_digit c) (num c @ rest) = num c # tl"
    using split_last_number [OF _ assms] show_nat_digits by blast
  then have "split_where (\<lambda>c. \<not> is_ascii_digit c) (num a @ [46] @ num b @ [46] @ num c @ rest) = num a # num b # num c # tl"
    using show_nat_digits by (simp add: split_number dot_not_digit)
  then show ?thesis
    by (simp add: parse_kernel_release_def opt_part_def get_index_def parse_u32_version)
qed

lemma parse_release_short:
  "parse_kernel_release (num a) = Some (a, 0, 0)"
  "parse_kernel_release (num a @ [46] @ num b) = Some (a, b, 0)"
  using show_nat_digits
  by (simp_all add: parse_kernel_release_def opt_part_def get_index_def parse_u32_version split_number dot_not_digit)

lemma parse_release_suffix:
  assumes "\<not> is_ascii_digit x" "number_ends rest"
  shows "parse_kernel_release (num a @ [46] @ num b @ [x] @ rest) = None"
proof -
  have "\<exists>tl. split_where (\<lambda>c. \<not> is_ascii_digit c) rest = [] # tl"
    using assms(2) split_last_number [of "[]" rest] by simp
  then obtain tl where "split_where (\<lambda>c. \<not> is_ascii_digit c) rest = [] # tl" ..
  then have "split_where (\<lambda>c. \<not> is_ascii_digit c) (num a @ [46] @ num b @ [x] @ rest) = num a # num b # [] # tl"
    using show_nat_digits assms(1) by (simp add: split_number dot_not_digit)
  then show ?thesis
    by (simp add: parse_kernel_release_def opt_part_def get_index_def parse_u32_version parse_u32_def)
qed

section \<open>Detecting the version\<close>

abbreviation osrelease :: syscall where
  "osrelease \<equiv> Read_file ''/proc/sys/kernel/osrelease''"

text \<open>What one lookup adds to the history: the read, and at most one warning ever.\<close>

lemma kernel_version_cases:
  obtains
    (found) v where "kernel_version w p = (v, log_event (Sys osrelease (kcall w (hist p) osrelease)) p)"
  | (undetected) reason where "kernel_version w p =
      ((0, 0, 0), warn_kernel_undetected reason (log_event (Sys osrelease (kcall w (hist p) osrelease)) p))"
  by (cases "kernel_version w p")
    (auto simp: kernel_version_def read_to_string_def call_def Let_def split: option.splits if_splits)

definition warning_budget :: "proc \<Rightarrow> nat" where
  "warning_budget p = length (filter is_stderr (hist p)) + (if warned p then 0 else 1)"

lemma budget_log [simp]: "warning_budget (log_event (Sys c r) p) = warning_budget p"
  by (simp add: warning_budget_def)

lemma budget_warn [simp]: "warning_budget (warn_kernel_undetected reason p) = warning_budget p"
  by (simp add: warning_budget_def warn_kernel_undetected_def)

lemma budget_kernel_version: "kernel_version w p = (v, p') \<Longrightarrow> warning_budget p' = warning_budget p"
  by (cases rule: kernel_version_cases [of w p]) auto

lemma budget_call: "call w c p = (r, p') \<Longrightarrow> warning_budget p' = warning_budget p"
  by (auto simp: call_def Let_def)

lemma budget_gates:
  "has_ringbuf w p = (b, p') \<Longrightarrow> warning_budget p' = warning_budget p"
  "has_fentry w p = (b, p') \<Longrightarrow> warning_budget p' = warning_budget p"
  "has_btf w p = (b, p') \<Longrightarrow> warning_budget p' = warning_budget p"
  by (auto simp: has_ringbuf_def has_fentry_def has_btf_def budget_kernel_version budget_call split: prod.splits)

lemma budget_diagnostics: "diagnostics w p = (ds, p') \<Longrightarrow> warning_budget p' = warning_budget p"
  by (auto simp: diagnostics_def Let_def split: prod.splits dest!: budget_kernel_version budget_gates budget_call)

datatype query = QBtf | QRingbuf | QFentry | QDiagnostics

fun run_query :: "world \<Rightarrow> query \<Rightarrow> proc \<Rightarrow> proc" where
  "run_query w QBtf p = snd (has_btf w p)"
| "run_query w QRingbuf p = snd (has_ringbuf w p)"
| "run_query w QFentry p = snd (has_fentry w p)"
| "run_query w QDiagnostics p = snd (diagnostics w p)"

lemma budget_query: "warning_budget (run_query w q p) = warning_budget p"
  by (cases q) (auto intro: budget_gates budget_diagnostics prod.collapse [symmetric])

lemma budget_queries: "warning_budget (fold (run_query w) qs p) = warning_budget p"
  by (induction qs arbitrary: p) (simp_all add: budget_query)

lemma ascii_release:
  assumes "\<forall>c \<in> set s. c < 128" "s \<noteq> []" "\<not> is_whitespace (hd s)" "\<not> is_whitespace (last s)"
  shows "from_utf8_ok (map of_nat (s @ [10]))" "trim (from_utf8_lossy (map of_nat (s @ [10]))) = s"
proof -
  have u: "unat (of_nat c :: u8) = c" if "c < 128" for c
    using that by (simp add: unat_of_nat)
  have "\<forall>b \<in> set (map of_nat (s @ [10]) :: u8 list). b < 0x80"
    using assms(1) u by (auto simp: word_less_nat_alt)
  note ascii = this
  then show "from_utf8_ok (map of_nat (s @ [10]))"
    by (rule from_utf8_ok_ascii)
  have "from_utf8_lossy (map of_nat (s @ [10])) = s @ [10]"
    unfolding from_utf8_lossy_def utf8_decode_ascii [OF ascii]
    using assms(1) u by (auto simp: o_def intro: map_idI)
  then show "trim (from_utf8_lossy (map of_nat (s @ [10]))) = s"
    using trim_where_padded [OF assms(2), of is_whitespace 10 1] assms(3,4) by (simp add: trim_def is_whitespace_def)
qed

text \<open>
  A release as the kernel's file holds it, before the newline at its end, and its version: three numbers and any
  suffix, or fewer numbers.
\<close>

inductive release :: "rust_str \<Rightarrow> version \<Rightarrow> bool" where
  three_numbers: "number_ends rest \<Longrightarrow> \<forall>x \<in> set rest. x < 128 \<Longrightarrow> rest \<noteq> [] \<longrightarrow> \<not> is_whitespace (last rest) \<Longrightarrow>
    release (num a @ [46] @ num b @ [46] @ num c @ rest) (a, b, c)"
| two_numbers: "release (num a @ [46] @ num b) (a, b, 0)"
| one_number: "release (num a) (a, 0, 0)"

lemma num_shape:
  "num v \<noteq> []" "x \<in> set (num v) \<Longrightarrow> x < 128" "\<not> is_whitespace (hd (num v))" "\<not> is_whitespace (last (num v))"
proof -
  have digit: "x < 128 \<and> \<not> is_whitespace x" if "is_ascii_digit x" for x
    using that by (simp add: is_ascii_digit_def is_whitespace_def)
  show ne: "num v \<noteq> []"
    using show_nat_digits [of "unat v"] by (simp add: str_lit_def)
  have digits: "\<forall>x \<in> set (num v). is_ascii_digit x"
    using show_nat_digits [of "unat v"] by (simp add: str_lit_def)
  then show "x \<in> set (num v) \<Longrightarrow> x < 128"
    using digit by blast
  show "\<not> is_whitespace (hd (num v))" "\<not> is_whitespace (last (num v))"
    using digits digit hd_in_set [OF ne] last_in_set [OF ne] by blast+
qed

lemma release_shape:
  assumes "release s v"
  shows "\<forall>x \<in> set s. x < 128" "s \<noteq> []" "\<not> is_whitespace (hd s)" "\<not> is_whitespace (last s)"
proof -
  show "\<forall>x \<in> set s. x < 128"
    using assms num_shape(2) by cases auto
  show "s \<noteq> []"
    using assms num_shape(1) by cases simp_all
  show "\<not> is_whitespace (hd s)"
    using assms num_shape(1,3) by cases simp_all
  show "\<not> is_whitespace (last s)"
    using assms num_shape(1,4) by cases (simp_all add: last_append)
qed

lemma release_parses: "release s v \<Longrightarrow> parse_kernel_release s = Some v"
  by (cases rule: release.cases, assumption) (simp_all only: parse_release_three parse_release_short)

lemma kernel_version_detects:
  assumes "r = kcall w (hist p) osrelease" "\<not> failed r" "out_bytes r = map of_nat (s @ [10])" "release s v"
  shows "kernel_version w p = (v, log_event (Sys osrelease r) p)"
  using assms(1-3) ascii_release [OF release_shape [OF assms(4)]] release_parses [OF assms(4)]
  by (simp add: kernel_version_def read_to_string_def call_def Let_def)

section \<open>Properties\<close>

text \<open>
  C36: every release string in the form the kernel prints is read back: three numbers (any
  32-bit values) with an arbitrary suffix that does not begin with a digit give exactly those
  numbers, and missing trailing numbers are zero.
\<close>

theorem parse_kernel_release_roundtrip:
  assumes "number_ends rest"
  shows "parse_kernel_release (num a @ [46] @ num b @ [46] @ num c @ rest) = Some (a, b, c)
    \<and> parse_kernel_release (num a @ [46] @ num b) = Some (a, b, 0)
    \<and> parse_kernel_release (num a) = Some (a, 0, 0)"
  using parse_release_three [OF assms] parse_release_short by simp

theorem parse_kernel_release_roundtrip_witness:
  "parse_kernel_release (num 5 @ [46] @ num 15 @ [46] @ num 137 @ str_lit ''-generic'') = Some (5, 15, 137)"
  using parse_kernel_release_roundtrip [of "str_lit ''-generic''" 5 15 137]
  by (simp add: number_ends_def str_lit_def is_ascii_digit_def)

text \<open>
  A suffix directly after the minor number is not an absent patch level: a release such as
  \<open>6.1-rc1\<close> is rejected as a whole.
\<close>

theorem parse_kernel_release_suffix_after_minor:
  assumes "\<not> is_ascii_digit x" "number_ends rest"
  shows "parse_kernel_release (num a @ [46] @ num b @ [x] @ rest) = None"
  using assms by (rule parse_release_suffix)

theorem parse_kernel_release_suffix_after_minor_witness:
  "parse_kernel_release (num 6 @ [46] @ num 1 @ [of_char CHR ''-''] @ str_lit ''rc1'') = None"
  by (rule parse_kernel_release_suffix_after_minor) (simp_all add: number_ends_def str_lit_def is_ascii_digit_def)

text \<open>
  C34: the feature gates decide by the running kernel: when the release file holds three numbers with any suffix, or
  only the first two or the first of them, and a final newline, ring buffers are reported exactly from
  5.8 on and fentry exactly from 5.5 on (a missing number is 0); all either gate does is to read the file, and
  nothing is written to standard error.
\<close>

theorem feature_gates_by_release:
  assumes "r = kcall w (hist p) osrelease" "\<not> failed r" "out_bytes r = map of_nat (s @ [10])" "release s (a, b, c)"
  shows "has_ringbuf w p = ((a > 5 \<or> a = 5 \<and> b \<ge> 8), log_event (Sys osrelease r) p)
    \<and> has_fentry w p = ((a > 5 \<or> a = 5 \<and> b \<ge> 5), log_event (Sys osrelease r) p)"
  using kernel_version_detects [OF assms]
  by (auto simp: has_ringbuf_def has_fentry_def order_le_less word_gt_0)

definition release_world :: world where
  "release_world = \<lparr>kcall = (\<lambda>h c. \<lparr>ret = 0, errno = 0,
      out_bytes = map of_nat ((num 5 @ [46] @ num 15 @ [46] @ num 137 @ [45, 49]) @ [10]),
      out_info = \<lparr>map_type = 0, map_id = 0, key_size = 0, value_size = 0, max_entries = 0, map_flags = 0,
        map_name = [], ifindex = 0, btf_vmlinux_value_type_id = 0, netns_dev = 0, netns_ino = 0,
        btf_id = 0, btf_key_type_id = 0, btf_value_type_id = 0, map_extra = 0\<rparr>\<rparr>),
     kstrerror = (\<lambda>_. []), kshared = (\<lambda>_. \<lparr>view_consumer = 0, view_producer = 0, view_cell = (\<lambda>_. 0)\<rparr>)\<rparr>"

theorem feature_gates_by_release_witness:
  "fst (has_ringbuf release_world \<lparr>hist = [], page_cache = None, warned = False\<rparr>)"
proof -
  have "release (num 5 @ [46] @ num 15 @ [46] @ num 137 @ [45, 49]) (5, 15, 137)"
    by (rule three_numbers) (simp_all add: number_ends_def is_ascii_digit_def is_whitespace_def)
  from feature_gates_by_release [OF refl _ _ this, of release_world "\<lparr>hist = [], page_cache = None, warned = False\<rparr>"]
  show ?thesis
    by (simp add: release_world_def failed_def)
qed

text \<open>
  C35: fail closed and loud. When the release cannot be read, is not UTF-8 or does not parse, the version
  is 0.0.0 and both gates are closed; and if the process has not warned before, each of these lookups writes one line to
  standard error, with the reason, and remembers that it has.
\<close>

theorem undetected_kernel_fails_closed:
  assumes "r = kcall w (hist p) osrelease"
    and "failed r \<or> \<not> from_utf8_ok (out_bytes r) \<or> parse_kernel_release (trim (from_utf8_lossy (out_bytes r))) = None"
    and "reason = (if failed r then str_lit ''cannot read /proc/sys/kernel/osrelease: '' @ io_error_text (kstrerror w) (OsError (errno r))
       else if \<not> from_utf8_ok (out_bytes r) then str_lit ''cannot read /proc/sys/kernel/osrelease: stream did not contain valid UTF-8''
       else str_lit ''unparseable major version in osrelease '' @ debug_str (trim (from_utf8_lossy (out_bytes r))))"
  shows "\<exists>p'. kernel_version w p = ((0, 0, 0), p') \<and> has_ringbuf w p = (False, p') \<and> has_fentry w p = (False, p')
    \<and> hist p' = hist p @ Sys osrelease r # (if warned p then [] else [Stderr (undetected_text reason)]) \<and> warned p'"
proof -
  have "kernel_version w p = ((0, 0, 0), warn_kernel_undetected reason (log_event (Sys osrelease r) p))"
    using assms by (auto simp: kernel_version_def read_to_string_def call_def Let_def last_os_error_def str_lit_def)
  then show ?thesis
    by (auto simp: has_ringbuf_def has_fentry_def warn_kernel_undetected_def eprintln_def)
qed

theorem undetected_kernel_fails_closed_witness:
  "\<exists>p'. has_ringbuf (release_world\<lparr>kcall := \<lambda>h c. (kcall release_world h c)\<lparr>ret := - 1\<rparr>\<rparr>)
      \<lparr>hist = [], page_cache = None, warned = False\<rparr> = (False, p')
    \<and> length (filter is_stderr (hist p')) = 1"
  using undetected_kernel_fails_closed [of _ "release_world\<lparr>kcall := \<lambda>h c. (kcall release_world h c)\<lparr>ret := - 1\<rparr>\<rparr>"
      "\<lparr>hist = [], page_cache = None, warned = False\<rparr>"]
  by (fastforce simp: failed_def)

text \<open>
  The warning is not repeated: any sequence of feature queries and diagnostics writes at most
  one line to standard error, and none once the process has warned.
\<close>

theorem warns_at_most_once:
  "length (filter is_stderr (hist (fold (run_query w) qs p)))
     \<le> length (filter is_stderr (hist p)) + (if warned p then 0 else 1)"
  using budget_queries [of w qs p] by (simp add: warning_budget_def split: if_splits)

end
