(* ===== verification/Ringbuf.thy ===== *)
theory Ringbuf
  imports Os "HOL-Library.While_Combinator"
begin

text \<open>
  The ring-buffer consumer (\<open>src/loader/ringbuf.rs\<close>): creating a ring-buffer map, mapping
  its pages, waiting on an epoll descriptor, and consuming records. Acquiring and dropping
  of resources is explicit, in the order in which the destructors run. Consumption is a
  state machine whose step is one pass through the source's loops; the shared pages may
  change between any two of its accesses. \<open>None\<close> as the result of an operation means that
  it never returns (it is interrupted for ever, or the producer is never caught up with).
\<close>

unbundle bit_operations_syntax

section \<open>Constants\<close>

definition BPF_MAP_TYPE_RINGBUF :: u32 where "BPF_MAP_TYPE_RINGBUF = 27"
definition BPF_RINGBUF_BUSY_BIT :: u32 where "BPF_RINGBUF_BUSY_BIT = push_bit 31 1"
definition BPF_RINGBUF_DISCARD_BIT :: u32 where "BPF_RINGBUF_DISCARD_BIT = push_bit 30 1"
definition BPF_RINGBUF_HDR_SZ :: usize where "BPF_RINGBUF_HDR_SZ = 8"
definition MAP_FAILED :: u64 where "MAP_FAILED = - 1"

section \<open>Maps\<close>

text \<open>\<open>u32::is_power_of_two\<close> counts the set bits.\<close>

definition is_power_of_two :: "u32 \<Rightarrow> bool" where
  "is_power_of_two n \<longleftrightarrow> length (filter (bit n) [0..<32]) = 1"

definition default_map_create :: bpf_attr_map_create where
  "default_map_create = \<lparr>mc_map_type = 0, mc_key_size = 0, mc_value_size = 0, mc_max_entries = 0,
     mc_map_flags = 0, mc_inner_map_fd = 0, mc_numa_node = 0, mc_map_name = replicate 16 0,
     mc_map_ifindex = 0, mc_btf_fd = 0, mc_btf_key_type_id = 0, mc_btf_value_type_id = 0,
     mc_btf_vmlinux_value_type_id = 0, mc_map_extra = 0\<rparr>"

definition create_ringbuf :: "world \<Rightarrow> u32 \<Rightarrow> proc \<Rightarrow> (io_error + raw_fd) \<times> proc" where
  "create_ringbuf w size_bytes p =
     (if size_bytes = 0 \<or> \<not> is_power_of_two size_bytes then
        (Err (Custom InvalidInput (str_lit (''ring buffer size must be a non-zero power of two. '' @
           ''Fix: pass 4096, 8192, 16384, or another power of two.''))), p)
      else
        let attr = default_map_create\<lparr>mc_map_type := BPF_MAP_TYPE_RINGBUF, mc_max_entries := size_bytes\<rparr>;
            (r, p) = call w (Bpf_map_create attr size_of_map_create) p in
        if failed r then (Err (last_os_error r), p) else (Ok (ucast (ret r)), p))"

definition page_size_of :: "world \<Rightarrow> proc \<Rightarrow> (io_error + usize) \<times> proc" where
  "page_size_of w p =
     (case page_cache p of
        Some value \<Rightarrow> (Ok value, p)
      | None \<Rightarrow>
        let (r, p) = call w Sysconf_pagesize p in
        if sint (ret r) \<le> 0 then (Err (last_os_error r), p)
        else (Ok (ret r), p\<lparr>page_cache := Some (ret r)\<rparr>))"

definition map_info :: "world \<Rightarrow> raw_fd \<Rightarrow> proc \<Rightarrow> (io_error + bpf_map_info) \<times> proc" where
  "map_info w map_fd p =
     (let attr = \<lparr>oi_bpf_fd = map_fd, oi_info_len = ucast size_of_map_info\<rparr>;
          (r, p) = call w (Bpf_obj_get_info attr size_of_obj_info) p in
      if failed r then (Err (last_os_error r), p) else (Ok (out_info r), p))"

section \<open>Cleaning up\<close>

definition munmap_or_warn :: "world \<Rightarrow> u64 \<Rightarrow> usize \<Rightarrow> string \<Rightarrow> proc \<Rightarrow> proc" where
  "munmap_or_warn w addr len ctx p =
     (let (r, p) = call w (Munmap addr len) p in
      if ret r \<noteq> 0 then
        eprintln (str_lit (''ebpfkit: munmap failed while '' @ ctx @ '': '')
          @ io_error_text (kstrerror w) (last_os_error r) @ str_lit '' (mapping may be leaked)'') p
      else p)"

definition close_or_warn :: "world \<Rightarrow> raw_fd \<Rightarrow> string \<Rightarrow> proc \<Rightarrow> proc" where
  "close_or_warn w fd ctx p =
     (let (r, p) = call w (Close fd) p in
      if ret r \<noteq> 0 then
        eprintln (str_lit (''ebpfkit: close failed while '' @ ctx @ '': '')
          @ io_error_text (kstrerror w) (last_os_error r)) p
      else p)"

section \<open>Epoll\<close>

definition epoll_new :: "world \<Rightarrow> proc \<Rightarrow> (io_error + raw_fd) \<times> proc" where
  "epoll_new w p =
     (let (r, p) = call w Epoll_create1 p in
      if failed r then (Err (last_os_error r), p) else (Ok (ucast (ret r)), p))"

definition epoll_add :: "world \<Rightarrow> raw_fd \<Rightarrow> raw_fd \<Rightarrow> proc \<Rightarrow> (io_error + unit) \<times> proc" where
  "epoll_add w epfd map_fd p =
     (let (r, p) = call w (Epoll_ctl_add epfd map_fd (scast map_fd)) p in
      if failed r then (Err (last_os_error r), p) else (Ok (), p))"

partial_function (option) epoll_wait :: "world \<Rightarrow> raw_fd \<Rightarrow> proc \<Rightarrow> ((io_error + unit) \<times> proc) option" where
  "epoll_wait w epfd p =
     (let (r, p) = call w (Epoll_wait epfd) p in
      if failed r then
        let err = last_os_error r in
        if error_kind_of err = Interrupted then epoll_wait w epfd p else Some (Err err, p)
      else Some (Ok (), p))"

declare epoll_wait.simps [code]

definition epoll_drop :: "world \<Rightarrow> raw_fd \<Rightarrow> proc \<Rightarrow> proc" where
  "epoll_drop w epfd p = close_or_warn w epfd ''closing epoll fd'' p"

section \<open>The consumer's mappings\<close>

record ringbuf_consumer =
  consumer_mapping :: u64
  producer_mapping :: u64
  data_ptr :: u64
  mapping_len :: usize
  ring_mask :: usize
  page_size :: usize

definition mapping_overflow :: io_error where
  "mapping_overflow =
     Custom InvalidInput (str_lit ''ring buffer mapping length overflowed. Fix: use a smaller ring size.'')"

definition ringbuf_consumer_new ::
  "world \<Rightarrow> raw_fd \<Rightarrow> usize \<Rightarrow> usize \<Rightarrow> proc \<Rightarrow> (io_error + ringbuf_consumer) \<times> proc" where
  "ringbuf_consumer_new w map_fd ring_size page_sz p =
     (let (r, p) = call w (Mmap page_sz True map_fd 0) p; consumer_map = ret r in
      if consumer_map = MAP_FAILED then (Err (last_os_error r), p)
      else case checked_mul ring_size 2 of
        None \<Rightarrow> (Err mapping_overflow, p)
      | Some dbl \<Rightarrow> (case checked_add page_sz dbl of
          None \<Rightarrow> (Err mapping_overflow, p)
        | Some map_len \<Rightarrow>
          let (r, p) = call w (Mmap map_len False map_fd page_sz) p; producer_map = ret r in
          if producer_map = MAP_FAILED then
            let err = last_os_error r in
            (Err err, munmap_or_warn w consumer_map page_sz ''unmapping consumer page after producer mmap failed'' p)
          else
            (Ok \<lparr>consumer_mapping = consumer_map, producer_mapping = producer_map,
                 data_ptr = producer_map + page_sz, mapping_len = map_len,
                 ring_mask = ring_size - 1, page_size = page_sz\<rparr>, p)))"

definition ringbuf_consumer_drop :: "world \<Rightarrow> ringbuf_consumer \<Rightarrow> proc \<Rightarrow> proc" where
  "ringbuf_consumer_drop w c p =
     munmap_or_warn w (producer_mapping c) (mapping_len c) ''unmapping ring producer/data pages''
       (munmap_or_warn w (consumer_mapping c) (page_size c) ''unmapping ring consumer page'' p)"

section \<open>Consuming records\<close>

definition record_within_mapping :: "usize \<Rightarrow> usize \<Rightarrow> usize \<Rightarrow> bool" where
  "record_within_mapping data_offset data_len ring_size =
     (case (checked_add data_offset data_len, checked_mul ring_size 2) of
        (Some end', Some bound) \<Rightarrow> end' \<le> bound
      | _ \<Rightarrow> False)"

definition round_record_len :: "usize \<Rightarrow> usize" where
  "round_record_len data_len =
     (let total = saturating_add data_len BPF_RINGBUF_HDR_SZ in saturating_add total 7 AND NOT 7)"

text \<open>
  A record's header and the slice handed to the callback, at \<open>data_ptr + offset\<close>; words are
  little-endian. The loop loads the header's length word only.
\<close>

record ringbuf_header =
  hdr_len :: u32
  hdr_pad :: u32

definition size_of_ringbuf_header :: usize where
  "size_of_ringbuf_header = repr_c_size [f_u32, f_u32]"

definition cell_u32 :: "(nat \<Rightarrow> u8) \<Rightarrow> nat \<Rightarrow> u32" where
  "cell_u32 cell a = ucast (cell a) OR push_bit 8 (ucast (cell (a + 1)))
     OR push_bit 16 (ucast (cell (a + 2))) OR push_bit 24 (ucast (cell (a + 3)))"

definition ring_header :: "(nat \<Rightarrow> u8) \<Rightarrow> usize \<Rightarrow> ringbuf_header" where
  "ring_header cell offset =
     \<lparr>hdr_len = cell_u32 cell (unat offset), hdr_pad = cell_u32 cell (unat offset + 4)\<rparr>"

definition header_len :: "(nat \<Rightarrow> u8) \<Rightarrow> usize \<Rightarrow> u32" where
  "header_len cell offset = hdr_len (ring_header cell offset)"

definition data_slice :: "(nat \<Rightarrow> u8) \<Rightarrow> usize \<Rightarrow> usize \<Rightarrow> u8 list" where
  "data_slice cell offset len = map (\<lambda>k. cell (unat offset + k)) [0..<unat len]"

definition out_of_bounds_text :: "usize \<Rightarrow> usize \<Rightarrow> usize \<Rightarrow> rust_str" where
  "out_of_bounds_text data_offset data_len msk = str_lit
     (''ebpfkit: ringbuf record out of bounds (data_offset='' @ show_nat (unat data_offset)
      @ '', data_len='' @ show_nat (unat data_len) @ '', mask='' @ show_nat (unat msk)
      @ ''); stopping consumption to avoid an out-of-bounds read'')"

datatype phase = Reload | Scan | Returned

record ring_state =
  phase :: phase
  consumer_pos :: u64
  producer_pos :: u64
  consumed_any :: bool
  process :: proc

text \<open>The body of the inner loop, entered with the consumer behind the producer.\<close>

definition process_record :: "world \<Rightarrow> ringbuf_consumer \<Rightarrow> ring_state \<Rightarrow> ring_state" where
  "process_record w c st =
     (let pos = consumer_pos st; p = process st;
          offset = pos AND ring_mask c;
          raw_len = header_len (view_cell (kshared w (hist p))) offset;
          p = log_event (LoadHeader offset raw_len) p;
          stop = (\<lambda>p. st\<lparr>phase := Returned, process := log_event (StoreConsumerPos pos) p\<rparr>) in
      if raw_len AND BPF_RINGBUF_BUSY_BIT \<noteq> 0 then stop p
      else
        let data_len = ucast (raw_len AND NOT (BPF_RINGBUF_BUSY_BIT OR BPF_RINGBUF_DISCARD_BIT));
            record_len = round_record_len data_len;
            data_offset = offset + BPF_RINGBUF_HDR_SZ;
            advance = (\<lambda>p. st\<lparr>consumer_pos := pos + record_len, consumed_any := True,
                             process := log_event (StoreConsumerPos (pos + record_len)) p\<rparr>) in
        if raw_len AND BPF_RINGBUF_DISCARD_BIT = 0 then
          if (case checked_add (ring_mask c) 1 of None \<Rightarrow> True
              | Some rs \<Rightarrow> \<not> record_within_mapping data_offset data_len rs) then
            stop (eprintln (out_of_bounds_text data_offset data_len (ring_mask c)) p)
          else
            advance (log_event (Callback data_offset
              (data_slice (view_cell (kshared w (hist p))) data_offset data_len)) p)
        else advance p)"

definition ring_step :: "world \<Rightarrow> ringbuf_consumer \<Rightarrow> ring_state \<Rightarrow> ring_state" where
  "ring_step w c st =
     (case phase st of
        Reload \<Rightarrow>
          let v = view_producer (kshared w (hist (process st))) in
          st\<lparr>phase := Scan, producer_pos := v, consumed_any := False,
             process := log_event (LoadProducerPos v) (process st)\<rparr>
      | Scan \<Rightarrow>
          if consumer_pos st < producer_pos st then process_record w c st
          else st\<lparr>phase := (if consumed_any st then Reload else Returned)\<rparr>
      | Returned \<Rightarrow> st)"

definition ring_start :: "world \<Rightarrow> proc \<Rightarrow> ring_state" where
  "ring_start w p =
     (let v = view_consumer (kshared w (hist p)) in
      \<lparr>phase = Reload, consumer_pos = v, producer_pos = 0, consumed_any = False,
       process = log_event (LoadConsumerPos v) p\<rparr>)"

definition consume_ring_records :: "world \<Rightarrow> ringbuf_consumer \<Rightarrow> proc \<Rightarrow> proc option" where
  "consume_ring_records w c p =
     map_option process (while_option (\<lambda>st. phase st \<noteq> Returned) (ring_step w c) (ring_start w p))"

section \<open>Polling\<close>

definition not_a_ringbuf :: io_error where
  "not_a_ringbuf = Custom InvalidInput (str_lit (''fd does not reference a BPF ring buffer map. '' @
     ''Fix: pass the fd returned by create_ringbuf or a BPF_MAP_TYPE_RINGBUF map.''))"

text \<open>Locals are dropped in reverse order of their declaration: the epoll descriptor, then the mappings.\<close>

definition poll_ringbuf :: "world \<Rightarrow> raw_fd \<Rightarrow> proc \<Rightarrow> ((io_error + unit) \<times> proc) option" where
  "poll_ringbuf w map_fd p =
     (case map_info w map_fd p of
        (Inl e, p) \<Rightarrow> Some (Err e, p)
      | (Inr info, p) \<Rightarrow>
        if map_type info \<noteq> BPF_MAP_TYPE_RINGBUF then Some (Err not_a_ringbuf, p)
        else (case page_size_of w p of
          (Inl e, p) \<Rightarrow> Some (Err e, p)
        | (Inr page_sz, p) \<Rightarrow>
          (case ringbuf_consumer_new w map_fd (ucast (max_entries info)) page_sz p of
            (Inl e, p) \<Rightarrow> Some (Err e, p)
          | (Inr consumer, p) \<Rightarrow>
            (case epoll_new w p of
              (Inl e, p) \<Rightarrow> Some (Err e, ringbuf_consumer_drop w consumer p)
            | (Inr epfd, p) \<Rightarrow>
              let finish = (\<lambda>r p. Some (r, ringbuf_consumer_drop w consumer (epoll_drop w epfd p))) in
              (case epoll_add w epfd map_fd p of
                (Inl e, p) \<Rightarrow> finish (Err e) p
              | (Inr _, p) \<Rightarrow>
                (case epoll_wait w epfd p of
                  None \<Rightarrow> None
                | Some (Inl e, p) \<Rightarrow> finish (Err e) p
                | Some (Inr _, p) \<Rightarrow>
                  (case consume_ring_records w consumer p of
                    None \<Rightarrow> None
                  | Some p \<Rightarrow> finish (Ok ()) p)))))))"

section \<open>Record sizes and bounds\<close>

lemma header_size: "size_of_ringbuf_header = BPF_RINGBUF_HDR_SZ"
  by (simp add: size_of_ringbuf_header_def repr_c_size_def BPF_RINGBUF_HDR_SZ_def)

lemma unat_align_down: "unat (x AND NOT 7 :: u64) = unat x div 8 * 8"
proof -
  have seven: "(7 :: u64) = mask 3"
    by (simp add: mask_eq_exp_minus_1)
  have "x AND NOT 7 = push_bit 3 (drop_bit 3 x)"
    unfolding seven by (rule bit_word_eqI) (auto simp: bit_simps)
  also have "\<dots> = (x div 8) * 8"
    by (simp add: push_bit_eq_mult drop_bit_eq_div)
  finally have "unat (x AND NOT 7) = unat ((x div 8) * 8)"
    by simp
  also have "\<dots> = unat (x div 8) * 8"
    using unat_bound [of x] by (subst unat_mult_small) (simp_all add: unat_div)
  finally show ?thesis by (simp add: unat_div)
qed

lemma unat_saturating_add:
  "unat (saturating_add a b :: u64) = min (unat a + unat b) (2 ^ 64 - 1)"
proof -
  have "unat (- 1 :: u64) = 2 ^ 64 - 1"
    by (simp add: unsigned_minus_1_eq_mask mask_eq_exp_minus_1)
  then show ?thesis
    by (simp add: saturating_add_def unat_add_small min_def)
qed

lemma unat_round_record_len:
  "unat (round_record_len n) = min (unat n + 15) (2 ^ 64 - 1) div 8 * 8"
  unfolding round_record_len_def Let_def unat_align_down
  by (simp add: BPF_RINGBUF_HDR_SZ_def unat_saturating_add min_def) presburger

lemma record_within_mapping_iff:
  "record_within_mapping off' n rs \<longleftrightarrow>
     unat off' + unat n < 2 ^ 64 \<and> unat rs * 2 < 2 ^ 64 \<and> unat off' + unat n \<le> unat rs * 2"
  by (auto simp: record_within_mapping_def checked_add_def checked_mul_def word_le_nat_alt
      unat_add_small unat_mult_small)

section \<open>Properties of the arithmetic\<close>

text \<open>
  The stride of the consumer is right for every length a header can hold, and safe for
  any other: it is a multiple of eight, the least one that covers the header and the data
  as long as that is representable, and otherwise the largest 64-bit multiple of eight.
\<close>

theorem round_record_len_least:
  "8 dvd unat (round_record_len n)
   \<and> (if unat n + 15 < 2 ^ 64 then
        unat n + 8 \<le> unat (round_record_len n)
        \<and> (\<forall>m. 8 dvd m \<and> unat n + 8 \<le> m \<longrightarrow> unat (round_record_len n) \<le> m)
      else unat (round_record_len n) = 2 ^ 64 - 8)"
proof (intro conjI)
  show "8 dvd unat (round_record_len n)"
    by (simp add: unat_round_record_len)
  show "if unat n + 15 < 2 ^ 64 then
        unat n + 8 \<le> unat (round_record_len n)
        \<and> (\<forall>m. 8 dvd m \<and> unat n + 8 \<le> m \<longrightarrow> unat (round_record_len n) \<le> m)
      else unat (round_record_len n) = 2 ^ 64 - 8"
  proof (cases "unat n + 15 < 2 ^ 64")
    case True
    then have r: "unat (round_record_len n) = (unat n + 15) div 8 * 8"
      by (simp add: unat_round_record_len min_def)
    have "(unat n + 15) div 8 * 8 \<le> m" if "8 dvd m" "unat n + 8 \<le> m" for m
      using that by (elim dvdE) simp
    moreover have "unat n + 8 \<le> (unat n + 15) div 8 * 8"
      by simp
    ultimately show ?thesis
      using True r by simp
  qed (simp add: unat_round_record_len min_def)
qed

theorem round_record_len_least_witness:
  "unat (round_record_len 9) = 24"
  using round_record_len_least [of 9] unat_round_record_len [of 9] by simp

text \<open>
  The bounds test accepts exactly the slices inside the doubly mapped ring: its checked
  arithmetic computes the mathematical comparison, and an overflow counts as outside.
\<close>

theorem record_within_mapping_exact:
  "record_within_mapping data_offset data_len ring_size \<longleftrightarrow>
     unat data_offset + unat data_len \<le> 2 * unat ring_size \<and> 2 * unat ring_size < 2 ^ 64"
  by (auto simp: record_within_mapping_iff)

end
