(* ===== verification/Threads.thy ===== *)
theory Threads
  imports Core_Detect Ringbuf
begin

text \<open>
  The loader keeps two pieces of state for the whole process: the \<open>OnceLock\<close> in which
  \<open>page_size\<close> caches its result and the \<open>Once\<close> that guards the warning of \<open>core_detect\<close>. Both
  may be used by several threads at the same time. Here the two functions are split into their
  atomic steps, a system is any number of threads in them, and one step of the system is one step
  of one thread, in any order. The properties hold for every interleaving: the page size all
  threads agree on, the warning that is printed once and before any of its callers returns, and
  that no schedule blocks or runs for ever. Alone, a thread computes what the sequential
  definitions \<open>page_size_of\<close> and \<open>warn_kernel_undetected\<close> say.
\<close>

section \<open>Threads and their steps\<close>

text \<open>
  Where a thread stands. In \<open>page_size\<close>: before \<open>CACHE.get\<close>, before \<open>sysconf\<close>, before
  \<open>CACHE.set\<close>, returned. In \<open>warn_kernel_undetected\<close>: before \<open>call_once\<close>, inside the closure
  before and after the line is written, returned.
\<close>

datatype thread =
    Page_get | Page_ask | Page_set usize | Page_done "io_error + usize"
  | Warn_enter rust_str | Warn_print rust_str | Warn_leave | Warn_done

text \<open>A thread in \<open>page_size\<close>; of two threads that set the cell, the first one's value stays.\<close>

fun page_step :: "world \<Rightarrow> thread \<Rightarrow> proc \<Rightarrow> (thread \<times> proc) option" where
  "page_step w Page_get p =
     (case page_cache p of Some value \<Rightarrow> Some (Page_done (Ok value), p) | None \<Rightarrow> Some (Page_ask, p))"
| "page_step w Page_ask p =
     (let (res, p) = call w Sysconf_pagesize p in
      if sint (ret res) \<le> 0 then Some (Page_done (Err (last_os_error res)), p)
      else Some (Page_set (ret res), p))"
| "page_step w (Page_set value) p =
     Some (Page_done (Ok value), (if page_cache p = None then p\<lparr>page_cache := Some value\<rparr> else p))"
| "page_step w _ p = None"

text \<open>
  Thread \<open>i\<close> in \<open>warn_kernel_undetected\<close>. The runner is the thread inside the closure of the \<open>Once\<close>;
  \<open>warned\<close> says that the closure has completed. A thread that meets a running \<open>Once\<close> blocks: it has
  no step.
\<close>

fun warn_step :: "nat \<Rightarrow> thread \<Rightarrow> proc \<times> nat option \<Rightarrow> (thread \<times> proc \<times> nat option) option" where
  "warn_step i (Warn_enter reason) (p, r) =
     (if warned p then Some (Warn_done, p, r)
      else if r = None then Some (Warn_print reason, p, Some i) else None)"
| "warn_step i (Warn_print reason) (p, r) = Some (Warn_leave, eprintln (undetected_text reason) p, r)"
| "warn_step i Warn_leave (p, r) = Some (Warn_done, p\<lparr>warned := True\<rparr>, None)"
| "warn_step i _ (p, r) = None"

definition thread_step ::
  "world \<Rightarrow> nat \<Rightarrow> thread \<Rightarrow> proc \<times> nat option \<Rightarrow> (thread \<times> proc \<times> nat option) option" where
  "thread_step w i t s =
     (case page_step w t (fst s) of Some (t', p) \<Rightarrow> Some (t', p, snd s) | None \<Rightarrow> warn_step i t s)"

lemma thread_step_simps [simp]:
  "thread_step w i Page_get (p, r) =
     (case page_cache p of Some value \<Rightarrow> Some (Page_done (Ok value), p, r) | None \<Rightarrow> Some (Page_ask, p, r))"
  "thread_step w i Page_ask (p, r) =
     (let (res, p) = call w Sysconf_pagesize p in
      if sint (ret res) \<le> 0 then Some (Page_done (Err (last_os_error res)), p, r)
      else Some (Page_set (ret res), p, r))"
  "thread_step w i (Page_set value) (p, r) =
     Some (Page_done (Ok value), (if page_cache p = None then p\<lparr>page_cache := Some value\<rparr> else p), r)"
  "thread_step w i (Page_done res) (p, r) = None"
  "thread_step w i (Warn_enter reason) (p, r) =
     (if warned p then Some (Warn_done, p, r)
      else if r = None then Some (Warn_print reason, p, Some i) else None)"
  "thread_step w i (Warn_print reason) (p, r) = Some (Warn_leave, eprintln (undetected_text reason) p, r)"
  "thread_step w i Warn_leave (p, r) = Some (Warn_done, p\<lparr>warned := True\<rparr>, None)"
  "thread_step w i Warn_done (p, r) = None"
  by (auto simp: thread_step_def Let_def split: option.splits prod.splits)

record sys =
  shared :: proc
  runner :: "nat option"
  threads :: "thread list"

inductive sys_step :: "world \<Rightarrow> sys \<Rightarrow> sys \<Rightarrow> bool" for w where
  sys_stepI: "i < length (threads s) \<Longrightarrow> thread_step w i (threads s ! i) (shared s, runner s) = Some (t, p, r) \<Longrightarrow>
    sys_step w s \<lparr>shared = p, runner = r, threads = (threads s)[i := t]\<rparr>"

inductive_cases sys_stepE: "sys_step w s s'"

inductive sys_run :: "world \<Rightarrow> nat \<Rightarrow> sys \<Rightarrow> sys \<Rightarrow> bool" for w where
  run_start: "sys_run w 0 s s"
| run_step: "sys_run w n s t \<Longrightarrow> sys_step w t u \<Longrightarrow> sys_run w (Suc n) s u"

fun entering :: "thread \<Rightarrow> bool" where
  "entering Page_get = True"
| "entering (Warn_enter reason) = True"
| "entering _ = False"

fun finished :: "thread \<Rightarrow> bool" where
  "finished (Page_done res) = True"
| "finished Warn_done = True"
| "finished _ = False"

text \<open>Threads that all call one of the two functions, in a process in any state.\<close>

definition starts :: "proc \<Rightarrow> sys \<Rightarrow> bool" where
  "starts p s \<longleftrightarrow> shared s = p \<and> runner s = None \<and> list_all entering (threads s)"

section \<open>The steps terminate\<close>

fun steps_left :: "thread \<Rightarrow> nat" where
  "steps_left Page_get = 3" | "steps_left Page_ask = 2" | "steps_left (Page_set v) = 1"
| "steps_left (Warn_enter m) = 3" | "steps_left (Warn_print m) = 2" | "steps_left Warn_leave = 1"
| "steps_left _ = 0"

lemma thread_step_left: "thread_step w i t (p, r) = Some (t', p', r') \<Longrightarrow> steps_left t' < steps_left t"
  by (cases t) (auto simp: Let_def split: option.splits if_splits prod.splits)

lemma sum_list_update_less: "i < length xs \<Longrightarrow> f y < f (xs ! i) \<Longrightarrow> (\<Sum>x\<leftarrow>xs[i := y]. f x) < (\<Sum>x\<leftarrow>xs. (f x :: nat))"
proof (induction xs arbitrary: i)
  case (Cons x xs)
  then show ?case by (cases i) auto
qed simp

lemma sys_step_left: "sys_step w s s' \<Longrightarrow> (\<Sum>t\<leftarrow>threads s'. steps_left t) < (\<Sum>t\<leftarrow>threads s. steps_left t)"
  by (erule sys_stepE) (auto intro!: sum_list_update_less thread_step_left)

lemma sys_run_left: "sys_run w n s s' \<Longrightarrow> n + (\<Sum>t\<leftarrow>threads s'. steps_left t) \<le> (\<Sum>t\<leftarrow>threads s. steps_left t)"
  by (induction rule: sys_run.induct) (auto dest: sys_step_left)

lemma entering_left: "list_all entering ts \<Longrightarrow> (\<Sum>t\<leftarrow>ts. steps_left t) = 3 * length ts"
proof (induction ts)
  case (Cons t ts)
  then show ?case by (cases t) auto
qed simp

section \<open>The once-only warning\<close>

fun in_closure :: "thread \<Rightarrow> bool" where
  "in_closure (Warn_print reason) = True"
| "in_closure Warn_leave = True"
| "in_closure _ = False"

definition warnings :: "proc \<Rightarrow> nat" where
  "warnings p = length (filter is_stderr (hist p))"

text \<open>
  The invariant: the runner is the one thread inside the closure, and there is none once the
  closure has completed; whoever has returned from \<open>call_once\<close> has seen it completed; the line has been
  written exactly if the closure has got past it.
\<close>

definition printed :: "sys \<Rightarrow> bool" where
  "printed s \<longleftrightarrow> warned (shared s) \<or> (\<exists>i. runner s = Some i \<and> threads s ! i = Warn_leave)"

definition once_inv :: "proc \<Rightarrow> sys \<Rightarrow> bool" where
  "once_inv p0 s \<longleftrightarrow>
     (\<forall>i < length (threads s). in_closure (threads s ! i) \<longleftrightarrow> runner s = Some i)
     \<and> (\<forall>i. runner s = Some i \<longrightarrow> i < length (threads s) \<and> \<not> warned (shared s))
     \<and> (\<forall>i < length (threads s). threads s ! i = Warn_done \<longrightarrow> warned (shared s))
     \<and> (warned p0 \<longrightarrow> warned (shared s))
     \<and> warnings (shared s) = warnings p0 + (if \<not> warned p0 \<and> printed s then 1 else 0)"

lemma warnings_simps [simp]:
  "warnings (eprintln m p) = Suc (warnings p)" "warnings (log_event (Sys c r) p) = warnings p"
  "warnings (p\<lparr>page_cache := v\<rparr>) = warnings p" "warnings (p\<lparr>warned := b\<rparr>) = warnings p"
  by (simp_all add: warnings_def)

text \<open>What a step inside the \<open>Once\<close> does, and that every other step leaves it alone.\<close>

lemma thread_step_once:
  assumes "thread_step w i t (p, r) = Some (t', p', r')"
  obtains (outside) "\<not> in_closure t" "\<not> in_closure t'" "r' = r" "warned p' = warned p" "warnings p' = warnings p"
      "t' = Warn_done \<longrightarrow> warned p"
  | (enter) "\<not> in_closure t" "in_closure t'" "t' \<noteq> Warn_leave" "r = None" "r' = Some i" "p' = p" "\<not> warned p"
  | (print) reason where "t = Warn_print reason" "t' = Warn_leave" "r' = r" "warned p' = warned p" "warnings p' = Suc (warnings p)"
  | (leave) "t = Warn_leave" "t' = Warn_done" "r' = None" "warned p'" "warnings p' = warnings p"
  using assms by (cases t) (auto simp: call_def Let_def split: option.splits if_splits)

lemma once_inv_step:
  assumes "once_inv p0 s" "sys_step w s s'"
  shows "once_inv p0 s'"
  using assms(2)
proof (cases rule: sys_step.cases)
  case (sys_stepI i t p r)
  note i = sys_stepI(2) and s' = sys_stepI(1)
  have running: "in_closure (threads s ! i) \<longleftrightarrow> runner s = Some i"
    using assms(1) i by (simp add: once_inv_def)
  from sys_stepI(3) show ?thesis
  proof (cases rule: thread_step_once)
    case outside
    then have "runner s \<noteq> Some i" using running by simp
    then have "printed s' = printed s"
      using outside by (auto simp: s' printed_def nth_list_update)
    then show ?thesis
      using outside assms(1) i by (auto simp: s' once_inv_def nth_list_update)
  next
    case enter
    then have "printed s' = printed s"
      using i by (simp add: s' printed_def)
    then show ?thesis
      using enter assms(1) i by (auto simp: s' once_inv_def nth_list_update)
  next
    case print
    then have r: "runner s = Some i" using running by simp
    then have "\<not> printed s" "printed s'" "\<not> warned p0"
      using print assms(1) i by (auto simp: s' printed_def once_inv_def)
    then show ?thesis
      using print assms(1) i r by (auto simp: s' once_inv_def nth_list_update)
  next
    case leave
    then have r: "runner s = Some i" using running by simp
    then have "printed s" "printed s'"
      using leave by (auto simp: s' printed_def)
    then show ?thesis
      using leave assms(1) i r by (auto simp: s' once_inv_def nth_list_update)
  qed
qed

lemma once_inv_run: "sys_run w n s s' \<Longrightarrow> once_inv p0 s \<Longrightarrow> once_inv p0 s'"
  by (induction rule: sys_run.induct) (auto intro: once_inv_step)

lemma once_inv_start: "starts p s \<Longrightarrow> once_inv p s"
proof -
  assume start: "starts p s"
  have "\<not> in_closure t \<and> t \<noteq> Warn_done" if "entering t" for t
    using that by (cases t) auto
  then show ?thesis
    using start by (auto simp: starts_def once_inv_def printed_def list_all_length)
qed

text \<open>A blocked thread waits for a running one, and a running one is never blocked.\<close>

lemma not_stuck:
  assumes "once_inv p0 s" "\<not> list_all finished (threads s)"
  shows "\<exists>s'. sys_step w s s'"
proof -
  have moves: "\<exists>s'. sys_step w s s'"
    if "i < length (threads s)" "thread_step w i (threads s ! i) (shared s, runner s) \<noteq> None" for i
    using that sys_stepI by (metis not_None_eq prod_cases3)
  obtain i where i: "i < length (threads s)" "\<not> finished (threads s ! i)"
    using assms(2) by (auto simp: list_all_length)
  show ?thesis
  proof (cases "thread_step w i (threads s ! i) (shared s, runner s)")
    case None
    then obtain j where j: "runner s = Some j"
      using i(2) by (cases "threads s ! i") (auto simp: Let_def split: option.splits if_splits prod.splits)
    then have "j < length (threads s)" "in_closure (threads s ! j)"
      using assms(1) by (auto simp: once_inv_def)
    then show ?thesis by (intro moves [of j]) (cases "threads s ! j"; simp)+
  next
    case (Some a)
    then show ?thesis using moves [OF i(1)] by (cases a) auto
  qed
qed

section \<open>The cached page size\<close>

text \<open>
  Where a page size comes from, whatever the kernel answers: it was cached before, or the kernel has answered it during
  the run; and whoever has returned one has left the cache filled.
\<close>

definition known_size :: "proc \<Rightarrow> event list \<Rightarrow> usize \<Rightarrow> bool" where
  "known_size p0 evs v \<longleftrightarrow> page_cache p0 = Some v \<or> (\<exists>r. Sys Sysconf_pagesize r \<in> set evs \<and> ret r = v \<and> 0 < sint v)"

fun page_thread_ok :: "proc \<Rightarrow> event list \<Rightarrow> usize option \<Rightarrow> thread \<Rightarrow> bool" where
  "page_thread_ok p0 evs cache (Page_set v) = known_size p0 evs v"
| "page_thread_ok p0 evs cache (Page_done (Inr v)) \<longleftrightarrow> known_size p0 evs v \<and> cache \<noteq> None"
| "page_thread_ok p0 evs cache (Page_done (Inl e)) \<longleftrightarrow>
     (\<exists>r. Sys Sysconf_pagesize r \<in> set evs \<and> sint (ret r) \<le> 0 \<and> e = last_os_error r)"
| "page_thread_ok p0 evs cache _ = True"

definition page_inv :: "world \<Rightarrow> proc \<Rightarrow> event list \<Rightarrow> sys \<Rightarrow> bool" where
  "page_inv w p0 evs s \<longleftrightarrow> hist (shared s) = hist p0 @ evs
     \<and> (\<forall>r. Sys Sysconf_pagesize r \<in> set evs \<longrightarrow> (\<exists>h. r = kcall w h Sysconf_pagesize))
     \<and> (\<forall>v. page_cache (shared s) = Some v \<longrightarrow> known_size p0 evs v)
     \<and> list_all (page_thread_ok p0 evs (page_cache (shared s))) (threads s)"

lemma page_thread_ok_mono:
  "page_thread_ok p0 evs c t \<Longrightarrow> (c \<noteq> None \<longrightarrow> c' \<noteq> None) \<Longrightarrow> page_thread_ok p0 (evs @ es) c' t"
  by (cases "(p0, evs, c, t)" rule: page_thread_ok.cases) (auto simp: known_size_def)

text \<open>What one step of a thread adds to the history and does to the cache.\<close>

lemma thread_step_page:
  assumes "thread_step w i t (p, r) = Some (t', p', r')" "page_thread_ok p0 evs (page_cache p) t"
    and "\<forall>v. page_cache p = Some v \<longrightarrow> known_size p0 evs v"
  obtains es where "hist p' = hist p @ es" "page_thread_ok p0 (evs @ es) (page_cache p') t'"
    "\<forall>v. page_cache p' = Some v \<longrightarrow> known_size p0 (evs @ es) v" "page_cache p \<noteq> None \<longrightarrow> page_cache p' \<noteq> None"
    "\<forall>r. Sys Sysconf_pagesize r \<in> set es \<longrightarrow> r = kcall w (hist p) Sysconf_pagesize"
proof -
  let ?ok = "\<lambda>es. hist p' = hist p @ es \<and> page_thread_ok p0 (evs @ es) (page_cache p') t'
    \<and> (\<forall>v. page_cache p' = Some v \<longrightarrow> known_size p0 (evs @ es) v) \<and> (page_cache p \<noteq> None \<longrightarrow> page_cache p' \<noteq> None)
    \<and> (\<forall>r. Sys Sysconf_pagesize r \<in> set es \<longrightarrow> r = kcall w (hist p) Sysconf_pagesize)"
  have "?ok [] \<or> ?ok [Sys Sysconf_pagesize (kcall w (hist p) Sysconf_pagesize)] \<or> (\<exists>m. ?ok [Stderr m])"
    using assms by (cases t) (auto simp: call_def eprintln_def Let_def known_size_def split: option.splits if_splits)
  then show thesis
    using that by blast
qed

lemma page_inv_step:
  assumes "page_inv w p0 evs s" "sys_step w s s'"
  shows "\<exists>evs'. page_inv w p0 evs' s'"
  using assms(2)
proof (cases rule: sys_step.cases)
  case (sys_stepI i t p r)
  have "page_thread_ok p0 evs (page_cache (shared s)) (threads s ! i)" "\<forall>v. page_cache (shared s) = Some v \<longrightarrow> known_size p0 evs v"
    using assms(1) sys_stepI(2) by (auto simp: page_inv_def list_all_length)
  from sys_stepI(3) this obtain es where moved: "hist p = hist (shared s) @ es" "page_thread_ok p0 (evs @ es) (page_cache p) t"
    "\<forall>v. page_cache p = Some v \<longrightarrow> known_size p0 (evs @ es) v" "page_cache (shared s) \<noteq> None \<longrightarrow> page_cache p \<noteq> None"
    "\<forall>r. Sys Sysconf_pagesize r \<in> set es \<longrightarrow> r = kcall w (hist (shared s)) Sysconf_pagesize"
    by (rule thread_step_page)
  have "page_inv w p0 (evs @ es) s'"
    using assms(1) sys_stepI(1,2) moved(1-3,5) page_thread_ok_mono [OF _ moved(4)]
    by (auto simp: page_inv_def list_all_length nth_list_update)
  then show ?thesis by blast
qed

lemma page_inv_run: "sys_run w n s s' \<Longrightarrow> page_inv w p0 evs s \<Longrightarrow> \<exists>evs'. page_inv w p0 evs' s'"
  by (induction rule: sys_run.induct) (auto dest: page_inv_step)

lemma page_inv_start:
  assumes "starts p s"
  shows "page_inv w p [] s"
proof -
  have "page_thread_ok p [] c t" if "entering t" for c t
    using that by (cases t) auto
  then show ?thesis
    using assms by (auto simp: starts_def page_inv_def list_all_length known_size_def)
qed

text \<open>A filled cache is never overwritten, whatever the kernel answers.\<close>

lemma cache_stable_step: "sys_step w s s' \<Longrightarrow> page_cache (shared s) = Some v \<Longrightarrow> page_cache (shared s') = Some v"
proof (erule sys_stepE)
  fix i t p r
  assume "thread_step w i (threads s ! i) (shared s, runner s) = Some (t, p, r)" "page_cache (shared s) = Some v"
    "s' = \<lparr>shared = p, runner = r, threads = (threads s)[i := t]\<rparr>"
  then show ?thesis
    by (cases "threads s ! i") (auto simp: call_def Let_def split: option.splits if_splits)
qed

lemma cache_stable: "sys_run w n s s' \<Longrightarrow> page_cache (shared s) = Some v \<Longrightarrow> page_cache (shared s') = Some v"
  by (induction rule: sys_run.induct) (auto intro: cache_stable_step)

lemma run_length: "sys_run w n s s' \<Longrightarrow> length (threads s') = length (threads s)"
  by (induction rule: sys_run.induct) (auto elim!: sys_stepE)

text \<open>A thread that enters when the cache is filled comes back with what it holds.\<close>

lemma hit_stable:
  assumes "sys_run w n s s'" "page_cache (shared s) = Some v" "i < length (threads s)" "threads s ! i = Page_get"
  shows "threads s' ! i \<in> {Page_get, Page_done (Ok v)}"
  using assms
proof (induction rule: sys_run.induct)
  case (run_step n s t u)
  note now = run_step.IH [OF run_step.prems] cache_stable [OF run_step.hyps(1) run_step.prems(1)] run_length [OF run_step.hyps(1)]
  from run_step.hyps(2) show ?case
  proof (cases rule: sys_step.cases)
    case (sys_stepI j t' p r)
    then show ?thesis
      using now run_step.prems(2) by (cases "j = i") auto
  qed
qed simp

section \<open>One thread alone\<close>

lemma run_thread:
  "thread_step w 0 t (p, r) = Some (t', p', r') \<Longrightarrow> sys_run w n s \<lparr>shared = p, runner = r, threads = [t]\<rparr> \<Longrightarrow>
     sys_run w (Suc n) s \<lparr>shared = p', runner = r', threads = [t']\<rparr>"
  using run_step sys_stepI [of 0 "\<lparr>shared = p, runner = r, threads = [t]\<rparr>" w t' p' r'] by simp

lemma page_thread_alone:
  "\<exists>n. sys_run w n \<lparr>shared = p, runner = None, threads = [Page_get]\<rparr>
     \<lparr>shared = snd (page_size_of w p), runner = None, threads = [Page_done (fst (page_size_of w p))]\<rparr>"
proof (cases "page_cache p")
  case None
  let ?r = "kcall w (hist p) Sysconf_pagesize" and ?s = "\<lparr>shared = p, runner = None, threads = [Page_get]\<rparr>"
  have ask: "sys_run w (Suc 0) ?s \<lparr>shared = p, runner = None, threads = [Page_ask]\<rparr>"
    by (rule run_thread [OF _ run_start]) (simp add: None)
  show ?thesis
  proof (cases "sint (ret ?r) \<le> 0")
    case True
    then show ?thesis
      using run_thread [OF _ ask, of "Page_done (Err (last_os_error ?r))" "log_event (Sys Sysconf_pagesize ?r) p" None]
      by (auto simp: page_size_of_def call_def None Let_def)
  next
    case False
    then have "sys_run w (Suc (Suc 0)) ?s
        \<lparr>shared = log_event (Sys Sysconf_pagesize ?r) p, runner = None, threads = [Page_set (ret ?r)]\<rparr>"
      by (intro run_thread [OF _ ask]) (simp add: call_def Let_def)
    from run_thread [OF _ this] False show ?thesis
      by (force simp: page_size_of_def call_def None Let_def)
  qed
next
  case (Some v)
  then have "sys_run w (Suc 0) \<lparr>shared = p, runner = None, threads = [Page_get]\<rparr>
      \<lparr>shared = p, runner = None, threads = [Page_done (Ok v)]\<rparr>"
    by (intro run_thread [OF _ run_start]) simp
  then show ?thesis
    by (auto simp: page_size_of_def Some)
qed

lemma warn_thread_alone:
  "\<exists>n. sys_run w n \<lparr>shared = p, runner = None, threads = [Warn_enter reason]\<rparr>
     \<lparr>shared = warn_kernel_undetected reason p, runner = None, threads = [Warn_done]\<rparr>"
proof (cases "warned p")
  case True
  have "sys_run w (Suc 0) \<lparr>shared = p, runner = None, threads = [Warn_enter reason]\<rparr>
      \<lparr>shared = p, runner = None, threads = [Warn_done]\<rparr>"
    by (rule run_thread [OF _ run_start]) (simp add: True)
  then show ?thesis
    by (auto simp: warn_kernel_undetected_def True)
next
  case False
  have "sys_run w (Suc 0) \<lparr>shared = p, runner = None, threads = [Warn_enter reason]\<rparr>
      \<lparr>shared = p, runner = Some 0, threads = [Warn_print reason]\<rparr>"
    by (rule run_thread [OF _ run_start]) (simp add: False)
  from run_thread [OF _ run_thread [OF _ this]] show ?thesis
    by (force simp: warn_kernel_undetected_def False)
qed

section \<open>Properties\<close>

text \<open>
  C17: the warning of an undetectable kernel is written once per process, whatever threads find out at the
  same time and in whatever order their steps interleave: never more than one line, and a
  thread that has returned from the warning knows that the line has been written.
\<close>

theorem threads_warn_once:
  assumes "starts p s" "sys_run w n s s'"
  shows "warnings (shared s') \<le> warnings p + (if warned p then 0 else 1)
    \<and> (Warn_done \<in> set (threads s') \<longrightarrow>
         warned (shared s') \<and> warnings (shared s') = warnings p + (if warned p then 0 else 1))"
proof -
  have "once_inv p s'"
    by (rule once_inv_run [OF assms(2) once_inv_start [OF assms(1)]])
  then show ?thesis
    by (auto simp: once_inv_def printed_def in_set_conv_nth)
qed

definition two_warners :: sys where
  "two_warners = \<lparr>shared = \<lparr>hist = [], page_cache = None, warned = False\<rparr>, runner = None,
     threads = [Warn_enter [], Warn_enter []]\<rparr>"

lemma two_warners_run: "\<exists>s. sys_run w 1 two_warners s \<and> threads s = [Warn_enter [], Warn_print []]"
  using run_step [OF run_start [of w two_warners] sys_stepI [of 1 two_warners w "Warn_print []" "shared two_warners" "Some 1"]]
  by (auto simp: two_warners_def)

theorem threads_warn_once_witness:
  "\<exists>s. sys_run release_world 1 two_warners s \<and> threads s = [Warn_enter [], Warn_print []] \<and> warnings (shared s) \<le> 1"
proof -
  obtain s where s: "sys_run release_world 1 two_warners s" "threads s = [Warn_enter [], Warn_print []]"
    using two_warners_run by blast
  have "starts (shared two_warners) two_warners"
    by (simp add: starts_def two_warners_def)
  from threads_warn_once [OF this s(1)] s show ?thesis
    by (auto simp: two_warners_def warnings_def)
qed

text \<open>
  C18: the shared state never blocks the process: every schedule of \<open>k\<close> threads ends after at most
  \<open>3 * k\<close> steps, and as long as some thread has not returned, some thread can move (a thread that waits for the
  \<open>Once\<close> waits for one that is not waiting).
\<close>

theorem threads_finish:
  assumes "starts p s" "sys_run w n s s'"
  shows "n \<le> 3 * length (threads s) \<and> (list_all finished (threads s') \<or> (\<exists>s''. sys_step w s' s''))"
proof -
  have "n \<le> 3 * length (threads s)"
    using sys_run_left [OF assms(2)] entering_left [of "threads s"] assms(1) by (simp add: starts_def)
  moreover have "once_inv p s'"
    by (rule once_inv_run [OF assms(2) once_inv_start [OF assms(1)]])
  ultimately show ?thesis
    using not_stuck [of p s' w] by blast
qed

theorem threads_finish_witness:
  "\<exists>s. sys_run release_world 1 two_warners s \<and> threads s = [Warn_enter [], Warn_print []]
     \<and> (\<exists>s''. sys_step release_world s s'')"
proof -
  obtain s where s: "sys_run release_world 1 two_warners s" "threads s = [Warn_enter [], Warn_print []]"
    using two_warners_run by blast
  have "starts (shared two_warners) two_warners"
    by (simp add: starts_def two_warners_def)
  from threads_finish [OF this s(1)] s show ?thesis
    by auto
qed

text \<open>
  C39: threads that ask for the page size at the same time. Whatever the kernel answers: a filled cache is never
  overwritten; a thread that enters when it is filled returns what it holds; every size a thread has returned was
  cached before, or is a positive answer of the kernel during the run, and the cache is then filled. If the kernel's
  answer is positive and does not change (POSIX fixes it for the life of a process), all threads that have returned
  have returned it.
\<close>

theorem threads_agree_on_page_size:
  assumes "starts p s" "sys_run w n s s'" "sys_run w m s' s''"
  shows "(\<forall>v. page_cache (shared s') = Some v \<longrightarrow> page_cache (shared s'') = Some v
      \<and> (\<forall>i < length (threads s'). threads s' ! i = Page_get \<longrightarrow> threads s'' ! i \<in> {Page_get, Page_done (Ok v)}))
    \<and> (\<exists>evs. hist (shared s') = hist p @ evs \<and> (\<forall>v. Page_done (Ok v) \<in> set (threads s') \<longrightarrow>
        page_cache (shared s') \<noteq> None
        \<and> (page_cache p = Some v \<or> (\<exists>r. Sys Sysconf_pagesize r \<in> set evs \<and> ret r = v \<and> 0 < sint v))))
    \<and> (\<forall>ps. (\<forall>h. ret (kcall w h Sysconf_pagesize) = ps) \<and> 0 < sint ps \<and> page_cache p \<in> {None, Some ps} \<longrightarrow>
        (\<forall>res. Page_done res \<in> set (threads s') \<longrightarrow> res = Ok ps))"
proof -
  obtain evs where inv: "page_inv w p evs s'"
    using page_inv_run [OF assms(2) page_inv_start [OF assms(1)]] by blast
  then have ok: "page_thread_ok p evs (page_cache (shared s')) t" if "t \<in> set (threads s')" for t
    using that by (auto simp: page_inv_def list_all_iff)
  have "res = Ok ps" if "\<forall>h. ret (kcall w h Sysconf_pagesize) = ps" "0 < sint ps" "page_cache p \<in> {None, Some ps}"
    "Page_done res \<in> set (threads s')" for res ps
    using that inv ok [OF that(4)] by (cases res) (auto simp: page_inv_def known_size_def)
  moreover have "hist (shared s') = hist p @ evs"
    using inv by (simp add: page_inv_def)
  ultimately show ?thesis
    using cache_stable [OF assms(3)] hit_stable [OF assms(3)] ok by (fastforce simp: known_size_def)
qed

definition paged_world :: world where
  "paged_world = release_world\<lparr>kcall := \<lambda>h c. (kcall release_world h c)\<lparr>ret := 4096\<rparr>\<rparr>"

theorem threads_agree_on_page_size_witness:
  "\<exists>s. sys_run paged_world 3 \<lparr>shared = \<lparr>hist = [], page_cache = None, warned = False\<rparr>, runner = None, threads = [Page_get]\<rparr> s
     \<and> threads s = [Page_done (Ok 4096)] \<and> page_cache (shared s) \<noteq> None"
proof -
  let ?p = "\<lparr>hist = [], page_cache = None, warned = False\<rparr>"
  let ?s = "\<lparr>shared = ?p, runner = None, threads = [Page_get]\<rparr>"
  have "sys_run paged_world (Suc 0) ?s \<lparr>shared = ?p, runner = None, threads = [Page_ask]\<rparr>"
    by (rule run_thread [OF _ run_start]) simp
  then have "\<exists>q. sys_run paged_world (Suc (Suc 0)) ?s \<lparr>shared = q, runner = None, threads = [Page_set 4096]\<rparr>"
    using run_thread [of paged_world Page_ask ?p None "Page_set 4096" _ None]
    by (fastforce simp: call_def Let_def paged_world_def)
  then obtain q where q: "sys_run paged_world (Suc (Suc 0)) ?s \<lparr>shared = q, runner = None, threads = [Page_set 4096]\<rparr>" ..
  have "sys_run paged_world 3 ?s \<lparr>shared = (if page_cache q = None then q\<lparr>page_cache := Some 4096\<rparr> else q),
      runner = None, threads = [Page_done (Ok 4096)]\<rparr>"
    using run_thread [OF _ q] by (simp add: numeral_3_eq_3)
  then obtain t where t: "sys_run paged_world 3 ?s t" "threads t = [Page_done (Ok 4096)]"
    by fastforce
  have "starts ?p ?s"
    by (simp add: starts_def)
  note conjunct1 [OF conjunct2 [OF threads_agree_on_page_size [OF this t(1) run_start]]]
  then have "page_cache (shared t) \<noteq> None"
    using t(2) by auto
  with t show ?thesis by blast
qed

text \<open>
  The atomic steps are those of the sequential definitions: a thread that runs without
  interference ends with the result and the process state of \<open>page_size_of\<close>, and of
  \<open>warn_kernel_undetected\<close>, for every kernel and every initial state.
\<close>

theorem threads_alone_sequential:
  "(\<exists>n. sys_run w n \<lparr>shared = p, runner = None, threads = [Page_get]\<rparr>
     \<lparr>shared = snd (page_size_of w p), runner = None, threads = [Page_done (fst (page_size_of w p))]\<rparr>)
   \<and> (\<exists>n. sys_run w n \<lparr>shared = p, runner = None, threads = [Warn_enter reason]\<rparr>
     \<lparr>shared = warn_kernel_undetected reason p, runner = None, threads = [Warn_done]\<rparr>)"
  using page_thread_alone warn_thread_alone by blast

end
