(* ===== verification/Prog.thy ===== *)
theory Prog
  imports Os
begin

text \<open>
  Loading and attaching programs (\<open>src/loader/prog.rs\<close>): \<open>load_filter\<close> with its guards,
  the attribute structure it submits and the report it builds from the verifier log, and
  \<open>attach_to_socket\<close>. The properties give the complete behaviour for every kernel answer.
\<close>

section \<open>Operations\<close>

definition BPF_PROG_TYPE_SOCKET_FILTER :: u32 where "BPF_PROG_TYPE_SOCKET_FILTER = 1"
definition MAX_BPF_INSNS :: usize where "MAX_BPF_INSNS = 4096"

text \<open>\<open>BpfAttrProgLoad::default()\<close>\<close>

definition default_prog_load :: bpf_attr_prog_load where
  "default_prog_load =
     \<lparr>prog_type = 0, insn_cnt = 0, insns = [], license = [], log_level = 0, log_size = 0, log_buf = [],
      kern_version = 0, prog_flags = 0, prog_name = replicate 16 0, prog_ifindex = 0,
      expected_attach_type = 0, prog_btf_fd = 0, func_info_rec_size = 0, func_info = 0,
      func_info_cnt = 0, line_info_rec_size = 0, line_info = 0, line_info_cnt = 0, attach_btf_id = 0\<rparr>"

definition prog_load_attr :: "bpf_insn list \<Rightarrow> bpf_attr_prog_load" where
  "prog_load_attr prog = default_prog_load
     \<lparr>prog_type := BPF_PROG_TYPE_SOCKET_FILTER, insn_cnt := ucast (slice_len prog), insns := prog,
      license := [byte CHR ''G'', byte CHR ''P'', byte CHR ''L'', 0], log_level := 1,
      log_size := 16 * 1024, log_buf := replicate (16 * 1024) 0\<rparr>"

text \<open>The text appended to the kernel's error: the log without its NULs and outer blanks.\<close>

definition verifier_log :: "u8 list \<Rightarrow> rust_str" where
  "verifier_log buf =
     (let log = trim (trim_where (\<lambda>c. c = 0) (from_utf8_lossy buf))
      in if log = [] then str_lit ''(empty)'' else log)"

definition too_many_insns :: "usize \<Rightarrow> rust_str" where
  "too_many_insns n = str_lit (''BPF program has '' @ show_nat (unat n) @ '' instructions, exceeding the ''
     @ show_nat (unat MAX_BPF_INSNS)
     @ ''-instruction verifier limit. Fix: simplify the pattern or split into multiple programs.'')"

definition load_filter :: "world \<Rightarrow> bpf_insn list \<Rightarrow> proc \<Rightarrow> (io_error + raw_fd) \<times> proc" where
  "load_filter w prog p =
     (if prog = [] then
        (Err (Custom InvalidInput (str_lit ''BPF program is empty. Fix: provide at least one instruction.'')), p)
      else if slice_len prog > MAX_BPF_INSNS then
        (Err (Custom InvalidInput (too_many_insns (slice_len prog))), p)
      else if unat (slice_len prog) \<ge> 2 ^ 32 then
        (Err (Custom InvalidInput (str_lit ''BPF instruction count exceeds u32. Fix: reduce program size.'')), p)
      else
        let (r, p) = call w (Bpf_prog_load (prog_load_attr prog) size_of_prog_load) p in
        if failed r then
          let raw_err = last_os_error r in
          (Err (Custom (error_kind_of raw_err)
             (io_error_text (kstrerror w) raw_err @ str_lit '' -- BPF verifier log: '' @ verifier_log (out_bytes r))), p)
        else (Ok (ucast (ret r)), p))"

definition SOL_SOCKET :: i32 where "SOL_SOCKET = 1"
definition SO_ATTACH_BPF :: i32 where "SO_ATTACH_BPF = 50"

definition attach_to_socket :: "world \<Rightarrow> raw_fd \<Rightarrow> raw_fd \<Rightarrow> proc \<Rightarrow> (io_error + unit) \<times> proc" where
  "attach_to_socket w prog_fd socket_fd p =
     (let (res, p) = call w (Setsockopt socket_fd SOL_SOCKET SO_ATTACH_BPF prog_fd 4) p in
      if failed res then (Err (last_os_error res), p) else (Ok (), p))"

section \<open>Lemmas\<close>

lemma prog_load_attr_fields [simp]:
  "insns (prog_load_attr prog) = prog" "insn_cnt (prog_load_attr prog) = ucast (slice_len prog)"
  "prog_type (prog_load_attr prog) = 1" "log_size (prog_load_attr prog) = 16384"
  "log_buf (prog_load_attr prog) = replicate 16384 0"
  by (simp_all add: prog_load_attr_def BPF_PROG_TYPE_SOCKET_FILTER_def)

lemma insn_count_exact: "length prog \<le> 4096 \<Longrightarrow> unat (insn_cnt (prog_load_attr prog)) = length prog"
  by (simp add: slice_len_def unsigned_ucast_eq unat_of_nat take_bit_nat_eq_self)

text \<open>The two guards in terms of the length; the third never applies.\<close>

lemma load_filter_cases:
  assumes "fits_slice prog"
  shows "load_filter w prog p =
    (if prog = [] then
       (Err (Custom InvalidInput (str_lit ''BPF program is empty. Fix: provide at least one instruction.'')), p)
     else if length prog > 4096 then (Err (Custom InvalidInput (too_many_insns (slice_len prog))), p)
     else
       let c = Bpf_prog_load (prog_load_attr prog) 112; r = kcall w (hist p) c in
       (if failed r then
          Err (Custom (decode_error_kind (errno r))
             (io_error_text (kstrerror w) (OsError (errno r))
              @ str_lit '' -- BPF verifier log: '' @ verifier_log (out_bytes r)))
        else Ok (ucast (ret r)), log_event (Sys c r) p))"
proof -
  have "slice_len prog > MAX_BPF_INSNS \<longleftrightarrow> length prog > 4096"
    using assms by (simp add: word_less_nat_alt unat_slice_len MAX_BPF_INSNS_def)
  then show ?thesis
    using assms by (simp add: load_filter_def call_def last_os_error_def struct_sizes unat_slice_len Let_def)
qed

text \<open>The log is a C string at the start of a zeroed buffer: without its NULs, and without its outer blanks.\<close>

lemma verifier_log_c_string:
  assumes "\<forall>b \<in> set log. 0 < b \<and> b < 0x80"
  shows "verifier_log (log @ replicate k 0) = (if trim (map unat log) = [] then str_lit ''(empty)'' else trim (map unat log))"
proof -
  have "from_utf8_lossy (log @ replicate k 0) = map unat log @ replicate k 0"
    unfolding from_utf8_lossy_def using assms by (subst utf8_decode_ascii) auto
  moreover have "trim_where (\<lambda>c. c = 0) (map unat log @ replicate k 0) = map unat log"
  proof (cases "log = []")
    case True
    then show ?thesis
      using dropWhile_replicate [of "\<lambda>c. c = 0" 0 k "[]"] by (simp add: trim_where_def)
  next
    case False
    then have "hd log \<noteq> 0" "last log \<noteq> 0"
      using assms hd_in_set last_in_set by (metis less_irrefl)+
    with False show ?thesis
      by (intro trim_where_padded) (simp_all add: hd_map last_map unat_eq_zero)
  qed
  ultimately show ?thesis
    by (simp add: verifier_log_def)
qed

section \<open>Properties\<close>

text \<open>
  C31: \<open>load_filter\<close> and the kernel: a program of 1 to 4096 instructions is submitted in
  exactly one \<open>BPF_PROG_LOAD\<close> call whose instruction count, log size and structure size
  agree with the memory handed over, and the result is the kernel's descriptor or an
  error of the kernel's kind; any other program is refused as invalid input without a
  system call.
\<close>

theorem load_filter_submits:
  assumes "fits_slice prog"
  shows "if prog \<noteq> [] \<and> length prog \<le> 4096 then
      (\<exists>attr r. hist (snd (load_filter w prog p)) = hist p @ [Sys (Bpf_prog_load attr size_of_prog_load) r]
        \<and> r = kcall w (hist p) (Bpf_prog_load attr size_of_prog_load)
        \<and> insns attr = prog \<and> unat (insn_cnt attr) = length prog
        \<and> unat (log_size attr) = length (log_buf attr) \<and> prog_type attr = BPF_PROG_TYPE_SOCKET_FILTER
        \<and> (if failed r then \<exists>msg. fst (load_filter w prog p) = Err (Custom (decode_error_kind (errno r)) msg)
           else fst (load_filter w prog p) = Ok (ucast (ret r))))
    else snd (load_filter w prog p) = p \<and> (\<exists>msg. fst (load_filter w prog p) = Err (Custom InvalidInput msg))"
proof (cases "prog \<noteq> [] \<and> length prog \<le> 4096")
  case True
  then show ?thesis
    using insn_count_exact [of prog]
    by (auto simp: load_filter_cases [OF assms] Let_def struct_sizes BPF_PROG_TYPE_SOCKET_FILTER_def
        intro!: exI [of _ "prog_load_attr prog"])
qed (auto simp: load_filter_cases [OF assms])

definition accepting_world :: world where
  "accepting_world = \<lparr>kcall = (\<lambda>h c. \<lparr>ret = of_nat (3 + length h), errno = 0, out_bytes = replicate 16384 0,
       out_info = \<lparr>map_type = 27, map_id = 1, key_size = 0, value_size = 0, max_entries = 4096, map_flags = 0,
         map_name = replicate 16 0, ifindex = 0, btf_vmlinux_value_type_id = 0, netns_dev = 0, netns_ino = 0,
         btf_id = 0, btf_key_type_id = 0, btf_value_type_id = 0, map_extra = 0\<rparr>\<rparr>),
     kstrerror = (\<lambda>_. []),
     kshared = (\<lambda>_. \<lparr>view_consumer = 0, view_producer = 0, view_cell = (\<lambda>_. 0)\<rparr>)\<rparr>"

abbreviation fresh_proc :: proc where
  "fresh_proc \<equiv> \<lparr>hist = [], page_cache = None, warned = False\<rparr>"

theorem load_filter_submits_witness:
  "fst (load_filter accepting_world [exit_insn] fresh_proc) = Ok 3"
  using load_filter_submits [of "[exit_insn]" accepting_world fresh_proc]
  by (auto simp: accepting_world_def failed_def)

text \<open>
  C32: a rejected program is reported with the verifier's words: whatever ASCII text the kernel leaves, NUL-terminated,
  in the zeroed log buffer, the error message is the system's error text followed by that
  log without the blanks and line ends around it, and by \<open>(empty)\<close> when nothing else is left of it.
\<close>

theorem load_filter_reports_log:
  assumes "fits_slice prog" "prog \<noteq> []" "length prog \<le> 4096"
    and "r = kcall w (hist p) (Bpf_prog_load (prog_load_attr prog) size_of_prog_load)" "failed r"
    and "\<forall>b \<in> set log. 0 < b \<and> b < 0x80" "out_bytes r = log @ replicate k 0"
  shows "\<exists>before text after. map unat log = before @ text @ after
    \<and> list_all is_whitespace before \<and> list_all is_whitespace after
    \<and> (text \<noteq> [] \<longrightarrow> \<not> is_whitespace (hd text) \<and> \<not> is_whitespace (last text))
    \<and> fst (load_filter w prog p) = Err (Custom (decode_error_kind (errno r))
        (io_error_text (kstrerror w) (OsError (errno r)) @ str_lit '' -- BPF verifier log: ''
         @ (if text = [] then str_lit ''(empty)'' else text)))"
proof -
  obtain before after where split: "map unat log = before @ trim (map unat log) @ after"
    "list_all is_whitespace before" "list_all is_whitespace after"
    "trim (map unat log) \<noteq> [] \<longrightarrow> \<not> is_whitespace (hd (trim (map unat log))) \<and> \<not> is_whitespace (last (trim (map unat log)))"
    unfolding trim_def by (rule trim_where_split)
  have "fst (load_filter w prog p) = Err (Custom (decode_error_kind (errno r))
      (io_error_text (kstrerror w) (OsError (errno r)) @ str_lit '' -- BPF verifier log: ''
       @ (if trim (map unat log) = [] then str_lit ''(empty)'' else trim (map unat log))))"
    using assms(1-5,7) verifier_log_c_string [OF assms(6)] by (simp add: load_filter_cases struct_sizes Let_def)
  with split show ?thesis by blast
qed

definition rejecting_world :: world where
  "rejecting_world = accepting_world\<lparr>kcall := (\<lambda>h c. (kcall accepting_world h c)
     \<lparr>ret := - 1, errno := 13, out_bytes := [byte CHR ''R'', byte CHR ''0'', 10] @ replicate 16381 0\<rparr>)\<rparr>"

theorem load_filter_reports_log_witness:
  "\<exists>before text after. [82, 48, 10] = before @ text @ after
    \<and> list_all is_whitespace before \<and> list_all is_whitespace after
    \<and> fst (load_filter rejecting_world [exit_insn] fresh_proc) = Err (Custom PermissionDenied
        (io_error_text (\<lambda>_. []) (OsError 13) @ str_lit '' -- BPF verifier log: ''
         @ (if text = [] then str_lit ''(empty)'' else text)))"
proof -
  define r where "r = kcall rejecting_world (hist fresh_proc) (Bpf_prog_load (prog_load_attr [exit_insn]) size_of_prog_load)"
  then have r: "failed r" "errno r = 13" "kstrerror rejecting_world = (\<lambda>_. [])"
    "out_bytes r = [byte (CHR ''R''), byte (CHR ''0''), 10] @ replicate 16381 0"
    by (simp_all only: rejecting_world_def accepting_world_def failed_def) simp_all
  have ascii: "\<forall>b \<in> set [byte (CHR ''R''), byte (CHR ''0''), 10]. 0 < b \<and> b < 0x80"
    by simp
  have small: "fits_slice [exit_insn]" "[exit_insn] \<noteq> []" "length [exit_insn] \<le> 4096"
    by simp_all
  obtain before text' after where "map unat [byte (CHR ''R''), byte (CHR ''0''), 10 :: u8] = before @ text' @ after"
    "list_all is_whitespace before" "list_all is_whitespace after"
    "fst (load_filter rejecting_world [exit_insn] fresh_proc) = Err (Custom (decode_error_kind (errno r))
        (io_error_text (kstrerror rejecting_world) (OsError (errno r)) @ str_lit '' -- BPF verifier log: ''
         @ (if text' = [] then str_lit ''(empty)'' else text')))"
    using load_filter_reports_log [OF small r_def r(1) ascii r(4)] by blast
  moreover have "map unat [byte (CHR ''R''), byte (CHR ''0''), 10 :: u8] = [82, 48, 10]" "decode_error_kind 13 = PermissionDenied"
    by (simp_all add: decode_error_kind_def)
  ultimately show ?thesis
    unfolding r(2,3) by metis
qed

end
