(* ===== verification/Ring_Consume.thy ===== *)
theory Ring_Consume
  imports Ringbuf "HOL-Library.Sublist"
begin

text \<open>
  The consumption loop as a state machine: memory safety of every access whatever the
  kernel (or a corrupted ring) shows, and termination as soon as the producer is bounded.
\<close>

unbundle bit_operations_syntax

section \<open>Reachable states\<close>

inductive ring_reaches :: "world \<Rightarrow> ringbuf_consumer \<Rightarrow> proc \<Rightarrow> ring_state \<Rightarrow> bool" for w c p where
  start: "ring_reaches w c p (ring_start w p)"
| step: "ring_reaches w c p st \<Longrightarrow> phase st \<noteq> Returned \<Longrightarrow> ring_reaches w c p (ring_step w c st)"

lemma while_option_reaches:
  assumes "while_option (\<lambda>st. phase st \<noteq> Returned) (ring_step w c) (ring_start w p) = Some st"
  shows "ring_reaches w c p st \<and> phase st = Returned"
  using while_option_rule [where P = "ring_reaches w c p", OF _ assms] while_option_stop [OF assms]
  by (auto intro: ring_reaches.intros)

text \<open>The events of one pass through the inner loop.\<close>

definition record_offset :: "ringbuf_consumer \<Rightarrow> ring_state \<Rightarrow> usize" where
  "record_offset c st = consumer_pos st AND ring_mask c"

definition record_header :: "world \<Rightarrow> ringbuf_consumer \<Rightarrow> ring_state \<Rightarrow> u32" where
  "record_header w c st = header_len (view_cell (kshared w (hist (process st)))) (record_offset c st)"

definition header_data_len :: "u32 \<Rightarrow> usize" where
  "header_data_len raw = ucast (raw AND NOT (BPF_RINGBUF_BUSY_BIT OR BPF_RINGBUF_DISCARD_BIT))"

lemma bit_flags:
  "bit BPF_RINGBUF_BUSY_BIT n \<longleftrightarrow> n = 31" "bit BPF_RINGBUF_DISCARD_BIT n \<longleftrightarrow> n = 30"
  unfolding BPF_RINGBUF_BUSY_BIT_def BPF_RINGBUF_DISCARD_BIT_def
  by (auto simp only: bit_push_bit_iff bit_1_iff possible_bit_word) simp_all

lemma header_flags_mask: "raw AND NOT (BPF_RINGBUF_BUSY_BIT OR BPF_RINGBUF_DISCARD_BIT) = take_bit 30 raw"
proof (rule bit_word_eqI)
  fix n
  assume "n < LENGTH(32)"
  then have "n < 30 \<or> n = 30 \<or> n = 31"
    by auto
  then show "bit (raw AND NOT (BPF_RINGBUF_BUSY_BIT OR BPF_RINGBUF_DISCARD_BIT)) n = bit (take_bit 30 raw) n"
    by (auto simp: bit_simps bit_flags)
qed

lemma header_data_len_bound: "unat (header_data_len raw) < 2 ^ 30"
proof -
  note header_flags_mask [of raw]
  then have "unat (header_data_len raw) = take_bit 30 (unat raw)"
    by (simp add: header_data_len_def unsigned_ucast_eq unsigned_take_bit_eq)
  then show ?thesis by (simp only: take_bit_nat_less_exp)
qed

inductive pass_outcome :: "ringbuf_consumer \<Rightarrow> u64 \<Rightarrow> usize \<Rightarrow> u32 \<Rightarrow> (nat \<Rightarrow> u8) \<Rightarrow> event list \<Rightarrow> u64 option \<Rightarrow> bool"
  for c pos off' raw cell where
  busy: "raw AND BPF_RINGBUF_BUSY_BIT \<noteq> 0 \<Longrightarrow> pass_outcome c pos off' raw cell [StoreConsumerPos pos] None"
| corrupt: "raw AND BPF_RINGBUF_BUSY_BIT = 0 \<Longrightarrow> raw AND BPF_RINGBUF_DISCARD_BIT = 0 \<Longrightarrow>
    ring_mask c = - 1 \<or> \<not> record_within_mapping (off' + 8) (header_data_len raw) (ring_mask c + 1) \<Longrightarrow>
    pass_outcome c pos off' raw cell
      [Stderr (out_of_bounds_text (off' + 8) (header_data_len raw) (ring_mask c)), StoreConsumerPos pos] None"
| deliver: "raw AND BPF_RINGBUF_BUSY_BIT = 0 \<Longrightarrow> raw AND BPF_RINGBUF_DISCARD_BIT = 0 \<Longrightarrow>
    ring_mask c \<noteq> - 1 \<Longrightarrow> record_within_mapping (off' + 8) (header_data_len raw) (ring_mask c + 1) \<Longrightarrow>
    next = pos + round_record_len (header_data_len raw) \<Longrightarrow>
    pass_outcome c pos off' raw cell
      [Callback (off' + 8) (data_slice cell (off' + 8) (header_data_len raw)), StoreConsumerPos next] (Some next)"
| skip: "raw AND BPF_RINGBUF_BUSY_BIT = 0 \<Longrightarrow> raw AND BPF_RINGBUF_DISCARD_BIT \<noteq> 0 \<Longrightarrow>
    next = pos + round_record_len (header_data_len raw) \<Longrightarrow>
    pass_outcome c pos off' raw cell [StoreConsumerPos next] (Some next)"

lemma checked_succ: "checked_add (m :: usize) 1 = (if m = - 1 then None else Some (m + 1))"
proof -
  have "unat m + 1 < 2 ^ 64 \<longleftrightarrow> m \<noteq> - 1"
    using unat_bound [of m] by (auto simp: word_unat_eq_iff unsigned_minus_1_eq_mask mask_eq_exp_minus_1)
  then show ?thesis by (auto simp: checked_add_def)
qed

lemma process_record_eq:
  "process_record w c st =
     (let raw = record_header w c st; off' = record_offset c st; n = header_data_len raw;
          p = log_event (LoadHeader off' raw) (process st); pos = consumer_pos st;
          next = pos + round_record_len n in
      if raw AND BPF_RINGBUF_BUSY_BIT \<noteq> 0 then
        st\<lparr>phase := Returned, process := log_event (StoreConsumerPos pos) p\<rparr>
      else if raw AND BPF_RINGBUF_DISCARD_BIT \<noteq> 0 then
        st\<lparr>consumer_pos := next, consumed_any := True, process := log_event (StoreConsumerPos next) p\<rparr>
      else if ring_mask c = - 1 \<or> \<not> record_within_mapping (off' + 8) n (ring_mask c + 1) then
        st\<lparr>phase := Returned,
           process := log_event (StoreConsumerPos pos) (eprintln (out_of_bounds_text (off' + 8) n (ring_mask c)) p)\<rparr>
      else
        st\<lparr>consumer_pos := next, consumed_any := True,
           process := log_event (StoreConsumerPos next)
             (log_event (Callback (off' + 8) (data_slice (view_cell (kshared w (hist p))) (off' + 8) n)) p)\<rparr>)"
  by (simp add: process_record_def record_offset_def record_header_def header_data_len_def
      BPF_RINGBUF_HDR_SZ_def checked_succ Let_def)

lemma process_record_outcome:
  fixes w c st
  defines "h \<equiv> hist (process st) @ [LoadHeader (record_offset c st) (record_header w c st)]"
  obtains evs res where
    "pass_outcome c (consumer_pos st) (record_offset c st) (record_header w c st) (view_cell (kshared w h)) evs res"
    "hist (process (process_record w c st)) = h @ evs"
    "producer_pos (process_record w c st) = producer_pos st"
    "consumer_pos (process_record w c st) = (case res of None \<Rightarrow> consumer_pos st | Some v \<Rightarrow> v)"
    "phase (process_record w c st) = (case res of None \<Rightarrow> Returned | Some v \<Rightarrow> phase st)"
    "consumed_any (process_record w c st) = (res \<noteq> None \<or> consumed_any st)"
proof -
  let ?raw = "record_header w c st" and ?off = "record_offset c st"
  let ?n = "header_data_len ?raw"
  let ?next = "consumer_pos st + round_record_len ?n"
  note unfolded = process_record_eq Let_def h_def
  consider (busy) "?raw AND BPF_RINGBUF_BUSY_BIT \<noteq> 0"
    | (corrupt) "?raw AND BPF_RINGBUF_BUSY_BIT = 0" "?raw AND BPF_RINGBUF_DISCARD_BIT = 0"
        "ring_mask c = - 1 \<or> \<not> record_within_mapping (?off + 8) ?n (ring_mask c + 1)"
    | (deliver) "?raw AND BPF_RINGBUF_BUSY_BIT = 0" "?raw AND BPF_RINGBUF_DISCARD_BIT = 0"
        "ring_mask c \<noteq> - 1" "record_within_mapping (?off + 8) ?n (ring_mask c + 1)"
    | (skip) "?raw AND BPF_RINGBUF_BUSY_BIT = 0" "?raw AND BPF_RINGBUF_DISCARD_BIT \<noteq> 0"
    by blast
  then show thesis
  proof cases
    case busy
    from pass_outcome.busy [OF this] show thesis
      by (rule that) (use busy in \<open>simp_all add: unfolded\<close>)
  next
    case corrupt
    from pass_outcome.corrupt [OF this] show thesis
      by (rule that) (use corrupt in \<open>auto simp: unfolded\<close>)
  next
    case deliver
    from pass_outcome.deliver [OF this refl] show thesis
      by (rule that) (use deliver in \<open>simp_all add: unfolded\<close>)
  next
    case skip
    from pass_outcome.skip [OF this refl] show thesis
      by (rule that) (use skip in \<open>simp_all add: unfolded\<close>)
  qed
qed

section \<open>Memory safety\<close>

text \<open>
  An access is inside the mapping of the producer and data pages, and a header is aligned.
  \<open>data_ptr\<close> is one page into that mapping.
\<close>

definition access_inside :: "ringbuf_consumer \<Rightarrow> event \<Rightarrow> bool" where
  "access_inside c e = (case e of
     LoadHeader o' _ \<Rightarrow> unat (page_size c) + unat o' + 8 \<le> unat (mapping_len c)
   | Callback o' bs \<Rightarrow> unat (page_size c) + unat o' + length bs \<le> unat (mapping_len c)
   | _ \<Rightarrow> True)"

definition access_aligned :: "event \<Rightarrow> bool" where
  "access_aligned e = (case e of LoadHeader o' _ \<Rightarrow> 8 dvd unat o' | _ \<Rightarrow> True)"

definition access_ok :: "ringbuf_consumer \<Rightarrow> event \<Rightarrow> bool" where
  "access_ok c e \<longleftrightarrow> access_inside c e \<and> access_aligned e"

definition well_mapped :: "ringbuf_consumer \<Rightarrow> bool" where
  "well_mapped c \<longleftrightarrow>
     unat (mapping_len c) = unat (page_size c) + 2 * (unat (ring_mask c) + 1) \<and> 7 \<le> unat (ring_mask c)"

lemma dvd8_iff: "8 dvd unat (x :: u64) \<longleftrightarrow> take_bit 3 x = 0"
proof -
  have "unat (take_bit 3 x) = unat x mod 8"
    by (simp add: take_bit_eq_mod unat_mod)
  moreover have "take_bit 3 x = 0 \<longleftrightarrow> unat (take_bit 3 x) = 0"
    by (simp only: unat_eq_zero)
  ultimately show ?thesis by (simp add: dvd_eq_mod_eq_0)
qed

lemma offset_aligned: "8 dvd unat (x :: u64) \<Longrightarrow> 8 dvd unat (x AND m)"
  by (simp add: dvd8_iff)

lemma advance_aligned:
  assumes "8 dvd unat (x :: u64)"
  shows "8 dvd unat (x + round_record_len n)"
proof -
  have "8 dvd unat x + unat (round_record_len n)"
    using assms by (simp add: unat_round_record_len)
  then have "8 dvd (unat x + unat (round_record_len n)) mod 2 ^ 64"
    by (rule dvd_mod) simp
  then show ?thesis by (simp add: unat_word_ariths)
qed

lemma offset_le: "unat (record_offset c st) \<le> unat (ring_mask c)"
  using word_and_le1 [of "consumer_pos st" "ring_mask c"] by (simp add: record_offset_def word_le_nat_alt)

text \<open>The position is masked before it is used, so alignment is not needed for the bounds.\<close>

lemma header_access:
  assumes "well_mapped c"
  shows "access_inside c (LoadHeader (record_offset c st) raw)"
    "8 dvd unat (consumer_pos st) \<Longrightarrow> access_aligned (LoadHeader (record_offset c st) raw)"
  using assms offset_le [of c st] offset_aligned [of "consumer_pos st" "ring_mask c"]
  by (simp_all add: access_inside_def access_aligned_def well_mapped_def record_offset_def)

lemma pass_outcome_safe:
  assumes "pass_outcome c pos (record_offset c st) raw cell evs res" "well_mapped c"
  shows "list_all (access_inside c) evs" "list_all access_aligned evs"
proof -
  have "list_all (access_inside c) evs \<and> list_all access_aligned evs"
    using assms(1)
  proof cases
    case (deliver "next")
    have "unat (ring_mask c + 1) \<le> unat (ring_mask c) + 1"
      by (simp add: unat_word_ariths)
    with deliver(6) assms(2) have "access_inside c (Callback (record_offset c st + 8)
        (data_slice cell (record_offset c st + 8) (header_data_len raw)))"
      by (simp add: access_inside_def well_mapped_def record_within_mapping_iff data_slice_def)
    then show ?thesis
      using deliver(1) by (simp add: access_inside_def access_aligned_def)
  qed (simp_all add: access_inside_def access_aligned_def)
  then show "list_all (access_inside c) evs" "list_all access_aligned evs"
    by simp_all
qed

lemma pass_outcome_aligned:
  "pass_outcome c pos o' raw cell evs res \<Longrightarrow> 8 dvd unat pos \<Longrightarrow> 8 dvd unat (case res of None \<Rightarrow> pos | Some v \<Rightarrow> v)"
  by (cases rule: pass_outcome.cases, assumption) (simp_all add: advance_aligned)

lemma ring_step_safe:
  assumes "well_mapped c"
  shows "\<exists>evs. hist (process (ring_step w c st)) = hist (process st) @ evs \<and> list_all (access_inside c) evs
    \<and> (8 dvd unat (consumer_pos st) \<longrightarrow> list_all access_aligned evs \<and> 8 dvd unat (consumer_pos (ring_step w c st)))"
proof (cases "phase st = Scan \<and> consumer_pos st < producer_pos st")
  case True
  then have step: "ring_step w c st = process_record w c st"
    by (simp add: ring_step_def)
  obtain evs res where
    "pass_outcome c (consumer_pos st) (record_offset c st) (record_header w c st)
      (view_cell (kshared w (hist (process st) @ [LoadHeader (record_offset c st) (record_header w c st)]))) evs res"
    and h: "hist (process (process_record w c st))
      = (hist (process st) @ [LoadHeader (record_offset c st) (record_header w c st)]) @ evs"
    and pos: "consumer_pos (process_record w c st) = (case res of None \<Rightarrow> consumer_pos st | Some v \<Rightarrow> v)"
    by (rule process_record_outcome)
  with assms show ?thesis
    using pass_outcome_safe pass_outcome_aligned header_access
    by (intro exI [of _ "LoadHeader (record_offset c st) (record_header w c st) # evs"])
      (simp add: step)
next
  case False
  then show ?thesis
    by (cases "phase st") (auto simp: ring_step_def Let_def access_inside_def access_aligned_def)
qed

lemma ring_reaches_inside:
  assumes "ring_reaches w c p st" "well_mapped c"
  shows "\<exists>evs. hist (process st) = hist p @ evs \<and> list_all (access_inside c) evs
    \<and> (8 dvd unat (view_consumer (kshared w (hist p))) \<longrightarrow> list_all access_aligned evs \<and> 8 dvd unat (consumer_pos st))"
  using assms(1)
proof (induction rule: ring_reaches.induct)
  case start
  show ?case by (simp add: ring_start_def Let_def access_inside_def access_aligned_def)
next
  case (step st)
  then obtain evs where "hist (process st) = hist p @ evs" "list_all (access_inside c) evs"
    "8 dvd unat (view_consumer (kshared w (hist p))) \<longrightarrow> list_all access_aligned evs \<and> 8 dvd unat (consumer_pos st)"
    by blast
  with ring_step_safe [OF assms(2), of w st] show ?case by auto
qed

lemma ring_reaches_safe:
  assumes "ring_reaches w c p st" "well_mapped c" "8 dvd unat (view_consumer (kshared w (hist p)))"
  shows "\<exists>evs. hist (process st) = hist p @ evs \<and> list_all (access_ok c) evs"
  using ring_reaches_inside [OF assms(1,2)] assms(3) by (auto simp: access_ok_def list_all_iff)

lemma consumer_new_maps:
  assumes "ringbuf_consumer_new w fd rs ps p = (Ok c, p')" "8 \<le> unat rs"
  shows "well_mapped c" "page_size c = ps" "unat (ring_mask c) = unat rs - 1"
    "data_ptr c = producer_mapping c + page_size c"
proof -
  obtain dbl where dbl: "checked_mul rs 2 = Some dbl"
    using assms(1) by (auto simp: ringbuf_consumer_new_def call_def Let_def split: if_splits option.splits)
  obtain len where len: "checked_add ps dbl = Some len"
    using assms(1) dbl by (auto simp: ringbuf_consumer_new_def call_def Let_def split: if_splits option.splits)
  have fields: "page_size c = ps" "ring_mask c = rs - 1" "mapping_len c = len" "data_ptr c = producer_mapping c + ps"
    using assms(1) dbl len by (auto simp: ringbuf_consumer_new_def call_def Let_def split: if_splits)
  have "unat (rs - 1) = unat rs - 1"
    using assms(2) by (intro unat_minus_one) auto
  moreover have "unat len = unat ps + 2 * unat rs"
    using dbl len by (auto simp: checked_mul_def checked_add_def unat_add_small unat_mult_small split: if_splits)
  ultimately show "well_mapped c" "page_size c = ps" "unat (ring_mask c) = unat rs - 1"
    "data_ptr c = producer_mapping c + page_size c"
    using fields assms(2) by (simp_all add: well_mapped_def)
qed

section \<open>Termination\<close>

lemma round_record_len_advances:
  assumes "unat pos + 2 ^ 31 < 2 ^ 64"
  shows "unat pos + 8 \<le> unat (pos + round_record_len (header_data_len raw))"
proof -
  let ?n = "header_data_len raw"
  have n: "unat ?n + 15 < 2 ^ 31"
    using header_data_len_bound [of raw] by simp
  then have "unat (round_record_len ?n) = (unat ?n + 15) div 8 * 8"
    by (simp add: unat_round_record_len min_def)
  moreover have "8 \<le> (unat ?n + 15) div 8 * 8" "(unat ?n + 15) div 8 * 8 \<le> unat ?n + 15"
    by simp_all
  ultimately show ?thesis
    using assms n by (subst unat_add_small) simp_all
qed

text \<open>Positions only grow, and a pass that consumes nothing ends the loop.\<close>

fun phase_rank :: "phase \<Rightarrow> bool \<Rightarrow> nat" where
  "phase_rank Reload any = 2"
| "phase_rank Scan any = (if any then 3 else 1)"
| "phase_rank Returned any = 0"

definition ring_measure :: "ring_state \<Rightarrow> nat" where
  "ring_measure st = 4 * (2 ^ 64 - unat (consumer_pos st)) + phase_rank (phase st) (consumed_any st)"

lemma process_record_decreases:
  assumes "phase st = Scan" "consumer_pos st < producer_pos st" "unat (producer_pos st) + 2 ^ 31 < 2 ^ 64"
  shows "ring_measure (process_record w c st) < ring_measure st"
proof -
  obtain evs res where out:
    "pass_outcome c (consumer_pos st) (record_offset c st) (record_header w c st)
      (view_cell (kshared w (hist (process st) @ [LoadHeader (record_offset c st) (record_header w c st)]))) evs res"
    and st': "consumer_pos (process_record w c st) = (case res of None \<Rightarrow> consumer_pos st | Some v \<Rightarrow> v)"
      "phase (process_record w c st) = (case res of None \<Rightarrow> Returned | Some v \<Rightarrow> phase st)"
      "consumed_any (process_record w c st) = (res \<noteq> None \<or> consumed_any st)"
    by (rule process_record_outcome)
  show ?thesis
  proof (cases res)
    case None
    then show ?thesis using st' assms(1) by (simp add: ring_measure_def)
  next
    case (Some v)
    have "v = consumer_pos st + round_record_len (header_data_len (record_header w c st))"
      using out Some by (cases rule: pass_outcome.cases) auto
    moreover have "unat (consumer_pos st) + 2 ^ 31 < 2 ^ 64"
      using assms(2,3) by (simp add: word_less_nat_alt)
    ultimately have "unat (consumer_pos st) + 8 \<le> unat v"
      using round_record_len_advances by simp
    moreover have "unat v < 2 ^ 64"
      using unat_bound [of v] by simp
    ultimately have "4 * (2 ^ 64 - unat v) + 3 < 4 * (2 ^ 64 - unat (consumer_pos st))"
      by linarith
    then show ?thesis
      using st' assms(1) Some by (simp add: ring_measure_def)
  qed
qed

lemma ring_step_decreases:
  assumes "phase st \<noteq> Returned" "unat (producer_pos st) + 2 ^ 31 < 2 ^ 64"
  shows "ring_measure (ring_step w c st) < ring_measure st"
proof (cases "phase st")
  case Scan
  then show ?thesis
    using assms process_record_decreases [OF Scan]
    by (cases "consumer_pos st < producer_pos st") (auto simp: ring_step_def ring_measure_def)
qed (use assms in \<open>auto simp: ring_step_def ring_measure_def Let_def\<close>)

lemma producer_stays_bounded:
  assumes "\<forall>h. unat (view_producer (kshared w h)) + 2 ^ 31 < 2 ^ 64" "unat (producer_pos st) + 2 ^ 31 < 2 ^ 64"
  shows "unat (producer_pos (ring_step w c st)) + 2 ^ 31 < 2 ^ 64"
proof -
  have "producer_pos (process_record w c st) = producer_pos st"
    by (rule process_record_outcome)
  then show ?thesis
    using assms by (cases "phase st") (auto simp: ring_step_def Let_def)
qed

lemma consume_returns:
  assumes "\<forall>h. unat (view_producer (kshared w h)) + 2 ^ 31 < 2 ^ 64"
  shows "\<exists>st. while_option (\<lambda>st. phase st \<noteq> Returned) (ring_step w c) (ring_start w p) = Some st"
proof (rule measure_while_option_Some [where P = "\<lambda>st. unat (producer_pos st) + 2 ^ 31 < 2 ^ 64"
      and f = ring_measure])
  fix st :: ring_state
  assume st: "unat (producer_pos st) + 2 ^ 31 < 2 ^ 64" "phase st \<noteq> Returned"
  from producer_stays_bounded [OF assms st(1)] ring_step_decreases [OF st(2,1)]
  show "unat (producer_pos (ring_step w c st)) + 2 ^ 31 < 2 ^ 64 \<and> ring_measure (ring_step w c st) < ring_measure st"
    by simp
qed (simp add: ring_start_def Let_def)

section \<open>Properties\<close>

text \<open>
  C8: memory safety of the consumer. For a consumer built by \<open>RingbufConsumer::new\<close> on a ring
  of at least eight bytes, in every state its loop reaches (whether or not it ever returns), and
  whatever positions, headers and data the shared pages show at each access, aligned or not: every header
  read and every slice handed to the callback lies inside the mapped pages. If the consumer position in the
  shared page is a multiple of eight when the loop starts, every header read is eight-byte aligned as well.
\<close>

theorem consume_memory_safe:
  assumes "ringbuf_consumer_new w fd rs ps p0 = (Ok c, p1)" "8 \<le> unat rs" "ring_reaches w c p st"
  shows "\<exists>evs. hist (process st) = hist p @ evs \<and> list_all (access_inside c) evs
    \<and> (8 dvd unat (view_consumer (kshared w (hist p))) \<longrightarrow> list_all access_aligned evs)"
  using ring_reaches_inside [OF assms(3) consumer_new_maps(1) [OF assms(1,2)]] by blast

definition hostile_world :: world where
  "hostile_world =
     \<lparr>kcall = (\<lambda>h c. \<lparr>ret = 0x7000, errno = 0, out_bytes = [],
         out_info = \<lparr>map_type = 27, map_id = 1, key_size = 0, value_size = 0, max_entries = 4096, map_flags = 0,
           map_name = [], ifindex = 0, btf_vmlinux_value_type_id = 0, netns_dev = 0, netns_ino = 0,
           btf_id = 0, btf_key_type_id = 0, btf_value_type_id = 0, map_extra = 0\<rparr>\<rparr>),
      kstrerror = (\<lambda>_. []),
      kshared = (\<lambda>h. \<lparr>view_consumer = 0, view_producer = 64, view_cell = (\<lambda>_. 0x3F)\<rparr>)\<rparr>"

definition small_consumer :: ringbuf_consumer where
  "small_consumer = \<lparr>consumer_mapping = 0x7000, producer_mapping = 0x7000, data_ptr = 0x8000,
     mapping_len = 0x3000, ring_mask = 0xFFF, page_size = 0x1000\<rparr>"

lemma small_consumer_new: "\<exists>p1. ringbuf_consumer_new hostile_world 3 4096 4096 p0 = (Ok small_consumer, p1)"
  by (simp add: ringbuf_consumer_new_def hostile_world_def small_consumer_def call_def Let_def
      checked_mul_def checked_add_def MAP_FAILED_def)

theorem consume_memory_safe_witness:
  "\<exists>evs. hist (process (ring_step hostile_world small_consumer (ring_step hostile_world small_consumer
        (ring_start hostile_world \<lparr>hist = [], page_cache = None, warned = False\<rparr>)))) = [] @ evs
     \<and> list_all (access_inside small_consumer) evs \<and> list_all access_aligned evs"
proof -
  let ?p = "\<lparr>hist = [], page_cache = None, warned = False\<rparr>"
  obtain p1 where new: "ringbuf_consumer_new hostile_world 3 4096 4096 ?p = (Ok small_consumer, p1)"
    using small_consumer_new by blast
  have "ring_reaches hostile_world small_consumer ?p (ring_step hostile_world small_consumer
      (ring_step hostile_world small_consumer (ring_start hostile_world ?p)))"
    by (intro ring_reaches.intros) (simp_all add: ring_start_def ring_step_def Let_def)
  from consume_memory_safe [OF new _ this] show ?thesis
    by (simp add: hostile_world_def)
qed

text \<open>
  C21: termination. When the producer stays below the last 2 GiB of the 64-bit position space,
  consumption returns, whatever the headers hold: positions strictly grow and an empty
  pass ends the loop.
\<close>

theorem consume_terminates:
  assumes "\<forall>h. unat (view_producer (kshared w h)) < 2 ^ 64 - 2 ^ 31"
  shows "\<exists>p'. consume_ring_records w c p = Some p'"
  using consume_returns [of w c p] assms by (auto simp: consume_ring_records_def less_diff_conv)

theorem consume_terminates_witness:
  "\<exists>p'. consume_ring_records hostile_world small_consumer \<lparr>hist = [], page_cache = None, warned = False\<rparr> = Some p'"
  by (rule consume_terminates) (simp add: hostile_world_def)

end
