(* ===== verification/Ring_Delivery.thy ===== *)
theory Ring_Delivery
  imports Ring_Consume
begin

text \<open>
  What the consumer delivers. The kernel's side of the ring buffer (record layout, busy and
  discard flags, no reuse of unreleased space) is the locale \<open>ring_kernel\<close>, with the
  sequence of records the producer reserves as its abstract state; records may be reserved
  and committed between any two accesses of the consumer. The contract speaks of the moments of one run
  only, and of a record only until the consumer has freed it: its space may then be used
  again. The refinement: the callback
  receives the payloads of the records that are not discarded, in order, each once, and
  the loop stops only at the producer's end or at a record still being written.
  Rings encoded from a log of records are instances.
\<close>

unbundle bit_operations_syntax

section \<open>Records and positions\<close>

record ring_record =
  payload :: "u8 list"
  discarded :: bool

definition stride :: "ring_record \<Rightarrow> nat" where
  "stride r = (length (payload r) + 15) div 8 * 8"

primrec rec_pos :: "nat \<Rightarrow> (nat \<Rightarrow> ring_record) \<Rightarrow> nat \<Rightarrow> nat" where
  "rec_pos base recs 0 = base"
| "rec_pos base recs (Suc i) = rec_pos base recs i + stride (recs i)"

text \<open>
  The header: the length, with the busy flag from the reservation on; committing replaces that flag by the
  discard flag or by none.
\<close>

definition rec_header :: "ring_record \<Rightarrow> bool \<Rightarrow> u32" where
  "rec_header r is_committed = of_nat (length (payload r))
     OR (if \<not> is_committed then BPF_RINGBUF_BUSY_BIT else if discarded r then BPF_RINGBUF_DISCARD_BIT else 0)"

text \<open>
  What the consumer has delivered, the position it published last, and the one up to which it has ever freed the
  ring.
\<close>

fun delivered :: "event list \<Rightarrow> u8 list list" where
  "delivered [] = []"
| "delivered (Callback o' bs # es) = bs # delivered es"
| "delivered (_ # es) = delivered es"

fun published :: "nat \<Rightarrow> event list \<Rightarrow> nat" where
  "published pos [] = pos"
| "published pos (StoreConsumerPos v # es) = published (unat v) es"
| "published pos (_ # es) = published pos es"

fun freed :: "nat \<Rightarrow> event list \<Rightarrow> nat" where
  "freed pos [] = pos"
| "freed pos (StoreConsumerPos v # es) = freed (max pos (unat v)) es"
| "freed pos (_ # es) = freed pos es"

definition kept_payloads :: "ring_record list \<Rightarrow> u8 list list" where
  "kept_payloads rs = map payload (filter (\<lambda>r. \<not> discarded r) rs)"

lemma delivered_append [simp]: "delivered (xs @ ys) = delivered xs @ delivered ys"
  by (induction xs rule: delivered.induct) auto

lemma published_append [simp]: "published pos (xs @ ys) = published (published pos xs) ys"
  by (induction pos xs rule: published.induct) auto

lemma freed_append [simp]: "freed pos (xs @ ys) = freed (freed pos xs) ys"
  by (induction pos xs rule: freed.induct) auto

lemma stride_ge: "length (payload r) + 8 \<le> stride r" "8 \<le> stride r"
  by (simp_all add: stride_def)

lemma rec_pos_mono: "i \<le> j \<Longrightarrow> rec_pos base recs i \<le> rec_pos base recs j"
  by (induction j) (auto simp: le_Suc_eq)

lemma rec_pos_less_iff: "rec_pos base recs i < rec_pos base recs j \<longleftrightarrow> i < j"
proof
  assume "i < j"
  then have "rec_pos base recs (Suc i) \<le> rec_pos base recs j"
    by (intro rec_pos_mono) simp
  then show "rec_pos base recs i < rec_pos base recs j"
    using stride_ge(2) [of "recs i"] by simp
next
  assume "rec_pos base recs i < rec_pos base recs j"
  then show "i < j"
    using rec_pos_mono [of j i] by (meson leI not_less)
qed

lemma bit_small_len:
  assumes "n < 2 ^ 30"
  shows "take_bit 30 (of_nat n :: u32) = of_nat n" "\<not> bit (of_nat n :: u32) 30" "\<not> bit (of_nat n :: u32) 31"
proof -
  show t: "take_bit 30 (of_nat n :: u32) = of_nat n"
    using assms by (simp flip: of_nat_take_bit add: take_bit_nat_eq_self)
  have "bit (take_bit 30 (of_nat n :: u32)) 30 = False" "bit (take_bit 30 (of_nat n :: u32)) 31 = False"
    by (simp_all add: bit_take_bit_iff)
  then show "\<not> bit (of_nat n :: u32) 30" "\<not> bit (of_nat n :: u32) 31"
    unfolding t by simp_all
qed

lemma flag_test:
  "x AND BPF_RINGBUF_BUSY_BIT = 0 \<longleftrightarrow> \<not> bit x 31" "x AND BPF_RINGBUF_DISCARD_BIT = 0 \<longleftrightarrow> \<not> bit x 30"
  by (auto simp: bit_eq_iff [where 'a = "32 word"] bit_and_iff bit_flags
      dest: spec [of _ "31 :: nat"] spec [of _ "30 :: nat"])

lemma rec_header_flags:
  assumes "length (payload r) < 2 ^ 30"
  shows "rec_header r k AND BPF_RINGBUF_BUSY_BIT = 0 \<longleftrightarrow> k"
    and "rec_header r k AND BPF_RINGBUF_DISCARD_BIT = 0 \<longleftrightarrow> \<not> (k \<and> discarded r)"
    and "header_data_len (rec_header r k) = of_nat (length (payload r))"
proof -
  note len = bit_small_len [OF assms]
  show "rec_header r k AND BPF_RINGBUF_BUSY_BIT = 0 \<longleftrightarrow> k"
    "rec_header r k AND BPF_RINGBUF_DISCARD_BIT = 0 \<longleftrightarrow> \<not> (k \<and> discarded r)"
    by (auto simp: flag_test rec_header_def bit_or_iff bit_flags len)
  have "take_bit 30 (rec_header r k) = take_bit 30 (of_nat (length (payload r)))"
    by (rule bit_word_eqI) (auto simp: rec_header_def bit_take_bit_iff bit_or_iff bit_flags)
  then have "take_bit 30 (rec_header r k) = of_nat (length (payload r))"
    by (simp only: len(1))
  moreover have "unat (of_nat (length (payload r)) :: u32) = length (payload r)"
    using assms by (simp add: unat_of_nat)
  ultimately show "header_data_len (rec_header r k) = of_nat (length (payload r))"
    unfolding header_data_len_def header_flags_mask
    using assms by (simp add: word_unat_eq_iff unsigned_ucast_eq unat_of_nat take_bit_nat_eq_self)
qed

lemma round_record_stride:
  assumes "length (payload r) < 2 ^ 30"
  shows "unat (round_record_len (of_nat (length (payload r)))) = stride r"
proof -
  have "unat (of_nat (length (payload r)) :: usize) = length (payload r)"
    using assms by (simp add: unat_of_nat)
  then show ?thesis
    using assms by (simp add: unat_round_record_len stride_def min_def)
qed

lemma unat_mask_small:
  assumes "k \<le> 62"
  shows "unat (mask k :: u64) = 2 ^ k - 1"
proof -
  have "(2 :: nat) ^ k \<le> 2 ^ 62"
    using assms by (intro power_increasing) simp_all
  then have "mask k < (2 :: nat) ^ LENGTH(64)"
    by (simp add: mask_eq_exp_minus_1)
  then have "unat (of_nat (mask k) :: u64) = mask k"
    unfolding unat_of_nat by (rule mod_less)
  then show ?thesis
    unfolding of_nat_mask_eq by (simp only: mask_eq_exp_minus_1)
qed

text \<open>The history only grows.\<close>

lemma process_record_appends: "prefix (hist (process st)) (hist (process (process_record w c st)))"
  by (rule process_record_outcome [of c st w]) simp

lemma ring_step_appends: "prefix (hist (process st)) (hist (process (ring_step w c st)))"
  using process_record_appends by (simp add: ring_step_def Let_def split: phase.split)

lemma within_doubled:
  "unat o' = m + 8 \<Longrightarrow> m < q \<Longrightarrow> l + 8 \<le> q \<Longrightarrow> q \<le> 2 ^ 62 \<Longrightarrow> unat n = l \<Longrightarrow> unat rs = q \<Longrightarrow>
   record_within_mapping o' n rs"
  by (simp add: record_within_mapping_iff)

text \<open>
  The simulation relation between a state of the loop and the log: \<open>n\<close> records have been
  passed. A scan has seen a producer position, and a return has a reason.
\<close>

definition delivery_inv :: "event list \<Rightarrow> nat \<Rightarrow> (nat \<Rightarrow> ring_record) \<Rightarrow> (event list \<Rightarrow> nat) \<Rightarrow>
    (event list \<Rightarrow> nat \<Rightarrow> bool) \<Rightarrow> ring_state \<Rightarrow> event list \<Rightarrow> nat \<Rightarrow> bool" where
  "delivery_inv h0 base recs reserved committed st evs n \<longleftrightarrow>
     hist (process st) = h0 @ evs \<and> consumer_pos st = of_nat (rec_pos base recs n) \<and> n \<le> reserved evs
     \<and> published base evs = rec_pos base recs n \<and> freed base evs = rec_pos base recs n
     \<and> delivered evs = kept_payloads (map recs [0..<n])
     \<and> \<not> list_ex is_stderr evs \<and> (\<forall>i < n. committed evs i)
     \<and> (phase st = Scan \<longrightarrow> (\<exists>evs1. prefix evs1 evs \<and> n \<le> reserved evs1
          \<and> producer_pos st = of_nat (rec_pos base recs (reserved evs1))))
     \<and> (phase st = Returned \<longrightarrow> (\<exists>evs1. prefix evs1 evs
          \<and> (n = reserved evs1 \<or> n < reserved evs1 \<and> \<not> committed evs1 n)))"

section \<open>The kernel's side\<close>

text \<open>
  \<open>k\<close> is the binary logarithm of the ring size, \<open>run\<close> the events of one run of the consumer after the history \<open>h0\<close>.
  \<open>reserved\<close> and \<open>committed\<close> say how many records exist and which are complete after a beginning \<open>evs\<close> of the run. A
  reserved record shows its header, and once committed its payload, until the consumer has freed it.
\<close>

locale ring_kernel =
  fixes w :: world and c :: ringbuf_consumer and h0 :: "event list" and run :: "event list" and k :: nat and base :: nat
    and recs :: "nat \<Rightarrow> ring_record" and reserved :: "event list \<Rightarrow> nat" and committed :: "event list \<Rightarrow> nat \<Rightarrow> bool"
  assumes geometry: "ring_mask c = mask k" "3 \<le> k" "k \<le> 62"
    and record_size: "length (payload (recs i)) + 8 \<le> 2 ^ k" "length (payload (recs i)) < 2 ^ 30"
    and consumer_start: "view_consumer (kshared w h0) = of_nat base"
    and producer: "prefix evs run \<Longrightarrow> view_producer (kshared w (h0 @ evs)) = of_nat (rec_pos base recs (reserved evs))"
    and position_space: "prefix evs run \<Longrightarrow> rec_pos base recs (reserved evs) < 2 ^ 64 - 2 ^ 31"
    and reserved_grows: "prefix (evs @ evs') run \<Longrightarrow> reserved evs \<le> reserved (evs @ evs')"
    and committed_stays: "prefix (evs @ evs') run \<Longrightarrow> committed evs i \<Longrightarrow> committed (evs @ evs') i"
    and header: "prefix evs run \<Longrightarrow> freed base evs \<le> rec_pos base recs i \<Longrightarrow> i < reserved evs \<Longrightarrow>
      header_len (view_cell (kshared w (h0 @ evs))) (of_nat (rec_pos base recs i) AND ring_mask c)
        = rec_header (recs i) (committed evs i)"
    and contents: "prefix evs run \<Longrightarrow> freed base evs \<le> rec_pos base recs i \<Longrightarrow> i < reserved evs \<Longrightarrow> committed evs i \<Longrightarrow>
      j < length (payload (recs i)) \<Longrightarrow>
      view_cell (kshared w (h0 @ evs)) (rec_pos base recs i mod 2 ^ k + 8 + j) = payload (recs i) ! j"

context ring_kernel
begin

lemma run_begins: "prefix (xs @ ys) run \<Longrightarrow> prefix xs run"
  by (rule prefix_order.order_trans [of xs "xs @ ys"]) simp_all

lemma pos_small: "prefix evs run \<Longrightarrow> i \<le> reserved evs \<Longrightarrow> rec_pos base recs i < 2 ^ 64 - 2 ^ 31"
  using rec_pos_mono [of i "reserved evs" base recs] position_space [of evs] by simp

lemma unat_pos: "prefix evs run \<Longrightarrow> i \<le> reserved evs \<Longrightarrow> unat (of_nat (rec_pos base recs i) :: u64) = rec_pos base recs i"
  using pos_small [of evs i] by (simp add: unat_of_nat)

lemma unat_offset:
  assumes "prefix evs run" "i \<le> reserved evs"
  shows "unat (of_nat (rec_pos base recs i) AND ring_mask c) = rec_pos base recs i mod 2 ^ k"
proof -
  have "of_nat (rec_pos base recs i) AND ring_mask c = take_bit k (of_nat (rec_pos base recs i) :: u64)"
    by (simp add: geometry take_bit_eq_mask)
  then have "unat (of_nat (rec_pos base recs i) AND ring_mask c) = take_bit k (rec_pos base recs i)"
    by (simp only: unsigned_take_bit_eq unat_pos [OF assms])
  then show ?thesis
    by (simp only: take_bit_eq_mod)
qed

lemma unat_ring_size: "ring_mask c \<noteq> - 1" "unat (ring_mask c + 1) = 2 ^ k"
proof -
  have k: "(2 :: nat) ^ k \<le> 2 ^ 62"
    using geometry(3) by (intro power_increasing) simp_all
  have m: "unat (ring_mask c) = 2 ^ k - 1"
    unfolding geometry(1) by (rule unat_mask_small [OF geometry(3)])
  from k have "(2 :: nat) ^ k < 2 ^ 64"
    by simp
  then have u: "unat (ring_mask c) + 1 < 2 ^ 64"
    by (simp add: m)
  then show "ring_mask c \<noteq> - 1"
    by (auto simp: unsigned_minus_1_eq_mask mask_eq_exp_minus_1)
  have "unat (ring_mask c + 1) = unat (ring_mask c) + unat (1 :: u64)"
    by (rule unat_add_small) (use u in simp)
  then show "unat (ring_mask c + 1) = 2 ^ k"
    by (simp add: m)
qed

lemma record_inside:
  assumes "prefix evs run" "i < reserved evs"
  shows "record_within_mapping ((of_nat (rec_pos base recs i) AND ring_mask c) + 8)
      (of_nat (length (payload (recs i)))) (ring_mask c + 1)"
    and "unat ((of_nat (rec_pos base recs i) AND ring_mask c) + 8) = rec_pos base recs i mod 2 ^ k + 8"
proof -
  let ?o = "of_nat (rec_pos base recs i) AND ring_mask c" and ?n = "of_nat (length (payload (recs i))) :: usize"
  have o: "unat ?o = rec_pos base recs i mod 2 ^ k"
    using unat_offset [of evs i] assms by simp
  have k: "(2 :: nat) ^ k \<le> 2 ^ 62"
    using geometry(3) by (intro power_increasing) simp_all
  have less: "rec_pos base recs i mod 2 ^ k < 2 ^ k"
    by simp
  with k have small: "rec_pos base recs i mod 2 ^ k < 2 ^ 62"
    by linarith
  show o8: "unat (?o + 8) = rec_pos base recs i mod 2 ^ k + 8"
    using small o by (subst unat_add_small) simp_all
  have "unat ?n = length (payload (recs i))"
    using record_size(2) [of i] by (simp add: unat_of_nat)
  then show "record_within_mapping (?o + 8) ?n (ring_mask c + 1)"
    by (rule within_doubled [OF o8 less record_size(1) k _ unat_ring_size(2)])
qed

lemma next_position:
  "of_nat (rec_pos base recs n) + round_record_len (header_data_len (rec_header (recs n) f))
     = (of_nat (rec_pos base recs (Suc n)) :: u64)"
  using word_of_unat [OF round_record_stride [OF record_size(2) [of n]]]
  by (simp add: rec_header_flags(3) [OF record_size(2)])

lemma slice_is_payload:
  assumes "prefix evs run" "n < reserved evs" "committed evs n" "freed base evs \<le> rec_pos base recs n"
  shows "data_slice (view_cell (kshared w (h0 @ evs))) ((of_nat (rec_pos base recs n) AND ring_mask c) + 8)
      (header_data_len (rec_header (recs n) f)) = payload (recs n)"
proof -
  have "unat (of_nat (length (payload (recs n))) :: usize) = length (payload (recs n))"
    using record_size(2) [of n] by (simp add: unat_of_nat)
  then show ?thesis
    unfolding data_slice_def record_inside(2) [OF assms(1,2)] rec_header_flags(3) [OF record_size(2)]
    using contents [OF assms(1,4,2,3)] by (intro nth_equalityI) simp_all
qed

lemma reserved_prefix: "prefix evs evs' \<Longrightarrow> prefix evs' run \<Longrightarrow> reserved evs \<le> reserved evs'"
  using reserved_grows by (auto simp: prefix_def)

lemma delivery_inv_advance:
  assumes "prefix (evs @ es) run" "delivery_inv h0 base recs reserved committed st evs n" "prefix evs1 evs" "n < reserved evs1"
    and "producer_pos st' = of_nat (rec_pos base recs (reserved evs1))"
    and "hist (process st') = h0 @ evs @ es" "consumer_pos st' = of_nat (rec_pos base recs (Suc n))" "phase st' = Scan"
    and "published (rec_pos base recs n) es = rec_pos base recs (Suc n)"
    and "freed (rec_pos base recs n) es = rec_pos base recs (Suc n)"
    and "delivered es = kept_payloads [recs n]" "\<not> list_ex is_stderr es" "committed evs n"
  shows "delivery_inv h0 base recs reserved committed st' (evs @ es) (Suc n)"
proof -
  have "Suc n \<le> reserved (evs @ es)"
    using assms(4) reserved_prefix [OF prefix_prefix [OF assms(3)] assms(1)] by simp
  then show ?thesis
    using assms by (auto simp: delivery_inv_def kept_payloads_def less_Suc_eq committed_stays intro!: exI [of _ evs1] prefix_prefix)
qed

lemma scan_behind:
  assumes "prefix evs run" "delivery_inv h0 base recs reserved committed st evs n" "phase st = Scan"
  obtains evs1 where "prefix evs1 evs" "n \<le> reserved evs1"
    "producer_pos st = of_nat (rec_pos base recs (reserved evs1))"
    "consumer_pos st < producer_pos st \<longleftrightarrow> n < reserved evs1"
proof -
  obtain evs1 where split: "prefix evs1 evs" "n \<le> reserved evs1"
    "producer_pos st = of_nat (rec_pos base recs (reserved evs1))"
    using assms by (auto simp: delivery_inv_def)
  moreover have "prefix evs1 run"
    using assms(1) split(1) by (rule prefix_order.order_trans [rotated])
  then have "consumer_pos st < producer_pos st \<longleftrightarrow> n < reserved evs1"
    using assms(2) split unat_pos [of evs1 n] unat_pos [of evs1 "reserved evs1"]
    by (simp add: delivery_inv_def word_less_nat_alt rec_pos_less_iff)
  ultimately show thesis by (rule that)
qed

text \<open>The pass of a scan that is behind: the producer position it saw, and what the pass adds to the history.\<close>

lemma scanned_record:
  assumes now: "prefix evs run" and inv: "delivery_inv h0 base recs reserved committed st evs n"
    and scan: "phase st = Scan" "consumer_pos st < producer_pos st"
  defines "o' \<equiv> of_nat (rec_pos base recs n) AND ring_mask c"
    and "raw \<equiv> rec_header (recs n) (committed evs n)" and "st' \<equiv> process_record w c st"
  obtains evs1 es res where "prefix evs1 evs" "n < reserved evs1" "n < reserved evs"
    "pass_outcome c (of_nat (rec_pos base recs n)) o' raw (view_cell (kshared w (h0 @ evs @ [LoadHeader o' raw]))) es res"
    "hist (process st') = h0 @ evs @ [LoadHeader o' raw] @ es"
    "producer_pos st' = of_nat (rec_pos base recs (reserved evs1))"
    "consumer_pos st' = (case res of None \<Rightarrow> consumer_pos st | Some v \<Rightarrow> v)"
    "phase st' = (case res of None \<Rightarrow> Returned | Some v \<Rightarrow> phase st)"
proof -
  have st: "hist (process st) = h0 @ evs" "consumer_pos st = of_nat (rec_pos base recs n)"
    "freed base evs = rec_pos base recs n"
    using inv by (simp_all add: delivery_inv_def)
  obtain evs1 where split: "prefix evs1 evs" "n < reserved evs1"
    "producer_pos st = of_nat (rec_pos base recs (reserved evs1))"
    using scan_behind [OF now inv scan(1)] scan(2) by blast
  with reserved_prefix [of evs1 evs] now have n: "n < reserved evs"
    by simp
  have o: "record_offset c st = o'"
    using st by (simp add: record_offset_def o'_def)
  have raw: "record_header w c st = raw"
    using header [OF now, of n] n by (simp add: record_header_def o st o'_def raw_def)
  show thesis
    by (rule process_record_outcome [of c st w])
      (rule that [OF split(1,2) n], simp_all add: o raw st(1) st(2) [symmetric] st'_def split(3))
qed

lemma positions_exact:
  assumes "prefix evs run" "n < reserved evs"
  shows "unat (of_nat (rec_pos base recs n) :: u64) = rec_pos base recs n"
    "unat (of_nat (rec_pos base recs (Suc n)) :: u64) = rec_pos base recs (Suc n)"
  using assms unat_pos [of evs n] unat_pos [of evs "Suc n"] by simp_all

lemma passed_record:
  assumes inv: "delivery_inv h0 base recs reserved committed st evs n"
    and scan: "phase st = Scan" "consumer_pos st < producer_pos st"
    and runs: "prefix (hist (process (process_record w c st))) (h0 @ run)"
  shows "\<exists>evs' n'. delivery_inv h0 base recs reserved committed (process_record w c st) evs' n'"
proof -
  let ?st = "process_record w c st"
  let ?o = "of_nat (rec_pos base recs n) AND ring_mask c" and ?raw = "rec_header (recs n) (committed evs n)"
  let ?load = "[LoadHeader ?o ?raw]"
  have now: "prefix evs run"
    using inv prefix_order.order_trans [OF process_record_appends [of st w c] runs] by (simp add: delivery_inv_def)
  obtain evs1 es res where seen: "prefix evs1 evs" "n < reserved evs1" and n: "n < reserved evs"
    and out: "pass_outcome c (of_nat (rec_pos base recs n)) ?o ?raw (view_cell (kshared w (h0 @ evs @ ?load))) es res"
    and hist: "hist (process ?st) = h0 @ evs @ ?load @ es"
    and post: "producer_pos ?st = of_nat (rec_pos base recs (reserved evs1))"
      "consumer_pos ?st = (case res of None \<Rightarrow> consumer_pos st | Some v \<Rightarrow> v)"
      "phase ?st = (case res of None \<Rightarrow> Returned | Some v \<Rightarrow> phase st)"
    by (rule scanned_record [OF now inv scan])
  have later: "prefix (evs @ ?load @ es) run" "prefix (evs @ ?load) run"
    using runs hist run_begins [of "evs @ ?load" es] by simp_all
  have grow: "n < reserved (evs @ ?load)" "n < reserved (evs @ ?load @ es)"
    using n reserved_grows [OF later(2)] reserved_grows [OF later(1)] by simp_all
  note unat = positions_exact [OF now n] and flags = rec_header_flags [OF record_size(2), of n]
  note advance = delivery_inv_advance [OF later(1) inv seen post(1) hist]
  from out show ?thesis
  proof cases
    case busy
    then have "delivery_inv h0 base recs reserved committed ?st (evs @ ?load @ es) n"
      using inv post hist unat grow n flags later(1)
      by (auto simp: delivery_inv_def committed_stays intro!: exI [of _ evs])
    then show ?thesis by blast
  next
    case corrupt
    then show ?thesis
      using record_inside(1) [OF now n] unat_ring_size(1) flags(3) by simp
  next
    case (deliver "next")
    then have kept: "committed evs n" "\<not> discarded (recs n)"
      by (simp_all add: flags)
    have "es = [Callback (?o + 8) (payload (recs n)), StoreConsumerPos (of_nat (rec_pos base recs (Suc n)))]"
      using deliver next_position slice_is_payload [OF later(2) grow(1) committed_stays [OF later(2) kept(1)]] inv
      by (simp add: delivery_inv_def)
    then show ?thesis
      using advance deliver post scan(1) unat kept next_position by (intro exI) (simp add: kept_payloads_def)
  next
    case (skip "next")
    then have "discarded (recs n)" "committed evs n"
      by (simp_all add: flags)
    then show ?thesis
      using advance skip post scan(1) unat next_position by (intro exI) (simp add: kept_payloads_def)
  qed
qed

lemma delivery_step:
  assumes inv: "delivery_inv h0 base recs reserved committed st evs n" and "phase st \<noteq> Returned"
    and runs: "prefix (hist (process (ring_step w c st))) (h0 @ run)"
  shows "\<exists>evs' n'. delivery_inv h0 base recs reserved committed (ring_step w c st) evs' n'"
proof (cases "phase st")
  case Reload
  let ?v = "view_producer (kshared w (h0 @ evs))"
  have later: "prefix (evs @ [LoadProducerPos ?v]) run"
    using inv runs Reload by (simp add: delivery_inv_def ring_step_def Let_def)
  then have "delivery_inv h0 base recs reserved committed (ring_step w c st) (evs @ [LoadProducerPos ?v]) n"
    using inv Reload producer [OF run_begins [OF later]] reserved_grows [OF later]
    by (auto simp: delivery_inv_def ring_step_def Let_def committed_stays intro!: exI [of _ evs])
  then show ?thesis by blast
next
  case Scan
  show ?thesis
  proof (cases "consumer_pos st < producer_pos st")
    case True
    then show ?thesis
      using passed_record [OF inv Scan] runs Scan by (simp add: ring_step_def)
  next
    case False
    then have "prefix evs run"
      using inv runs Scan by (simp add: delivery_inv_def ring_step_def)
    then obtain evs1 where "prefix evs1 evs" "n = reserved evs1"
      using scan_behind [OF _ inv Scan] False by (metis le_neq_implies_less)
    then have "delivery_inv h0 base recs reserved committed (ring_step w c st) evs n"
      using inv Scan False by (auto simp: delivery_inv_def ring_step_def)
    then show ?thesis by blast
  qed
qed (use assms in simp)

text \<open>Every state on the way to the end of the run.\<close>

lemma delivers:
  assumes "ring_reaches w c p st" "hist p = h0" "prefix (hist (process st)) (h0 @ run)"
  shows "\<exists>evs n. delivery_inv h0 base recs reserved committed st evs n"
  using assms(1,3)
proof (induction rule: ring_reaches.induct)
  case start
  have "delivery_inv h0 base recs reserved committed (ring_start w p) [LoadConsumerPos (of_nat base)] 0"
    using consumer_start assms(2) by (simp add: delivery_inv_def ring_start_def Let_def kept_payloads_def)
  then show ?case by blast
next
  case (step st)
  have "prefix (hist (process st)) (hist (process (ring_step w c st)))"
    by (rule ring_step_appends)
  with step.prems have "prefix (hist (process st)) (h0 @ run)"
    by (rule prefix_order.order_trans [rotated])
  with step.IH step.hyps(2) step.prems show ?case using delivery_step by blast
qed

lemma delivers_on_return:
  assumes "consume_ring_records w c p = Some p'" "hist p = h0" "hist p' = h0 @ run"
  shows "\<exists>n evs1. delivered run = kept_payloads (map recs [0..<n])
    \<and> published base run = rec_pos base recs n \<and> freed base run = rec_pos base recs n
    \<and> \<not> list_ex is_stderr run \<and> (\<forall>i < n. committed run i)
    \<and> prefix evs1 run \<and> (n = reserved evs1 \<or> n < reserved evs1 \<and> \<not> committed evs1 n)"
proof -
  obtain st where "while_option (\<lambda>st. phase st \<noteq> Returned) (ring_step w c) (ring_start w p) = Some st"
    and p': "p' = process st"
    using assms(1) by (auto simp: consume_ring_records_def)
  then have st: "ring_reaches w c p st" "phase st = Returned"
    using while_option_reaches by blast+
  obtain evs n where inv: "delivery_inv h0 base recs reserved committed st evs n"
    using delivers [OF st(1) assms(2)] assms(3) p' by auto
  then have "evs = run"
    using assms(3) p' by (simp add: delivery_inv_def)
  with inv show ?thesis
    using st(2) by (auto simp: delivery_inv_def)
qed

end

end
