(* ===== verification/Ring_Log.thy ===== *)
theory Ring_Log
  imports Ring_Delivery
begin

text \<open>
  A ring encoded from a log of records, byte by byte in the kernel's layout: headers with
  their flags, payloads, padding, wrapped around the ring and mirrored by the double
  mapping. It satisfies \<open>ring_kernel\<close>, and consuming it reads the log back.
\<close>

unbundle bit_operations_syntax

section \<open>Encoding\<close>

definition u32_bytes :: "u32 \<Rightarrow> u8 list" where
  "u32_bytes x = [ucast x, ucast (drop_bit 8 x), ucast (drop_bit 16 x), ucast (drop_bit 24 x)]"

definition record_bytes :: "ring_record \<times> bool \<Rightarrow> u8 list" where
  "record_bytes rc = u32_bytes (rec_header (fst rc) (snd rc)) @ [0, 0, 0, 0] @ payload (fst rc)
     @ replicate (stride (fst rc) - 8 - length (payload (fst rc))) 0"

definition log_bytes :: "(ring_record \<times> bool) list \<Rightarrow> u8 list" where
  "log_bytes log = concat (map record_bytes log)"

text \<open>
  The byte at an offset of the ring after \<open>bs\<close> has been written from position \<open>base\<close> on, round and round: the
  one written there last.
\<close>

definition ring_cell :: "nat \<Rightarrow> nat \<Rightarrow> u8 list \<Rightarrow> nat \<Rightarrow> u8" where
  "ring_cell k base bs o' = (let d = (o' + 2 ^ k - base mod 2 ^ k) mod 2 ^ k in
     if d < length bs then bs ! (d + 2 ^ k * ((length bs - 1 - d) div 2 ^ k)) else 0)"

definition log_world :: "world \<Rightarrow> nat \<Rightarrow> nat \<Rightarrow> (ring_record \<times> bool) list \<Rightarrow> world" where
  "log_world w k base log = w\<lparr>kshared := \<lambda>_. \<lparr>view_consumer = of_nat base,
     view_producer = of_nat (base + length (log_bytes log)), view_cell = ring_cell k base (log_bytes log)\<rparr>\<rparr>"

definition log_recs :: "(ring_record \<times> bool) list \<Rightarrow> nat \<Rightarrow> ring_record" where
  "log_recs log i = (if i < length log then fst (log ! i) else \<lparr>payload = [], discarded = False\<rparr>)"

definition log_committed :: "(ring_record \<times> bool) list \<Rightarrow> nat \<Rightarrow> bool" where
  "log_committed log i \<longleftrightarrow> i < length log \<and> snd (log ! i)"

definition valid_log :: "nat \<Rightarrow> nat \<Rightarrow> (ring_record \<times> bool) list \<Rightarrow> bool" where
  "valid_log k base log \<longleftrightarrow> 3 \<le> k \<and> k \<le> 62 \<and> length (log_bytes log) \<le> 2 ^ k
     \<and> base + length (log_bytes log) < 2 ^ 64 - 2 ^ 31 \<and> (\<forall>rc \<in> set log. length (payload (fst rc)) < 2 ^ 30)"

section \<open>Lemmas\<close>

lemma length_record_bytes [simp]: "length (record_bytes rc) = stride (fst rc)"
  using stride_ge(1) [of "fst rc"] by (simp add: record_bytes_def u32_bytes_def)

lemma log_bytes_simps [simp]:
  "log_bytes [] = []" "log_bytes (rc # log) = record_bytes rc @ log_bytes log"
  "log_bytes (xs @ ys) = log_bytes xs @ log_bytes ys"
  by (simp_all add: log_bytes_def)

lemma log_position:
  "i \<le> length log \<Longrightarrow> rec_pos base (log_recs log) i = base + length (log_bytes (take i log))"
  by (induction i) (simp_all add: log_recs_def take_Suc_conv_app_nth)

lemma log_split:
  assumes "i < length log"
  shows "log_bytes log = log_bytes (take i log) @ record_bytes (log ! i) @ log_bytes (drop (Suc i) log)"
  using arg_cong [OF id_take_nth_drop [OF assms], of log_bytes] by simp

lemma wrap_index:
  fixes m :: nat
  assumes "0 < m"
  shows "((b + q) mod m + j + m - b mod m) mod m = (q + j) mod m"
proof -
  have "b mod m \<le> m"
    using assms by (simp add: less_imp_le)
  then have "((b + q) mod m + j + m - b mod m) mod m = ((b + q) mod m + (j + (m - b mod m))) mod m"
    by (simp add: add.assoc)
  also have "\<dots> = ((b + q) + (j + (m - b mod m))) mod m"
    by (simp only: mod_add_left_eq)
  also have "b + q + (j + (m - b mod m)) = q + j + m + m * (b div m)"
    using mult_div_mod_eq [of m b] mod_less_divisor [OF assms, of b] by linarith
  finally show ?thesis by simp
qed

text \<open>What was written less than a round ago is still there.\<close>

lemma last_written:
  assumes "x < length bs" "length bs \<le> x + 2 ^ k" "(o' + 2 ^ k - base mod 2 ^ k) mod 2 ^ k = x mod 2 ^ k"
  shows "ring_cell k base bs o' = bs ! x"
proof -
  have x: "x = x mod 2 ^ k + 2 ^ k * (x div 2 ^ k)"
    by simp
  then have "length bs - 1 - x mod 2 ^ k = length bs - 1 - x + 2 ^ k * (x div 2 ^ k)"
    using assms(1) by linarith
  moreover have "length bs - 1 - x < 2 ^ k"
    using assms(1,2) by linarith
  ultimately have "(length bs - 1 - x mod 2 ^ k) div 2 ^ k = x div 2 ^ k"
    by simp
  moreover have "x mod 2 ^ k < length bs"
    using assms(1) by (rule le_less_trans [OF mod_less_eq_dividend])
  ultimately show ?thesis
    using x by (simp add: ring_cell_def assms(3))
qed

text \<open>A record that is not overlapped by what was written after it, and its header and payload.\<close>

definition intact :: "nat \<Rightarrow> nat \<Rightarrow> (ring_record \<times> bool) list \<Rightarrow> nat \<Rightarrow> bool" where
  "intact k base log i \<longleftrightarrow> i < length log \<and> base + length (log_bytes log) \<le> rec_pos base (log_recs log) i + 2 ^ k"

lemma log_cell:
  assumes "intact k base log i" "j < stride (fst (log ! i))"
  shows "ring_cell k base (log_bytes log) (rec_pos base (log_recs log) i mod 2 ^ k + j) = record_bytes (log ! i) ! j"
proof -
  let ?q = "length (log_bytes (take i log))"
  have i: "i < length log" "length (log_bytes log) \<le> ?q + j + 2 ^ k"
    using assms(1) log_position [of i log base] by (auto simp: intact_def)
  have len: "?q + j < length (log_bytes log)"
    using assms(2) by (subst log_split [OF i(1)]) simp
  have "ring_cell k base (log_bytes log) ((base + ?q) mod 2 ^ k + j) = log_bytes log ! (?q + j)"
    by (rule last_written [OF len i(2) wrap_index]) simp
  moreover have "log_bytes log ! (?q + j) = record_bytes (log ! i) ! j"
    using assms(2) by (subst log_split [OF i(1)]) (simp add: nth_append)
  ultimately show ?thesis
    using i(1) by (simp add: log_position)
qed

lemma log_header:
  assumes "intact k base log i" "unat o' = rec_pos base (log_recs log) i mod 2 ^ k"
  shows "header_len (ring_cell k base (log_bytes log)) o' = rec_header (fst (log ! i)) (snd (log ! i))"
proof -
  have "j < stride (fst (log ! i))" if "j < 8" for j
    using that stride_ge(2) [of "fst (log ! i)"] by simp
  note cell = log_cell [OF assms(1) this]
  show ?thesis
    using cell [of 0] cell [of 1] cell [of 2] cell [of 3]
    by (simp add: header_len_def ring_header_def cell_u32_def assms(2) record_bytes_def u32_bytes_def join_bytes_32 numeral_2_eq_2 numeral_3_eq_3)
qed

lemma log_payload:
  assumes "intact k base log i" "j < length (payload (fst (log ! i)))"
  shows "ring_cell k base (log_bytes log) (rec_pos base (log_recs log) i mod 2 ^ k + 8 + j) = payload (fst (log ! i)) ! j"
proof -
  have "8 + j < stride (fst (log ! i))"
    using assms(2) stride_ge(1) [of "fst (log ! i)"] by simp
  from log_cell [OF assms(1) this] show ?thesis
    using assms(2) by (simp add: add.assoc record_bytes_def u32_bytes_def nth_append)
qed

lemma masked_position:
  assumes "q < 2 ^ 64"
  shows "unat (of_nat q AND mask k :: u64) = q mod 2 ^ k"
proof -
  have "of_nat q AND mask k = take_bit k (of_nat q :: u64)"
    by (simp only: take_bit_eq_mask)
  then have "unat (of_nat q AND mask k :: u64) = take_bit k q"
    using assms by (simp only: unsigned_take_bit_eq unat_of_nat) simp
  then show ?thesis
    by (simp only: take_bit_eq_mod)
qed

lemma valid_log_intact:
  assumes "valid_log k base log" "i < length log"
  shows "intact k base log i" "rec_pos base (log_recs log) i < 2 ^ 64"
  using assms log_position [of i log base] log_split [OF assms(2)] by (auto simp: valid_log_def intact_def)

lemma log_world_view [simp]:
  "view_consumer (kshared (log_world w k base log) h) = of_nat base"
  "view_producer (kshared (log_world w k base log) h) = of_nat (base + length (log_bytes log))"
  "view_cell (kshared (log_world w k base log) h) = ring_cell k base (log_bytes log)"
  by (simp_all add: log_world_def)

lemma stride_le_log: "rc \<in> set log \<Longrightarrow> stride (fst rc) \<le> length (log_bytes log)"
  by (induction log) auto

lemma eight_le_ring: "3 \<le> k \<Longrightarrow> 8 \<le> (2 :: nat) ^ k"
  using power_increasing [of 3 k "2 :: nat"] by simp

lemma log_recs_fit:
  assumes "valid_log k base log"
  shows "length (payload (log_recs log i)) + 8 \<le> 2 ^ k" "length (payload (log_recs log i)) < 2 ^ 30"
proof -
  have "length (payload (log_recs log i)) + 8 \<le> 2 ^ k \<and> length (payload (log_recs log i)) < 2 ^ 30"
  proof (cases "i < length log")
    case True
    then have "log ! i \<in> set log" by simp
    with stride_le_log [OF this] stride_ge(1) [of "fst (log ! i)"] assms True show ?thesis
      by (auto simp: valid_log_def log_recs_def)
  next
    case False
    then show ?thesis
      using assms eight_le_ring [of k] by (simp add: valid_log_def log_recs_def)
  qed
  then show "length (payload (log_recs log i)) + 8 \<le> 2 ^ k" "length (payload (log_recs log i)) < 2 ^ 30"
    by simp_all
qed

lemma log_ring_kernel:
  assumes "valid_log k base log"
  shows "ring_kernel (log_world w k base log) (c\<lparr>ring_mask := mask k\<rparr>) h0 run k base (log_recs log)
    (\<lambda>_. length log) (\<lambda>_. log_committed log)"
proof
  fix i :: nat
  assume i: "i < length log"
  note intact = valid_log_intact [OF assms i]
  have rm: "ring_mask (c\<lparr>ring_mask := mask k\<rparr>) = mask k"
    by simp
  from log_header [OF intact(1) masked_position [OF intact(2)]] i
  show "header_len (view_cell (kshared (log_world w k base log) (h0 @ evs)))
      (of_nat (rec_pos base (log_recs log) i) AND ring_mask (c\<lparr>ring_mask := mask k\<rparr>))
      = rec_header (log_recs log i) (log_committed log i)" for evs
    by (simp only: log_world_view log_recs_def log_committed_def rm if_True simp_thms)
  show "view_cell (kshared (log_world w k base log) (h0 @ evs)) (rec_pos base (log_recs log) i mod 2 ^ k + 8 + j)
      = payload (log_recs log i) ! j" if "j < length (payload (log_recs log i))" for evs j
    using log_payload [OF intact(1), of j] that i by (simp add: log_recs_def)
qed (use assms log_recs_fit in \<open>simp_all add: valid_log_def log_position\<close>)

typedef ring_log = "{(k, base, log). valid_log k base log}"
  by (rule exI [of _ "(3, 0, [])"]) (simp add: valid_log_def)

definition log_shift :: "ring_log \<Rightarrow> nat" where "log_shift x = fst (Rep_ring_log x)"
definition log_base :: "ring_log \<Rightarrow> nat" where "log_base x = fst (snd (Rep_ring_log x))"
definition log_entries :: "ring_log \<Rightarrow> (ring_record \<times> bool) list" where
  "log_entries x = snd (snd (Rep_ring_log x))"

lemma ring_log_valid: "valid_log (log_shift x) (log_base x) (log_entries x)"
  using Rep_ring_log [of x] by (auto simp: log_shift_def log_base_def log_entries_def)

interpretation encoded_ring: ring_kernel
  "log_world w (log_shift x) (log_base x) (log_entries x)" "c\<lparr>ring_mask := mask (log_shift x)\<rparr>" h0 run
  "log_shift x" "log_base x" "log_recs (log_entries x)" "\<lambda>_. length (log_entries x)" "\<lambda>_. log_committed (log_entries x)"
  for w :: world and x :: ring_log and c :: ringbuf_consumer and h0 run :: "event list"
  by (rule log_ring_kernel [OF ring_log_valid])

section \<open>Properties\<close>

lemma committed_prefix:
  assumes "\<forall>i < n. log_committed log i" "n = length log \<or> n < length log \<and> \<not> log_committed log n"
  shows "take n log = takeWhile snd log"
  using assms
proof (induction log arbitrary: n)
  case (Cons rc log)
  show ?case
  proof (cases n)
    case 0
    with Cons.prems(2) show ?thesis by (auto simp: log_committed_def)
  next
    case (Suc m)
    have "take m log = takeWhile snd log"
      by (rule Cons.IH) (use Cons.prems Suc in \<open>force simp: log_committed_def\<close>)+
    moreover have "snd rc"
      using Cons.prems(1) Suc by (force simp: log_committed_def)
    ultimately show ?thesis using Suc by simp
  qed
qed simp

lemma log_recs_take: "n \<le> length log \<Longrightarrow> map (log_recs log) [0..<n] = map fst (take n log)"
  by (rule nth_equalityI) (auto simp: log_recs_def)

text \<open>
  C4: delivery. Consumption has returned, and at every moment of its run the kernel kept the ring-buffer
  contract: records laid out one after the other, a busy flag until a record is committed, a record
  intact until the consumer has published a position behind it. Records may be reserved and committed at any
  moment, and freed space may be used again. Then the callback has received exactly the payloads of the first \<open>n\<close>
  records that are not discarded, in order and once each, all of them committed; the
  position published is the end of record \<open>n\<close>; and consumption stopped because it had
  seen the producer's end there, or found record \<open>n\<close> still busy. No corruption is
  reported.
\<close>

theorem consume_delivers_in_order:
  assumes "consume_ring_records w c p = Some p'" "hist p' = hist p @ evs"
    and "ring_kernel w c (hist p) evs k base recs reserved committed"
  shows "\<exists>n evs1. delivered evs = kept_payloads (map recs [0..<n])
    \<and> published base evs = rec_pos base recs n \<and> \<not> list_ex is_stderr evs \<and> (\<forall>i < n. committed evs i)
    \<and> prefix evs1 evs \<and> (n = reserved evs1 \<or> n < reserved evs1 \<and> \<not> committed evs1 n)"
  using ring_kernel.delivers_on_return [OF assms(3,1) refl assms(2)] by blast

lemma consume_appends:
  assumes "consume_ring_records w c p = Some p'"
  shows "\<exists>evs. hist p' = hist p @ evs"
proof -
  obtain st where "ring_reaches w c p st" "p' = process st"
    using assms while_option_reaches by (fastforce simp: consume_ring_records_def)
  moreover from this(1) have "prefix (hist p) (hist (process st))"
  proof (induction rule: ring_reaches.induct)
    case (step st)
    then show ?case
      using ring_step_appends prefix_order.order_trans by blast
  qed (simp add: ring_start_def Let_def)
  ultimately show ?thesis
    by (auto simp: prefix_def)
qed

lemma encoded_consumption_returns:
  assumes "valid_log k base log"
  shows "\<exists>p' evs. consume_ring_records (log_world w k base log) c p = Some p' \<and> hist p' = hist p @ evs"
proof -
  have "\<forall>h. unat (view_producer (kshared (log_world w k base log) h)) + 2 ^ 31 < 2 ^ 64"
    using assms by (simp add: valid_log_def unat_of_nat del: of_nat_add)
  from consume_returns [OF this, of c p] obtain p' where "consume_ring_records (log_world w k base log) c p = Some p'"
    by (auto simp: consume_ring_records_def)
  with consume_appends show ?thesis by blast
qed

definition demo_log :: "(ring_record \<times> bool) list" where
  "demo_log = [(\<lparr>payload = [1, 2, 3], discarded = False\<rparr>, True), (\<lparr>payload = [9], discarded = True\<rparr>, True),
     (\<lparr>payload = [4], discarded = False\<rparr>, True), (\<lparr>payload = [5], discarded = False\<rparr>, False)]"

lemma demo_log_valid: "valid_log 6 0x38 demo_log"
  by (simp add: valid_log_def demo_log_def stride_def)

definition demo_consumer :: ringbuf_consumer where
  "demo_consumer = \<lparr>consumer_mapping = 0x1000, producer_mapping = 0x3000, data_ptr = 0x4000, mapping_len = 0x1080,
     ring_mask = 0x3F, page_size = 0x1000\<rparr>"

lemma demo_consumer_mask: "demo_consumer = demo_consumer\<lparr>ring_mask := mask 6\<rparr>"
  by (simp add: demo_consumer_def mask_eq_exp_minus_1)

theorem consume_delivers_in_order_witness:
  "\<exists>p' evs n evs1. consume_ring_records (log_world hostile_world 6 0x38 demo_log) demo_consumer
        \<lparr>hist = [], page_cache = None, warned = False\<rparr> = Some p'
    \<and> hist p' = evs \<and> delivered evs = kept_payloads (map (log_recs demo_log) [0..<n])
    \<and> prefix evs1 evs \<and> (n = 4 \<or> n < 4 \<and> \<not> log_committed demo_log n)"
proof -
  let ?w = "log_world hostile_world 6 0x38 demo_log" and ?p = "\<lparr>hist = [], page_cache = None, warned = False\<rparr>"
  obtain p' evs where run: "consume_ring_records ?w demo_consumer ?p = Some p'" "hist p' = hist ?p @ evs"
    using encoded_consumption_returns [OF demo_log_valid] by blast
  have "ring_kernel ?w demo_consumer (hist ?p) evs 6 0x38 (log_recs demo_log) (\<lambda>_. length demo_log) (\<lambda>_. log_committed demo_log)"
    by (subst demo_consumer_mask) (rule log_ring_kernel [OF demo_log_valid])
  from consume_delivers_in_order [OF run this] obtain n evs1 where
    "delivered evs = kept_payloads (map (log_recs demo_log) [0..<n])" "prefix evs1 evs"
    "n = length demo_log \<or> n < length demo_log \<and> \<not> log_committed demo_log n"
    by blast
  moreover have "length demo_log = 4"
    by (simp add: demo_log_def)
  ultimately show ?thesis
    using run by (intro exI conjI) simp_all
qed

text \<open>
  C20: round trip. A log of records encoded into the ring, at any position and wrapping around
  its end, is read back: consumption returns, the callback has received the payloads of the records
  before the first uncommitted one, without the discarded ones, and the position
  published releases exactly those records.
\<close>

theorem encoded_log_roundtrip:
  assumes "valid_log k base log"
  shows "\<exists>p' evs. consume_ring_records (log_world w k base log) (c\<lparr>ring_mask := mask k\<rparr>) p = Some p'
    \<and> hist p' = hist p @ evs
    \<and> delivered evs = kept_payloads (map fst (takeWhile snd log))
    \<and> published base evs = base + length (log_bytes (takeWhile snd log))"
proof -
  let ?w = "log_world w k base log" and ?c = "c\<lparr>ring_mask := mask k\<rparr>"
  obtain p' evs where p': "consume_ring_records ?w ?c p = Some p'" "hist p' = hist p @ evs"
    using encoded_consumption_returns [OF assms] by blast
  from ring_kernel.delivers_on_return [OF log_ring_kernel [OF assms] p'(1) refl p'(2)]
  obtain n where evs: "hist p' = hist p @ evs" "delivered evs = kept_payloads (map (log_recs log) [0..<n])"
    "published base evs = rec_pos base (log_recs log) n" "\<forall>i < n. log_committed log i"
    and n: "n = length log \<or> n < length log \<and> \<not> log_committed log n"
    using p'(2) by blast
  have "take n log = takeWhile snd log" "n \<le> length log"
    using committed_prefix [OF evs(4) n] n by auto
  then show ?thesis
    using p' evs by (auto simp: log_recs_take log_position)
qed

theorem encoded_log_roundtrip_witness:
  "\<exists>p' evs. consume_ring_records (log_world hostile_world 6 0x38 demo_log) (demo_consumer\<lparr>ring_mask := mask 6\<rparr>)
        \<lparr>hist = [], page_cache = None, warned = False\<rparr> = Some p'
    \<and> hist p' = evs \<and> delivered evs = [[1, 2, 3], [4]] \<and> published 0x38 evs = 0x38 + 48"
  using encoded_log_roundtrip [OF demo_log_valid, of hostile_world demo_consumer
      "\<lparr>hist = [], page_cache = None, warned = False\<rparr>"]
  by (simp add: demo_log_def kept_payloads_def stride_def)

end
