(* ===== verification/Trace.thy ===== *)
theory Trace
  imports Ring_Log
begin

text \<open>
  Relations between the process before and after an operation. Whatever the loader does, it does by
  appending events; a relation that is reflexive, transitive and kept by every event of some
  kind is therefore kept by every operation with only such events. The locale \<open>trace_rel\<close>
  states this once for the two loops of the ring-buffer code; resource accounting, the binary
  interface, the page-size cache and the phases of a poll are instances.
\<close>

fun shared_access :: "event \<Rightarrow> bool" where
  "shared_access (Sys c r) = False"
| "shared_access (Stderr m) = False"
| "shared_access e = True"

locale trace_rel =
  fixes R :: "proc \<Rightarrow> proc \<Rightarrow> bool" and P :: "event \<Rightarrow> bool"
  assumes R_refl: "R p p"
    and R_trans: "R p q \<Longrightarrow> R q r \<Longrightarrow> R p r"
    and R_event: "P e \<Longrightarrow> R p (log_event e p)"
begin

lemma R_log: "R p q \<Longrightarrow> P e \<Longrightarrow> R p (log_event e q)"
  using R_trans R_event by blast

lemma R_call: "call w c p = (r, q) \<Longrightarrow> P (Sys c r) \<Longrightarrow> R p q"
  by (auto simp: call_def Let_def R_event)

lemma R_epoll_wait:
  assumes "epoll_wait w ep p = Some (r, q)" and ok: "\<And>ep r. P (Sys (Epoll_wait ep) r)"
  shows "R p q"
proof -
  have "R p (snd y)" if "epoll_wait w ep p = Some y" for y
  proof (rule epoll_wait.raw_induct [OF _ that])
    fix f :: "world \<Rightarrow> raw_fd \<Rightarrow> proc \<Rightarrow> ((io_error + unit) \<times> proc) option" and w ep p y
    assume IH: "\<And>w ep p y. f w ep p = Some y \<Longrightarrow> R p (snd y)"
      and body: "(let (r, p) = call w (Epoll_wait ep) p in
          if failed r then
            let err = last_os_error r in if error_kind_of err = Interrupted then f w ep p else Some (Err err, p)
          else Some (Ok (), p)) = Some y"
    obtain r q where q: "call w (Epoll_wait ep) p = (r, q)"
      by (cases "call w (Epoll_wait ep) p")
    have "R p q"
      using q ok by (rule R_call)
    then show "R p (snd y)"
      using body IH R_trans [of p q "snd y"] by (auto simp: q Let_def split: if_splits)
  qed
  from this [OF assms(1)] show ?thesis by simp
qed

lemma R_ring_step:
  assumes "\<And>e. shared_access e \<Longrightarrow> P e" "\<And>m. P (Stderr m)"
  shows "R (process st) (process (ring_step w c st))"
  by (simp add: ring_step_def process_record_def eprintln_def Let_def R_refl R_log assms split: phase.split option.split)

lemma R_reaches:
  assumes "ring_reaches w c p st" and ok: "\<And>e. shared_access e \<Longrightarrow> P e" "\<And>m. P (Stderr m)"
  shows "R p (process st)"
  using assms(1)
proof (induction rule: ring_reaches.induct)
  case start
  show ?case
    by (simp add: ring_start_def Let_def R_event ok)
next
  case (step st)
  show ?case
    by (rule R_trans [OF step.IH R_ring_step [OF ok]])
qed

lemma R_consume:
  assumes "consume_ring_records w c p = Some q" "\<And>e. shared_access e \<Longrightarrow> P e" "\<And>m. P (Stderr m)"
  shows "R p q"
proof -
  obtain st where "while_option (\<lambda>st. phase st \<noteq> Returned) (ring_step w c) (ring_start w p) = Some st"
    and q: "q = process st"
    using assms(1) by (auto simp: consume_ring_records_def)
  then have "ring_reaches w c p st"
    using while_option_reaches by blast
  from R_reaches [OF this assms(2,3)] show ?thesis
    by (simp add: q)
qed

end

end
