(* ===== verification/Ring_Poll.thy ===== *)
theory Ring_Poll
  imports Trace "HOL-Library.Multiset"
begin

text \<open>
  Resources of a poll: every mapping and descriptor acquired on the way is handed back exactly
  once on every path, errors included, and a mapping that the kernel does not take back is reported; waiting retries exactly on interruption; creating
  a ring accepts exactly the powers of two.
\<close>

section \<open>Resource accounting\<close>

datatype resource = Mapping u64 usize | Epfd raw_fd

fun acquires :: "event \<Rightarrow> resource list" where
  "acquires (Sys (Mmap len wr fd off') r) = (if ret r = MAP_FAILED then [] else [Mapping (ret r) len])"
| "acquires (Sys Epoll_create1 r) = (if failed r then [] else [Epfd (ucast (ret r))])"
| "acquires _ = []"

text \<open>
  What an event hands back, whatever the kernel answers; what of it the kernel has taken back; and what it has
  not: a failed \<open>munmap\<close> leaves the mapping in place, while \<open>close\<close> releases the descriptor even
  when it reports an error.
\<close>

fun disposes :: "event \<Rightarrow> resource list" where
  "disposes (Sys (Munmap addr len) r) = [Mapping addr len]"
| "disposes (Sys (Close fd) r) = [Epfd fd]"
| "disposes _ = []"

fun leaks :: "event \<Rightarrow> resource list" where
  "leaks (Sys (Munmap addr len) r) = (if ret r \<noteq> 0 then [Mapping addr len] else [])"
| "leaks _ = []"

fun releases :: "event \<Rightarrow> resource list" where
  "releases (Sys (Munmap addr len) r) = (if ret r = 0 then [Mapping addr len] else [])"
| "releases (Sys (Close fd) r) = [Epfd fd]"
| "releases _ = []"

definition acquired :: "event list \<Rightarrow> resource multiset" where
  "acquired evs = mset (concat (map acquires evs))"

definition disposed :: "event list \<Rightarrow> resource multiset" where
  "disposed evs = mset (concat (map disposes evs))"

definition released :: "event list \<Rightarrow> resource multiset" where
  "released evs = mset (concat (map releases evs))"

definition leaked :: "event list \<Rightarrow> resource multiset" where
  "leaked evs = mset (concat (map leaks evs))"

lemma leaks_disposed: "disposes e = [] \<Longrightarrow> leaks e = []"
  by (cases e rule: disposes.cases) simp_all

lemma disposed_split: "disposed evs = released evs + leaked evs"
proof (induction evs)
  case (Cons e evs)
  have "mset (disposes e) = mset (releases e) + mset (leaks e)"
    by (cases e rule: disposes.cases) simp_all
  with Cons show ?case
    by (simp add: disposed_def released_def leaked_def)
qed (simp add: disposed_def released_def leaked_def)

text \<open>The line written about a mapping that was not taken back, and that it follows each such failure at once.\<close>

definition leak_text :: "rust_str \<Rightarrow> bool" where
  "leak_text m \<longleftrightarrow> (\<exists>ctx reason. m = str_lit (''ebpfkit: munmap failed while '' @ ctx @ '': '') @ reason
     @ str_lit '' (mapping may be leaked)'')"

fun leaks_reported :: "event list \<Rightarrow> bool" where
  "leaks_reported [] = True"
| "leaks_reported (e # es) \<longleftrightarrow> (leaks e \<noteq> [] \<longrightarrow> (\<exists>m es'. es = Stderr m # es' \<and> leak_text m)) \<and> leaks_reported es"

lemma leaks_reported_append: "leaks_reported xs \<Longrightarrow> leaks_reported ys \<Longrightarrow> leaks_reported (xs @ ys)"
  by (induction xs) auto

text \<open>The events between two process states acquire \<open>A\<close>, hand back \<open>R\<close>, and report what is leaked.\<close>

definition effect :: "proc \<Rightarrow> proc \<Rightarrow> resource multiset \<Rightarrow> resource multiset \<Rightarrow> bool" where
  "effect p p' A R \<longleftrightarrow> (\<exists>evs. hist p' = hist p @ evs \<and> acquired evs = A \<and> disposed evs = R \<and> leaks_reported evs)"

lemma effect_refl: "effect p p {#} {#}"
  by (simp add: effect_def acquired_def disposed_def)

lemma effect_trans: "effect p q A R \<Longrightarrow> effect q r A' R' \<Longrightarrow> effect p r (A + A') (R + R')"
  unfolding effect_def acquired_def disposed_def
  by (elim exE conjE, rule exI, intro conjI) (erule leaks_reported_append [rotated 2] | simp)+

lemma effect_log: "leaks e = [] \<Longrightarrow> effect p (log_event e p) (mset (acquires e)) (mset (disposes e))"
  by (simp add: effect_def acquired_def disposed_def)

lemma effect_call: "call w c p = (r, p') \<Longrightarrow> leaks (Sys c r) = [] \<Longrightarrow> effect p p' (mset (acquires (Sys c r))) (mset (disposes (Sys c r)))"
  by (auto simp: call_def Let_def intro: effect_log)

lemma effect_eprintln: "effect p (eprintln m p) {#} {#}"
  using effect_log [of "Stderr m" p] by (simp add: eprintln_def)

lemma effect_munmap: "effect p (munmap_or_warn w a l m p) {#} {#Mapping a l#}"
proof -
  obtain r q where q: "call w (Munmap a l) p = (r, q)"
    by (cases "call w (Munmap a l) p")
  then have "hist q = hist p @ [Sys (Munmap a l) r]"
    by (auto simp: call_def Let_def)
  moreover have "leak_text (str_lit (''ebpfkit: munmap failed while '' @ m @ '': '')
      @ io_error_text (kstrerror w) (last_os_error r) @ str_lit '' (mapping may be leaked)'')"
    unfolding leak_text_def by blast
  ultimately show ?thesis
    by (auto simp: munmap_or_warn_def q effect_def acquired_def disposed_def eprintln_def)
qed

lemma effect_close: "effect p (close_or_warn w fd m p) {#} {#Epfd fd#}"
proof -
  obtain r q where q: "call w (Close fd) p = (r, q)"
    by (cases "call w (Close fd) p")
  note e = effect_call [OF q, simplified]
  show ?thesis
    using e effect_trans [OF e effect_eprintln] by (simp add: close_or_warn_def q)
qed

lemma effect_consumer_drop:
  "effect p (ringbuf_consumer_drop w c p) {#}
     {#Mapping (consumer_mapping c) (page_size c), Mapping (producer_mapping c) (mapping_len c)#}"
proof -
  have "effect p (ringbuf_consumer_drop w c p) ({#} + {#})
     ({#Mapping (consumer_mapping c) (page_size c)#} + {#Mapping (producer_mapping c) (mapping_len c)#})"
    unfolding ringbuf_consumer_drop_def by (rule effect_trans) (rule effect_munmap)+
  then show ?thesis by (simp add: add_mset_commute)
qed

interpretation inert: trace_rel "\<lambda>p q. effect p q {#} {#}" "\<lambda>e. acquires e = [] \<and> disposes e = []"
proof
  show "effect p r {#} {#}" if "effect p q {#} {#}" "effect q r {#} {#}" for p q r
    using effect_trans [OF that] by simp
  show "effect p (log_event e p) {#} {#}" if "acquires e = [] \<and> disposes e = []" for e p
    using effect_log [of e p] that leaks_disposed [of e] by simp
qed (rule effect_refl)

lemma access_inert: "shared_access e \<Longrightarrow> acquires e = [] \<and> disposes e = []"
  by (cases e) simp_all

lemma effect_epoll_wait: "epoll_wait w fd p = Some (r, p') \<Longrightarrow> effect p p' {#} {#}"
  by (rule inert.R_epoll_wait) simp_all

lemma effect_consume: "consume_ring_records w c p = Some p' \<Longrightarrow> effect p p' {#} {#}"
  by (rule inert.R_consume) (simp_all add: access_inert)

section \<open>Mapping the ring\<close>

text \<open>
  The three ways \<open>RingbufConsumer::new\<close> ends. In the first error case nothing stays mapped; the
  second is the early return of the length computation, with the consumer page mapped.
\<close>

lemma consumer_new_effect:
  obtains
    (mapped) c p' where "ringbuf_consumer_new w fd rs ps p = (Ok c, p')"
      "effect p p' {#Mapping (consumer_mapping c) (page_size c), Mapping (producer_mapping c) (mapping_len c)#} {#}"
  | (clean) e p' A where "ringbuf_consumer_new w fd rs ps p = (Err e, p')" "effect p p' A A"
  | (overflow) p' m where "ringbuf_consumer_new w fd rs ps p = (Err mapping_overflow, p')"
      "effect p p' {#Mapping m ps#} {#}" "2 ^ 64 \<le> unat ps + 2 * unat rs"
proof -
  obtain r1 p1 where c1: "call w (Mmap ps True fd 0) p = (r1, p1)"
    by (cases "call w (Mmap ps True fd 0) p")
  note e1 = effect_call [OF c1]
  show thesis
  proof (cases "ret r1 = MAP_FAILED")
    case True
    then show ?thesis
      using e1 by (intro clean [of "last_os_error r1" p1 "{#}"]) (simp_all add: ringbuf_consumer_new_def c1)
  next
    case ok: False
    show ?thesis
    proof (cases "unat ps + 2 * unat rs < 2 ^ 64")
      case False
      have "ringbuf_consumer_new w fd rs ps p = (Err mapping_overflow, p1)"
        using ok False by (auto simp: ringbuf_consumer_new_def c1 checked_mul_def checked_add_def unat_mult_small)
      with e1 ok False show ?thesis
        by (intro overflow [of p1 "ret r1"]) simp_all
    next
      case True
      define len where "len = ps + rs * 2"
      have len: "checked_mul rs 2 = Some (rs * 2)" "checked_add ps (rs * 2) = Some len"
        using True by (simp_all add: checked_mul_def checked_add_def unat_mult_small len_def)
      obtain r2 p2 where c2: "call w (Mmap len False fd ps) p1 = (r2, p2)"
        by (cases "call w (Mmap len False fd ps) p1")
      note e2 = effect_trans [OF e1 effect_call [OF c2]]
      let ?undo = "munmap_or_warn w (ret r1) ps ''unmapping consumer page after producer mmap failed'' p2"
      show ?thesis
      proof (cases "ret r2 = MAP_FAILED")
        case True
        have "effect p ?undo {#Mapping (ret r1) ps#} {#Mapping (ret r1) ps#}"
          using effect_trans [OF e2 effect_munmap] ok True by simp
        then show ?thesis
          using ok True len c2 by (intro clean [of "last_os_error r2" ?undo]) (simp_all add: ringbuf_consumer_new_def c1)
      next
        case False
        let ?c = "\<lparr>consumer_mapping = ret r1, producer_mapping = ret r2, data_ptr = ret r2 + ps,
            mapping_len = len, ring_mask = rs - 1, page_size = ps\<rparr>"
        from False show ?thesis
          using ok len c2 e2
          by (intro mapped [of ?c p2]) (simp_all add: ringbuf_consumer_new_def c1 Let_def add_mset_commute)
      qed
    qed
  qed
qed

section \<open>A whole poll\<close>

text \<open>The cache only ever holds a value \<open>sysconf\<close> returned as positive.\<close>

definition cache_ok :: "proc \<Rightarrow> bool" where
  "cache_ok p \<longleftrightarrow> (\<forall>v. page_cache p = Some v \<longrightarrow> 0 < v \<and> unat v < 2 ^ 63)"

lemma positive_long:
  assumes "0 < sint (r :: u64)"
  shows "0 < r \<and> unat r < 2 ^ 63"
proof -
  have u: "uint r = sint r"
    using assms by (intro sint_nonneg_uint) simp
  moreover have "sint r < 2 ^ 63"
    using sint_less [of r] by simp
  ultimately have "uint r < 2 ^ 63"
    by simp
  then have "unat r < 2 ^ 63"
    by (metis int_ops(3) of_nat_less_iff of_nat_numeral of_nat_power uint_nat)
  moreover have "r \<noteq> 0"
    using assms by auto
  ultimately show ?thesis
    by (simp add: word_gt_0)
qed

lemma page_size_effect:
  assumes "page_size_of w p = (r, p')" "cache_ok p"
  shows "effect p p' {#} {#}" "cache_ok p'" "r = Ok v \<Longrightarrow> 0 < v \<and> unat v < 2 ^ 63"
proof -
  obtain s q where q: "call w Sysconf_pagesize p = (s, q)"
    by (cases "call w Sysconf_pagesize p")
  have "page_cache q = page_cache p" "effect p q {#} {#}"
    using q effect_call [OF q] by (auto simp: call_def Let_def)
  then have "effect p p' {#} {#} \<and> cache_ok p' \<and> (r = Ok v \<longrightarrow> 0 < v \<and> unat v < 2 ^ 63)"
    using assms positive_long [of "ret s"]
    by (auto simp: page_size_of_def q cache_ok_def effect_def acquired_def disposed_def
        split: option.splits if_splits)
  then show "effect p p' {#} {#}" "cache_ok p'" "r = Ok v \<Longrightarrow> 0 < v \<and> unat v < 2 ^ 63"
    by simp_all
qed

lemma map_info_effect:
  assumes "map_info w fd p = (r, p')"
  shows "effect p p' {#} {#}" "page_cache p' = page_cache p"
proof -
  let ?c = "Bpf_obj_get_info \<lparr>oi_bpf_fd = fd, oi_info_len = ucast size_of_map_info\<rparr> size_of_obj_info"
  obtain s q where q: "call w ?c p = (s, q)"
    by (cases "call w ?c p")
  then have "p' = q" "page_cache q = page_cache p"
    using assms by (auto simp: map_info_def call_def Let_def split: if_splits)
  then show "effect p p' {#} {#}" "page_cache p' = page_cache p"
    using effect_call [OF q] by simp_all
qed

lemma epoll_new_effect:
  assumes "epoll_new w p = (r, p')"
  shows "effect p p' (case r of Inl e \<Rightarrow> {#} | Inr fd \<Rightarrow> {#Epfd fd#}) {#}"
proof -
  obtain s q where q: "call w Epoll_create1 p = (s, q)"
    by (cases "call w Epoll_create1 p")
  show ?thesis
    using assms effect_call [OF q] by (auto simp: epoll_new_def q split: if_splits)
qed

lemma epoll_add_effect:
  assumes "epoll_add w ep fd p = (r, p')"
  shows "effect p p' {#} {#}"
proof -
  obtain s q where q: "call w (Epoll_ctl_add ep fd (scast fd)) p = (s, q)"
    by (cases "call w (Epoll_ctl_add ep fd (scast fd)) p")
  show ?thesis
    using assms effect_call [OF q] by (auto simp: epoll_add_def q split: if_splits)
qed

text \<open>Once the ring is mapped, whatever follows ends with everything handed back.\<close>

lemma finish_effect:
  assumes "effect p q {#Epfd ep, Mapping (consumer_mapping c) (page_size c), Mapping (producer_mapping c) (mapping_len c)#} {#}"
  shows "\<exists>A. effect p (ringbuf_consumer_drop w c (epoll_drop w ep q)) A A"
proof -
  from effect_trans [OF effect_trans [OF assms effect_close [of q w ep "''closing epoll fd''"]]
      effect_consumer_drop [of _ w c]]
  have "effect p (ringbuf_consumer_drop w c (epoll_drop w ep q))
     {#Epfd ep, Mapping (consumer_mapping c) (page_size c), Mapping (producer_mapping c) (mapping_len c)#}
     {#Epfd ep, Mapping (consumer_mapping c) (page_size c), Mapping (producer_mapping c) (mapping_len c)#}"
    by (simp add: epoll_drop_def add_mset_commute)
  then show ?thesis by blast
qed

lemma waited_effect:
  assumes e: "effect p q A {#}"
    and result: "(case epoll_wait w ep q of
        None \<Rightarrow> None
      | Some (Inl e, q) \<Rightarrow> finish (Err e) q
      | Some (Inr _, q) \<Rightarrow>
        (case consume_ring_records w c q of None \<Rightarrow> None | Some q \<Rightarrow> finish (Ok ()) q)) = Some x"
  shows "\<exists>r q'. effect p q' A {#} \<and> finish r q' = Some x"
proof -
  obtain r q1 where wait: "epoll_wait w ep q = Some (r, q1)"
    using result by (cases "epoll_wait w ep q") auto
  have e1: "effect p q1 A {#}"
    using effect_trans [OF e effect_epoll_wait [OF wait]] by simp
  show ?thesis
  proof (cases r)
    case Inl
    with e1 result show ?thesis by (auto simp: wait)
  next
    case Inr
    then obtain q2 where "consume_ring_records w c q1 = Some q2" "finish (Ok ()) q2 = Some x"
      using result by (auto simp: wait split: option.splits)
    with effect_trans [OF e1 effect_consume] show ?thesis by fastforce
  qed
qed

lemma mapped_poll_effect:
  assumes mapped: "effect p q {#Mapping (consumer_mapping c) (page_size c), Mapping (producer_mapping c) (mapping_len c)#} {#}"
    and result: "(case epoll_new w q of
        (Inl e, q) \<Rightarrow> Some (Err e, ringbuf_consumer_drop w c q)
      | (Inr ep, q) \<Rightarrow>
        let finish = (\<lambda>r q. Some (r, ringbuf_consumer_drop w c (epoll_drop w ep q))) in
        (case epoll_add w ep fd q of
          (Inl e, q) \<Rightarrow> finish (Err e) q
        | (Inr _, q) \<Rightarrow>
          (case epoll_wait w ep q of
            None \<Rightarrow> None
          | Some (Inl e, q) \<Rightarrow> finish (Err e) q
          | Some (Inr _, q) \<Rightarrow>
            (case consume_ring_records w c q of None \<Rightarrow> None | Some q \<Rightarrow> finish (Ok ()) q)))) = Some (r, p')"
  shows "\<exists>A. effect p p' A A"
proof -
  obtain r1 q1 where new: "epoll_new w q = (r1, q1)"
    by (cases "epoll_new w q")
  note e1 = effect_trans [OF mapped epoll_new_effect [OF new]]
  show ?thesis
  proof (cases r1)
    case (Inl e)
    then have "p' = ringbuf_consumer_drop w c q1"
      using result by (simp add: new)
    with effect_trans [OF e1 effect_consumer_drop] Inl show ?thesis
      by (intro exI) simp
  next
    case (Inr ep)
    obtain r2 q2 where add: "epoll_add w ep fd q1 = (r2, q2)"
      by (cases "epoll_add w ep fd q1")
    let ?A = "{#Epfd ep, Mapping (consumer_mapping c) (page_size c), Mapping (producer_mapping c) (mapping_len c)#}"
    have e2: "effect p q2 ?A {#}"
      using effect_trans [OF e1 epoll_add_effect [OF add]] Inr by (simp add: add_mset_commute)
    have "\<exists>r q'. effect p q' ?A {#} \<and> Some (r, ringbuf_consumer_drop w c (epoll_drop w ep q')) = Some (r, p')"
    proof (cases r2)
      case (Inl e)
      with e2 result show ?thesis
        by (auto simp: new \<open>r1 = Inr ep\<close> add)
    next
      case (Inr u)
      with result have "(case epoll_wait w ep q2 of
            None \<Rightarrow> None
          | Some (Inl e, q) \<Rightarrow> Some (Err e, ringbuf_consumer_drop w c (epoll_drop w ep q))
          | Some (Inr _, q) \<Rightarrow>
            (case consume_ring_records w c q of
               None \<Rightarrow> None
             | Some q \<Rightarrow> Some (Ok (), ringbuf_consumer_drop w c (epoll_drop w ep q)))) = Some (r, p')"
        by (simp add: new \<open>r1 = Inr ep\<close> add)
      from waited_effect [OF e2 this] show ?thesis by auto
    qed
    then show ?thesis
      using finish_effect by fastforce
  qed
qed

lemma poll_effect:
  assumes "poll_ringbuf w fd p = Some (r, p')" "cache_ok p"
  shows "\<exists>A. effect p p' A A"
proof -
  obtain ri p1 where info: "map_info w fd p = (ri, p1)"
    by (cases "map_info w fd p")
  note e1 = map_info_effect [OF info]
  obtain rp p2 where page: "page_size_of w p1 = (rp, p2)"
    by (cases "page_size_of w p1")
  have cache1: "cache_ok p1"
    using e1(2) assms(2) by (simp add: cache_ok_def)
  have e2: "effect p p2 {#} {#}"
    using effect_trans [OF e1(1) page_size_effect(1) [OF page cache1]] by simp
  show ?thesis
  proof (cases "\<exists>i ps. ri = Inr i \<and> map_type i = BPF_MAP_TYPE_RINGBUF \<and> rp = Inr ps")
    case False
    then have "p' = p1 \<or> p' = p2"
      using assms(1) by (auto simp: poll_ringbuf_def info page split: sum.splits if_splits)
    with e1(1) e2 show ?thesis by blast
  next
    case True
    then obtain i ps where ok: "ri = Inr i" "map_type i = BPF_MAP_TYPE_RINGBUF" "rp = Inr ps"
      by blast
    have "unat (ucast (max_entries i) :: usize) < 2 ^ 32"
      using unat_bound [of "max_entries i"] by (simp add: unsigned_ucast_eq take_bit_nat_eq_self)
    then have small: "unat ps + 2 * unat (ucast (max_entries i) :: usize) < 2 ^ 64"
      using page_size_effect(3) [OF page cache1 ok(3)] by simp
    show ?thesis
    proof (cases rule: consumer_new_effect [of w fd "ucast (max_entries i)" ps p2])
      case (mapped c q)
      show ?thesis
      proof (rule mapped_poll_effect [where c = c and q = q and w = w and fd = fd and r = r])
        show "effect p q {#Mapping (consumer_mapping c) (page_size c), Mapping (producer_mapping c) (mapping_len c)#} {#}"
          using effect_trans [OF e2 mapped(2)] by simp
      qed (use assms(1) ok mapped(1) in \<open>simp add: poll_ringbuf_def info page\<close>)
    next
      case (clean e q A)
      then show ?thesis
        using assms(1) ok effect_trans [OF e2 clean(2)] by (auto simp: poll_ringbuf_def info page)
    next
      case (overflow q m)
      with small show ?thesis by simp
    qed
  qed
qed

section \<open>Waiting\<close>

text \<open>The state after \<open>n\<close> waits, and the answer to the next one.\<close>

definition wait_after :: "world \<Rightarrow> raw_fd \<Rightarrow> proc \<Rightarrow> nat \<Rightarrow> proc" where
  "wait_after w ep p n = ((\<lambda>q. snd (call w (Epoll_wait ep) q)) ^^ n) p"

definition wait_answer :: "world \<Rightarrow> raw_fd \<Rightarrow> proc \<Rightarrow> nat \<Rightarrow> sysres" where
  "wait_answer w ep p n = fst (call w (Epoll_wait ep) (wait_after w ep p n))"

definition EINTR :: i32 where "EINTR = 4"

lemma interrupted_iff: "error_kind_of (last_os_error r) = Interrupted \<longleftrightarrow> errno r = EINTR"
  by (simp add: last_os_error_def decode_error_kind_def EINTR_def)

lemma wait_after_Suc: "wait_after w ep p (Suc n) = wait_after w ep (snd (call w (Epoll_wait ep) p)) n"
  by (simp add: wait_after_def funpow_Suc_right del: funpow.simps)

lemma epoll_wait_unfold:
  "epoll_wait w ep p =
     (let r = fst (call w (Epoll_wait ep) p); q = snd (call w (Epoll_wait ep) p) in
      if failed r \<and> errno r = EINTR then epoll_wait w ep q
      else Some (if failed r then Err (last_os_error r) else Ok (), q))"
  by (subst epoll_wait.simps) (simp add: interrupted_iff Let_def split: prod.splits)

lemma epoll_wait_result:
  assumes "\<forall>i < n. failed (wait_answer w ep p i) \<and> errno (wait_answer w ep p i) = EINTR"
    and "\<not> (failed (wait_answer w ep p n) \<and> errno (wait_answer w ep p n) = EINTR)"
  shows "epoll_wait w ep p = Some
    (if failed (wait_answer w ep p n) then Err (last_os_error (wait_answer w ep p n)) else Ok (),
     wait_after w ep p (Suc n))"
  using assms
proof (induction n arbitrary: p)
  case 0
  then show ?case
    by (subst epoll_wait_unfold) (simp add: wait_answer_def wait_after_def)
next
  case (Suc n)
  let ?q = "snd (call w (Epoll_wait ep) p)"
  have shift: "wait_answer w ep p (Suc i) = wait_answer w ep ?q i" for i
    by (simp add: wait_answer_def wait_after_Suc)
  have "failed (wait_answer w ep p 0) \<and> errno (wait_answer w ep p 0) = EINTR"
    using Suc.prems(1) by blast
  then have "epoll_wait w ep p = epoll_wait w ep ?q"
    by (subst epoll_wait_unfold) (simp add: wait_answer_def wait_after_def)
  also have "\<dots> = Some (if failed (wait_answer w ep ?q n) then Err (last_os_error (wait_answer w ep ?q n)) else Ok (),
      wait_after w ep ?q (Suc n))"
    by (rule Suc.IH) (use Suc.prems in \<open>auto simp flip: shift\<close>)
  finally show ?case
    by (simp only: shift wait_after_Suc [of w ep p "Suc n"])
qed

section \<open>Properties\<close>

text \<open>
  No silent leak on any path. Whatever the kernel answers to each call, when \<open>poll_ringbuf\<close> returns
  (with success or any error), the mappings and the epoll descriptor it acquired are
  exactly those it released, each with the address and length it was obtained with, and those the kernel
  failed to unmap; about each of the latter a warning was written at once.
\<close>

theorem poll_ringbuf_balanced:
  assumes "poll_ringbuf w map_fd p = Some (r, p')" and "cache_ok p"
  shows "\<exists>evs. hist p' = hist p @ evs \<and> acquired evs = released evs + leaked evs \<and> leaks_reported evs"
  using poll_effect [OF assms] by (auto simp: effect_def disposed_split)

lemma hostile_poll_returns:
  "\<exists>r p'. poll_ringbuf hostile_world 3 \<lparr>hist = [], page_cache = None, warned = False\<rparr> = Some (r, p')"
proof -
  have "\<exists>p'. consume_ring_records hostile_world c p = Some p'" for c p
    using consume_returns [of hostile_world c p] by (auto simp: consume_ring_records_def hostile_world_def)
  then obtain g where "\<And>c p. consume_ring_records hostile_world c p = Some (g c p)"
    by metis
  moreover have "epoll_wait hostile_world ep p = Some (Ok (), snd (call hostile_world (Epoll_wait ep) p))" for ep p
    by (subst epoll_wait_unfold) (simp add: hostile_world_def call_def failed_def Let_def)
  ultimately show ?thesis
    by (auto simp: poll_ringbuf_def split: option.splits sum.splits prod.splits)
qed

theorem poll_ringbuf_balanced_witness:
  "\<exists>r p' evs. poll_ringbuf hostile_world 3 \<lparr>hist = [], page_cache = None, warned = False\<rparr> = Some (r, p')
     \<and> hist p' = evs \<and> acquired evs = released evs + leaked evs \<and> leaks_reported evs"
proof -
  let ?p = "\<lparr>hist = [], page_cache = None, warned = False\<rparr>"
  obtain r p' where poll: "poll_ringbuf hostile_world 3 ?p = Some (r, p')"
    using hostile_poll_returns by blast
  from poll_ringbuf_balanced [OF poll] poll show ?thesis
    by (auto simp: cache_ok_def)
qed

text \<open>
  C33: waiting survives signals. If the first \<open>n\<close> calls of \<open>epoll_wait\<close> fail with \<open>EINTR\<close> and the
  next does not, the wait returns after exactly \<open>n + 1\<close> calls with that last answer: success,
  or its error.
\<close>

theorem epoll_wait_retries:
  assumes "\<forall>i < n. failed (wait_answer w ep p i) \<and> errno (wait_answer w ep p i) = EINTR"
    and "\<not> (failed (wait_answer w ep p n) \<and> errno (wait_answer w ep p n) = EINTR)"
  shows "epoll_wait w ep p = Some
    (if failed (wait_answer w ep p n) then Err (last_os_error (wait_answer w ep p n)) else Ok (),
     wait_after w ep p (Suc n))"
  using assms by (rule epoll_wait_result)

lemma epoll_wait_returns:
  assumes "\<exists>n. \<not> (failed (wait_answer w ep p n) \<and> errno (wait_answer w ep p n) = EINTR)"
  shows "\<exists>r p'. epoll_wait w ep p = Some (r, p')"
proof -
  let ?P = "\<lambda>n. \<not> (failed (wait_answer w ep p n) \<and> errno (wait_answer w ep p n) = EINTR)"
  have "?P (LEAST n. ?P n)" "\<forall>i < (LEAST n. ?P n). \<not> ?P i"
    using assms LeastI_ex [of ?P] not_less_Least [of _ ?P] by blast+
  then show ?thesis
    using epoll_wait_result [of "LEAST n. ?P n" w ep p] by blast
qed

text \<open>
  A poll comes back. If no wait is interrupted for ever and the producer stays below the last
  2 GiB of the position space, \<open>poll_ringbuf\<close> returns, for every other behaviour of the kernel.
\<close>

theorem poll_ringbuf_returns:
  assumes "\<forall>ep q. \<exists>n. \<not> (failed (wait_answer w ep q n) \<and> errno (wait_answer w ep q n) = EINTR)"
    and "\<forall>h. unat (view_producer (kshared w h)) + 2 ^ 31 < 2 ^ 64"
  shows "\<exists>r p'. poll_ringbuf w map_fd p = Some (r, p')"
proof -
  have "\<forall>ep q. \<exists>r q'. epoll_wait w ep q = Some (r, q')"
    using assms(1) epoll_wait_returns by blast
  moreover have "\<forall>c q. \<exists>q'. consume_ring_records w c q = Some q'"
    using consume_returns [OF assms(2)] by (auto simp: consume_ring_records_def)
  ultimately have "\<forall>ep q. epoll_wait w ep q \<noteq> None" "\<forall>c q. consume_ring_records w c q \<noteq> None"
    by (metis option.distinct(1))+
  then have "poll_ringbuf w map_fd p \<noteq> None"
    by (auto simp: poll_ringbuf_def Let_def simp del: not_None_eq split: option.splits sum.splits prod.splits)
  then show ?thesis by auto
qed

theorem poll_ringbuf_returns_witness:
  "\<exists>r p'. poll_ringbuf hostile_world 3 \<lparr>hist = [], page_cache = None, warned = False\<rparr> = Some (r, p')"
  by (rule poll_ringbuf_returns)
    (simp_all add: hostile_world_def wait_answer_def call_def failed_def Let_def)

definition signalled_world :: world where
  "signalled_world = hostile_world\<lparr>kcall := \<lambda>h c. (kcall hostile_world h c)
     \<lparr>ret := (if length h < 2 then - 1 else 1), errno := EINTR\<rparr>\<rparr>"

theorem epoll_wait_retries_witness:
  "epoll_wait signalled_world 5 \<lparr>hist = [], page_cache = None, warned = False\<rparr>
     = Some (Ok (), wait_after signalled_world 5 \<lparr>hist = [], page_cache = None, warned = False\<rparr> 3)"
proof -
  let ?p = "\<lparr>hist = [], page_cache = None, warned = False\<rparr>"
  have "wait_answer signalled_world 5 ?p i = kcall signalled_world (hist (wait_after signalled_world 5 ?p i)) (Epoll_wait 5)"
    for i by (simp add: wait_answer_def call_def Let_def)
  moreover have "length (hist (wait_after signalled_world 5 ?p i)) = i" for i
    by (induction i) (simp_all add: wait_after_def call_def Let_def)
  ultimately have a: "failed (wait_answer signalled_world 5 ?p i) \<longleftrightarrow> i < 2" "errno (wait_answer signalled_world 5 ?p i) = EINTR" for i
    by (simp_all add: signalled_world_def failed_def)
  show ?thesis
    using epoll_wait_retries [of 2 signalled_world 5 ?p] by (simp add: a numeral_3_eq_3 numeral_2_eq_2)
qed

lemma power_of_two_iff: "is_power_of_two n \<longleftrightarrow> (\<exists>k < 32. n = 2 ^ k)"
proof
  assume "is_power_of_two n"
  then obtain k where k: "filter (bit n) [0..<32] = [k]"
    by (auto simp: is_power_of_two_def length_Suc_conv)
  have "set (filter (bit n) [0..<32]) = {k}"
    by (simp add: k)
  then have bits: "j < 32 \<and> bit n j \<longleftrightarrow> j = k" for j
    by (auto simp: set_eq_iff)
  then have "n = push_bit k 1"
    by (intro bit_word_eqI) (auto simp: bit_simps)
  then show "\<exists>k < 32. n = 2 ^ k"
    using bits [of k] by (intro exI [of _ k]) (simp add: push_bit_eq_mult)
next
  assume "\<exists>k < 32. n = 2 ^ k"
  then obtain k where k: "k < 32" "n = 2 ^ k"
    by blast
  then have "filter (bit n) [0..<32] = filter ((=) k) [0..<32]"
    by (intro filter_cong) (auto simp: bit_simps)
  also have "\<dots> = [k]"
  proof -
    have "[0..<32] = [0..<k] @ k # [Suc k..<32]"
      using k(1) by (metis le_add_diff_inverse less_imp_le upt_add_eq_append upt_conv_Cons zero_le)
    then show ?thesis by (auto simp: filter_empty_conv)
  qed
  finally show "is_power_of_two n"
    by (simp add: is_power_of_two_def)
qed

text \<open>
  \<open>create_ringbuf\<close> asks the kernel for a ring-buffer map of the given capacity when, and
  only when, the size is one of the 32 powers of two, and returns its descriptor or
  error; every other size (zero included) is invalid input without a system call.
\<close>

theorem create_ringbuf_sizes:
  "if \<exists>k < 32. size_bytes = 2 ^ k then
     \<exists>attr r. hist (snd (create_ringbuf w size_bytes p)) = hist p @ [Sys (Bpf_map_create attr 72) r]
       \<and> mc_map_type attr = 27 \<and> mc_max_entries attr = size_bytes
       \<and> fst (create_ringbuf w size_bytes p) = (if failed r then Err (OsError (errno r)) else Ok (ucast (ret r)))
   else snd (create_ringbuf w size_bytes p) = p
     \<and> (\<exists>msg. fst (create_ringbuf w size_bytes p) = Err (Custom InvalidInput msg))"
proof (cases "\<exists>k < 32. size_bytes = 2 ^ k")
  case True
  moreover have "size_bytes \<noteq> 0"
    using True by auto
  ultimately show ?thesis
    by (auto simp: create_ringbuf_def power_of_two_iff [symmetric] call_def Let_def struct_sizes
        BPF_MAP_TYPE_RINGBUF_def last_os_error_def default_map_create_def)
next
  case False
  then have "\<not> is_power_of_two size_bytes"
    by (simp only: power_of_two_iff simp_thms)
  then show ?thesis
    unfolding if_not_P [OF False] by (simp add: create_ringbuf_def)
qed

text \<open>
  The page size is asked for once. After a successful answer every later call gives
  the same value without a system call, whatever the system would answer then, and an
  answer that is not positive is an error and is not remembered.
\<close>

theorem page_size_cached:
  "case page_size_of w p of
     (Inr v, p') \<Rightarrow> (\<forall>w'. page_size_of w' p' = (Ok v, p'))
   | (Inl e, p') \<Rightarrow> page_cache p = None \<and> page_cache p' = None"
  by (auto simp: page_size_of_def call_def Let_def split: option.splits)

text \<open>
  The early return of the length computation leaks. When the doubled ring size and the page
  size exceed the address space, \<open>RingbufConsumer::new\<close> fails with the consumer page mapped and
  does not unmap it. (\<open>poll_ringbuf\<close> cannot get there with a 32-bit capacity.)
\<close>

theorem consumer_new_overflow_leaks:
  assumes "2 ^ 64 \<le> unat ps + 2 * unat rs" and "ret (kcall w (hist p) (Mmap ps True fd 0)) \<noteq> MAP_FAILED"
  shows "\<exists>p' evs m. ringbuf_consumer_new w fd rs ps p = (Err mapping_overflow, p')
    \<and> hist p' = hist p @ evs \<and> acquired evs = {#Mapping m ps#} \<and> disposed evs = {#}"
proof -
  have "unat rs * 2 < 2 ^ 64 \<longrightarrow> \<not> unat ps + unat (rs * 2) < 2 ^ 64"
    using assms(1) by (auto simp: unat_mult_small)
  then have "ringbuf_consumer_new w fd rs ps p
      = (Err mapping_overflow, log_event (Sys (Mmap ps True fd 0) (kcall w (hist p) (Mmap ps True fd 0))) p)"
    using assms(2) by (auto simp: ringbuf_consumer_new_def call_def Let_def checked_mul_def checked_add_def)
  then show ?thesis
    using assms(2) by (simp add: acquired_def disposed_def)
qed

theorem consumer_new_overflow_leaks_witness:
  "\<exists>p' evs m. ringbuf_consumer_new hostile_world 3 (2 ^ 63) 4096 \<lparr>hist = [], page_cache = None, warned = False\<rparr>
      = (Err mapping_overflow, p')
    \<and> hist p' = evs \<and> acquired evs = {#Mapping m 4096#} \<and> disposed evs = {#}"
  using consumer_new_overflow_leaks [of 4096 "2 ^ 63" hostile_world "\<lparr>hist = [], page_cache = None, warned = False\<rparr>" 3]
  by (simp add: hostile_world_def MAP_FAILED_def)

end
