(* ===== verification/Poll_Trace.thy ===== *)
theory Poll_Trace
  imports Ring_Poll
begin

text \<open>
  What a poll adds to the history of the process, for any property of single events, and how it is
  composed: calls that set the ring up, the accesses of the consumption loop, calls that
  take everything down again. From this follows that the shared pages are only touched while
  they are mapped.
\<close>

section \<open>Events added by an operation\<close>

definition adds :: "(event \<Rightarrow> bool) \<Rightarrow> proc \<Rightarrow> proc \<Rightarrow> bool" where
  "adds P p q \<longleftrightarrow> (\<exists>evs. hist q = hist p @ evs \<and> (\<forall>e \<in> set evs. P e))"

lemma adds_refl [simp]: "adds P p p"
  by (simp add: adds_def)

lemma adds_trans [trans]: "adds P p q \<Longrightarrow> adds P q r \<Longrightarrow> adds P p r"
  unfolding adds_def by (elim exE conjE) (rule exI, rule conjI, simp, auto)

lemma adds_log [simp]: "adds P p q \<Longrightarrow> P e \<Longrightarrow> adds P p (log_event e q)"
  unfolding adds_def by (elim exE conjE) (rule exI, rule conjI, simp, auto)

lemma adds_cache [simp]: "adds P p (q\<lparr>page_cache := c\<rparr>) = adds P p q"
  by (simp add: adds_def)

lemma adds_call: "call w c p = (r, q) \<Longrightarrow> (\<And>r. P (Sys c r)) \<Longrightarrow> adds P p q"
  by (auto simp: call_def Let_def)

lemma event_call_iff: "c \<in> set (event_call e) \<longleftrightarrow> (\<exists>r. e = Sys c r)"
  by (cases e) auto

lemma call_of_event: "c \<in> set (calls_of evs) \<Longrightarrow> \<exists>r. Sys c r \<in> set evs"
  by (auto simp: calls_of_def event_call_iff)

lemma adds_calls: "adds P p q \<Longrightarrow> (\<And>c r. P (Sys c r) \<Longrightarrow> Q c) \<Longrightarrow>
    \<exists>evs. hist q = hist p @ evs \<and> (\<forall>c \<in> set (calls_of evs). Q c)"
  unfolding adds_def by (blast dest: call_of_event)

section \<open>The events of a poll\<close>

text \<open>Events whose form the property cares about only by their kind.\<close>

fun plain :: "event \<Rightarrow> bool" where
  "plain (Sys (Syscall n c a s) r) = False"
| "plain (Sys (Mmap n wr fd at') r) = False"
| "plain (Sys (Setsockopt s l n fd k) r) = False"
| "plain e = True"

lemma access_plain: "shared_access e \<Longrightarrow> plain e"
  by (cases e) simp_all

text \<open>
  A relation kept by the calls a poll makes, the lines it prints and the filling of the page-size cache is
  kept by all that happens outside the consumption loop.
\<close>

locale poll_calls = trace_rel +
  assumes plain_ok: "plain e \<Longrightarrow> \<not> shared_access e \<Longrightarrow> P e"
    and info_ok: "P (Sys (Bpf_obj_get_info \<lparr>oi_bpf_fd = fd, oi_info_len = 88\<rparr> 16) r)"
    and consumer_page_ok: "P (Sys (Mmap n True fd 0) r)"
    and data_pages_ok: "P (Sys (Mmap n False fd at') r)"
    and cache_fills: "0 < sint v \<Longrightarrow> R p (p\<lparr>page_cache := Some v\<rparr>)"
begin

lemmas R_intros = R_refl R_event R_log

lemma R_munmap: "R p (munmap_or_warn w a n m p)"
  by (simp add: munmap_or_warn_def call_def Let_def eprintln_def plain_ok R_intros)

lemma R_close: "R p (close_or_warn w fd m p)"
  by (simp add: close_or_warn_def call_def Let_def eprintln_def plain_ok R_intros)

lemma R_drop: "R p (ringbuf_consumer_drop w c p)"
  unfolding ringbuf_consumer_drop_def by (rule R_trans [OF R_munmap R_munmap])

lemma R_finish: "R p q \<Longrightarrow> R p (ringbuf_consumer_drop w c (epoll_drop w ep q))"
  unfolding epoll_drop_def by (rule R_trans [OF R_trans [OF _ R_close] R_drop])

lemma R_map_info: "map_info w fd p = (r, q) \<Longrightarrow> R p q"
  by (auto simp: map_info_def call_def Let_def struct_sizes info_ok R_intros split: if_splits)

lemma R_page_size: "page_size_of w p = (r, q) \<Longrightarrow> R p q"
  by (auto simp: page_size_of_def call_def Let_def plain_ok R_intros split: option.splits if_splits
      intro: R_trans [OF R_event cache_fills])

lemma R_consumer_new: "ringbuf_consumer_new w fd rs ps p = (r, q) \<Longrightarrow> R p q"
  by (auto simp: ringbuf_consumer_new_def call_def Let_def consumer_page_ok data_pages_ok R_intros
      split: if_splits option.splits intro: R_trans [OF _ R_munmap])

lemma R_epoll_new: "epoll_new w p = (r, q) \<Longrightarrow> R p q"
  by (auto simp: epoll_new_def call_def Let_def plain_ok R_intros split: if_splits)

lemma R_epoll_add: "epoll_add w ep fd p = (r, q) \<Longrightarrow> R p q"
  by (auto simp: epoll_add_def call_def Let_def plain_ok R_intros split: if_splits)

lemma R_wait: "epoll_wait w ep p = Some (r, q) \<Longrightarrow> R p q"
  by (rule R_epoll_wait) (simp_all add: plain_ok)

lemmas R_set_up = R_map_info R_page_size R_consumer_new R_epoll_new R_epoll_add R_wait

end

text \<open>If it is kept by the accesses of the loop as well, it is kept by a poll.\<close>

locale poll_events = poll_calls +
  assumes access_ok: "shared_access e \<Longrightarrow> P e"
begin

lemma R_loop: "consume_ring_records w c p = Some q \<Longrightarrow> R p q"
  by (rule R_consume) (simp_all add: access_ok plain_ok)

lemma R_poll:
  assumes "poll_ringbuf w fd p = Some (r, q)"
  shows "R p q"
  using assms unfolding poll_ringbuf_def Let_def
  by (auto split: prod.splits sum.splits if_splits option.splits dest!: R_set_up R_loop)
    ((rule R_finish | rule R_trans [OF _ R_drop])?, (erule R_trans [rotated])+, rule R_refl)+

end

section \<open>The phases of a poll\<close>

abbreviation quiet :: "event \<Rightarrow> bool" where
  "quiet e \<equiv> \<not> shared_access e"

lemma adds_trace_rel: "trace_rel (adds P) P"
  by unfold_locales (auto intro: adds_trans)

interpretation outside: poll_calls "adds quiet" quiet
  by (intro poll_calls.intro adds_trace_rel) (unfold_locales, simp_all)

lemma cache_ok_events:
  "cache_ok (log_event e p) = cache_ok p" "0 < sint v \<Longrightarrow> cache_ok (p\<lparr>page_cache := Some v\<rparr>)"
  using positive_long [of v] by (simp_all add: cache_ok_def)

interpretation cache: poll_events "\<lambda>p q. cache_ok p \<longrightarrow> cache_ok q" "\<lambda>_. True"
  by unfold_locales (simp_all add: cache_ok_events)

text \<open>
  A poll that returns an error has not touched the ring. One that succeeds has mapped it, waited,
  run the consumption loop, and handed everything back.
\<close>

lemma poll_failed:
  assumes "poll_ringbuf w fd p = Some (Err e, p')"
  shows "adds quiet p p'"
  using assms unfolding poll_ringbuf_def Let_def
  by (auto split: prod.splits sum.splits if_splits option.splits
      dest!: outside.R_set_up)
    ((rule outside.R_finish | rule adds_trans [OF _ outside.R_drop])?, (erule adds_trans [rotated])+, rule adds_refl)+

lemma poll_consumed:
  assumes "poll_ringbuf w fd p = Some (Ok u, p')"
  obtains info ps p1 p2 c p3 ep p4 p5 v q q' where "map_info w fd p = (Ok info, p1)"
    "map_type info = BPF_MAP_TYPE_RINGBUF" "page_size_of w p1 = (Ok ps, p2)"
    "ringbuf_consumer_new w fd (ucast (max_entries info)) ps p2 = (Ok c, p3)"
    "epoll_new w p3 = (Ok ep, p4)" "epoll_add w ep fd p4 = (Ok v, p5)" "epoll_wait w ep p5 = Some (Ok v, q)"
    "consume_ring_records w c q = Some q'" "p' = ringbuf_consumer_drop w c (epoll_drop w ep q')"
  using assms unfolding poll_ringbuf_def Let_def
  by (auto split: prod.splits sum.splits if_splits option.splits)

section \<open>Accesses and mappings\<close>

text \<open>When the loop starts, the descriptor and both mappings are held, and nothing has been handed back.\<close>

lemma new_consumer_effect:
  assumes "ringbuf_consumer_new w fd rs ps p = (Ok c, p')"
  shows "effect p p' {#Mapping (consumer_mapping c) (page_size c), Mapping (producer_mapping c) (mapping_len c)#} {#}"
  by (rule consumer_new_effect [of w fd rs ps p]) (use assms in auto)

lemma setup_effect:
  assumes "cache_ok p" "map_info w fd p = (Ok info, p1)" "page_size_of w p1 = (Ok ps, p2)"
    "ringbuf_consumer_new w fd rs ps p2 = (Ok c, p3)"
    "epoll_new w p3 = (Ok ep, p4)" "epoll_add w ep fd p4 = (Ok v, p5)" "epoll_wait w ep p5 = Some (Ok v, q)"
  shows "effect p q {#Epfd ep, Mapping (consumer_mapping c) (page_size c), Mapping (producer_mapping c) (mapping_len c)#} {#}"
proof -
  have "cache_ok p1"
    using assms(1) map_info_effect(2) [OF assms(2)] by (simp add: cache_ok_def)
  note e = effect_trans [OF effect_trans [OF map_info_effect(1) [OF assms(2)] page_size_effect(1) [OF assms(3) this]]
      new_consumer_effect [OF assms(4)]]
  from effect_trans [OF effect_trans [OF effect_trans [OF e epoll_new_effect [OF assms(5)]]
      epoll_add_effect [OF assms(6)]] effect_epoll_wait [OF assms(7)]]
  show ?thesis by (simp add: add_mset_commute)
qed

lemma setup_quiet:
  assumes "map_info w fd p = (Ok info, p1)" "page_size_of w p1 = (Ok ps, p2)"
    "ringbuf_consumer_new w fd rs ps p2 = (Ok c, p3)"
    "epoll_new w p3 = (Ok ep, p4)" "epoll_add w ep fd p4 = (Ok v, p5)" "epoll_wait w ep p5 = Some (Ok v, q)"
  shows "adds quiet p q"
  using outside.R_map_info [OF assms(1)] outside.R_page_size [OF assms(2)] outside.R_consumer_new [OF assms(3)]
    outside.R_epoll_new [OF assms(4)] outside.R_epoll_add [OF assms(5)] outside.R_wait [OF assms(6)]
  by (blast intro: adds_trans)

lemma acquired_append [simp]: "acquired (xs @ ys) = acquired xs + acquired ys" "disposed (xs @ ys) = disposed xs + disposed ys"
  by (simp_all add: acquired_def disposed_def)

text \<open>The history of a successful poll: setting up, consuming, cleaning up; only the middle touches the ring.\<close>

lemma setup_phase:
  assumes "map_info w fd p = (Ok info, p1)" "page_size_of w p1 = (Ok ps, p2)"
    "ringbuf_consumer_new w fd rs ps p2 = (Ok c, p3)"
    "epoll_new w p3 = (Ok ep, p4)" "epoll_add w ep fd p4 = (Ok v, p5)" "epoll_wait w ep p5 = Some (Ok v, q)"
  obtains pre where "hist q = hist p @ pre" "\<forall>e \<in> set pre. quiet e"
    "cache_ok p \<longrightarrow> disposed pre = {#} \<and> leaks_reported pre \<and>
       acquired pre = {#Epfd ep, Mapping (consumer_mapping c) (page_size c), Mapping (producer_mapping c) (mapping_len c)#}"
proof -
  obtain pre where pre: "hist q = hist p @ pre" "\<forall>e \<in> set pre. quiet e"
    using setup_quiet [OF assms] by (auto simp: adds_def)
  with setup_effect [OF _ assms] show thesis
    by (intro that) (auto simp: effect_def)
qed

lemma cleanup_phase:
  obtains post where "hist (ringbuf_consumer_drop w c (epoll_drop w ep q)) = hist q @ post" "\<forall>e \<in> set post. quiet e"
  using outside.R_finish [OF adds_refl, of q w c ep] by (auto simp: adds_def)

lemma poll_split:
  assumes "poll_ringbuf w fd p = Some (Ok u, p')"
  obtains info ps p1 p2 c p3 ep q q' pre post where
    "map_info w fd p = (Ok info, p1)" "page_size_of w p1 = (Ok ps, p2)"
    "ringbuf_consumer_new w fd (ucast (max_entries info)) ps p2 = (Ok c, p3)"
    "hist q = hist p @ pre" "\<forall>e \<in> set pre. quiet e"
    "cache_ok p \<longrightarrow> disposed pre = {#} \<and> leaks_reported pre \<and>
       acquired pre = {#Epfd ep, Mapping (consumer_mapping c) (page_size c), Mapping (producer_mapping c) (mapping_len c)#}"
    "consume_ring_records w c q = Some q'" "hist p' = hist q' @ post" "\<forall>e \<in> set post. quiet e"
proof -
  from assms obtain info ps p1 p2 c p3 ep p4 p5 v q q' where made:
    "map_info w fd p = (Ok info, p1)" "page_size_of w p1 = (Ok ps, p2)"
    "ringbuf_consumer_new w fd (ucast (max_entries info)) ps p2 = (Ok c, p3)"
    "epoll_new w p3 = (Ok ep, p4)" "epoll_add w ep fd p4 = (Ok v, p5)" "epoll_wait w ep p5 = Some (Ok v, q)"
    and consume: "consume_ring_records w c q = Some q'"
    and p': "p' = ringbuf_consumer_drop w c (epoll_drop w ep q')"
    by (rule poll_consumed)
  obtain pre where pre: "hist q = hist p @ pre" "\<forall>e \<in> set pre. quiet e"
    "cache_ok p \<longrightarrow> disposed pre = {#} \<and> leaks_reported pre \<and>
       acquired pre = {#Epfd ep, Mapping (consumer_mapping c) (page_size c), Mapping (producer_mapping c) (mapping_len c)#}"
    by (rule setup_phase [OF made])
  obtain post where "hist p' = hist q' @ post" "\<forall>e \<in> set post. quiet e"
    unfolding p' by (rule cleanup_phase)
  from that [OF made(1-3) pre consume this] show thesis .
qed

text \<open>An element of the middle of a list, when its ends have none of the kind.\<close>

lemma split_middle:
  assumes "xs @ ys @ zs = us @ e # vs" "P e" "\<forall>x \<in> set xs. \<not> P x" "\<forall>z \<in> set zs. \<not> P z"
  obtains m1 m2 where "us = xs @ m1" "ys = m1 @ e # m2"
proof -
  obtain m1 where us: "us = xs @ m1"
    using assms(1-3) by (auto simp: append_eq_append_conv2 append_eq_Cons_conv Cons_eq_append_conv)
  then have "ys @ zs = m1 @ e # vs"
    using assms(1) by simp
  then obtain m2 where "ys = m1 @ e # m2"
    using assms(2,4) by (auto simp: append_eq_append_conv2 append_eq_Cons_conv Cons_eq_append_conv)
  with us show thesis by (rule that)
qed

lemma unat_ucast_u32: "unat (ucast (x :: u32) :: usize) = unat x"
  using unat_bound [of x] by (simp add: unsigned_ucast_eq take_bit_nat_eq_self)

definition page_size_ok :: "world \<Rightarrow> proc \<Rightarrow> bool" where
  "page_size_ok w p \<longleftrightarrow> (\<forall>v. page_cache p = Some v \<longrightarrow> 8 \<le> unat v)
     \<and> (\<forall>h. 0 < sint (ret (kcall w h Sysconf_pagesize)) \<longrightarrow> 8 \<le> unat (ret (kcall w h Sysconf_pagesize)))"

text \<open>A loop that returned has only made safe accesses, and neither mapped nor unmapped anything.\<close>

lemma consumed_accesses:
  assumes consume: "consume_ring_records w c q = Some q'" and safe: "well_mapped c"
    and start: "\<forall>h. 8 dvd unat (view_consumer (kshared w h))"
  shows "\<exists>mid. hist q' = hist q @ mid \<and> list_all (access_ok c) mid \<and> acquired mid = {#} \<and> disposed mid = {#}"
proof -
  obtain st where "ring_reaches w c q st" "q' = process st"
    using consume while_option_reaches by (fastforce simp: consume_ring_records_def)
  with ring_reaches_safe [OF _ safe] start obtain mid where mid: "hist q' = hist q @ mid" "list_all (access_ok c) mid"
    by blast
  with effect_consume [OF consume] show ?thesis
    by (auto simp: effect_def)
qed

lemma page_size_ok_result:
  assumes "page_size_ok w p" "map_info w fd p = (Ok info, p1)" "page_size_of w p1 = (Ok ps, p2)"
  shows "8 \<le> unat ps"
  using assms map_info_effect(2) [OF assms(2)]
  by (auto simp: page_size_ok_def page_size_of_def call_def Let_def split: option.splits if_splits)

text \<open>
  C9: the shared pages are touched only while they are mapped. In the history of any poll that returns,
  whatever the kernel answers and whatever the pages show, each load of a position or a header, each
  store and each slice handed to the callback happens while both mappings of one consumer are held,
  acquired earlier in that poll and not yet handed to \<open>munmap\<close>, and lies inside them; headers are aligned.
  The hypotheses on the kernel are that a ring has at least eight bytes, a page at least
  eight, and a consumer position that is a multiple of eight.
\<close>

theorem poll_accesses_live_memory:
  assumes poll: "poll_ringbuf w fd p = Some (r, p')" and "cache_ok p" "page_size_ok w p"
    and ring: "\<forall>h a n. 8 \<le> max_entries (out_info (kcall w h (Bpf_obj_get_info a n)))"
    and start: "\<forall>h. 8 dvd unat (view_consumer (kshared w h))"
  shows "\<exists>evs. hist p' = hist p @ evs \<and> (\<forall>evs1 e evs2. evs = evs1 @ e # evs2 \<and> shared_access e \<longrightarrow>
    (\<exists>c. {#Mapping (consumer_mapping c) (page_size c), Mapping (producer_mapping c) (mapping_len c)#}
           \<subseteq># acquired evs1 - disposed evs1
       \<and> 8 \<le> unat (page_size c) \<and> data_ptr c = producer_mapping c + page_size c \<and> access_ok c e))"
proof (cases r)
  case (Inl e)
  then show ?thesis
    using poll_failed [OF poll [unfolded Inl]] by (auto simp: adds_def)
next
  case (Inr u)
  from poll [unfolded Inr] obtain info ps p1 p2 c p3 ep q q' pre post where
    made: "map_info w fd p = (Ok info, p1)" "page_size_of w p1 = (Ok ps, p2)"
      "ringbuf_consumer_new w fd (ucast (max_entries info)) ps p2 = (Ok c, p3)"
    and pre: "hist q = hist p @ pre" "\<forall>e \<in> set pre. quiet e" "cache_ok p \<longrightarrow> disposed pre = {#} \<and> leaks_reported pre \<and>
       acquired pre = {#Epfd ep, Mapping (consumer_mapping c) (page_size c), Mapping (producer_mapping c) (mapping_len c)#}"
    and consume: "consume_ring_records w c q = Some q'" and post: "hist p' = hist q' @ post" "\<forall>e \<in> set post. quiet e"
    by (rule poll_split)
  have "8 \<le> unat (ucast (max_entries info) :: usize)"
    unfolding unat_ucast_u32 using made(1) ring by (auto simp: map_info_def call_def Let_def word_le_nat_alt split: if_splits)
  note maps = consumer_new_maps [OF made(3) this]
  from consumed_accesses [OF consume maps(1) start] obtain mid where
    mid: "hist q' = hist q @ mid" "list_all (access_ok c) mid" "acquired mid = {#}" "disposed mid = {#}"
    by blast
  show ?thesis
  proof (intro exI [of _ "pre @ mid @ post"] conjI allI impI)
    show "hist p' = hist p @ pre @ mid @ post"
      using pre(1) mid(1) post(1) by simp
  next
    fix evs1 e evs2
    assume e: "pre @ mid @ post = evs1 @ e # evs2 \<and> shared_access e"
    then obtain m1 m2 where "evs1 = pre @ m1" "mid = m1 @ e # m2"
      using split_middle [of pre mid post evs1 e evs2 shared_access] pre(2) post(2) by auto
    moreover from this mid(3,4) have "acquired m1 = {#}" "disposed m1 = {#}"
      by simp_all
    ultimately show "\<exists>c. {#Mapping (consumer_mapping c) (page_size c), Mapping (producer_mapping c) (mapping_len c)#}
           \<subseteq># acquired evs1 - disposed evs1
       \<and> 8 \<le> unat (page_size c) \<and> data_ptr c = producer_mapping c + page_size c \<and> access_ok c e"
      using pre(3) assms(2) mid(2) maps page_size_ok_result [OF assms(3) made(1,2)]
      by (intro exI [of _ c]) simp
  qed
qed

theorem poll_accesses_live_memory_witness:
  "\<exists>r p'. poll_ringbuf hostile_world 3 \<lparr>hist = [], page_cache = None, warned = False\<rparr> = Some (r, p')
     \<and> (\<forall>evs1 e evs2. hist p' = evs1 @ e # evs2 \<and> shared_access e \<longrightarrow>
          (\<exists>c. {#Mapping (consumer_mapping c) (page_size c), Mapping (producer_mapping c) (mapping_len c)#}
                 \<subseteq># acquired evs1 - disposed evs1 \<and> access_ok c e))"
proof -
  let ?p = "\<lparr>hist = [], page_cache = None, warned = False\<rparr>"
  obtain r p' where poll: "poll_ringbuf hostile_world 3 ?p = Some (r, p')"
    using hostile_poll_returns by blast
  from poll_accesses_live_memory [OF poll] poll show ?thesis
    by (fastforce simp: cache_ok_def page_size_ok_def hostile_world_def)
qed

end
