(* ===== verification/Loader_Abi.thy ===== *)
theory Loader_Abi
  imports Prog Poll_Trace
begin

text \<open>
  The binary interface of the \<open>bpf\<close> system call (\<open>src/loader/mod.rs\<close>, and the three call sites in
  \<open>prog.rs\<close> and \<open>ringbuf.rs\<close>). The raw call takes a number, a command, an attribute structure
  and a size that nothing in Rust's types ties together; here it is shown that every call the
  loader makes has them matching, with lengths and buffers agreeing inside the structures, and
  that ring pages are mapped with the protections the kernel demands. Polls are covered by an instance
  of the locale \<open>poll_events\<close>.
\<close>

section \<open>Well-formed calls\<close>

text \<open>
  Number and command as the kernel knows them, the size that of the structure for the command, and
  inside it: counts equal to the lengths of the buffers they describe, a C string as license,
  names of 16 bytes. Only the consumer position's page, at offset 0, is mapped writable.
\<close>

fun call_ok :: "syscall \<Rightarrow> bool" where
  "call_ok (Syscall nr cmd attr n) \<longleftrightarrow> nr = 321 \<and>
     (case attr of
        Prog_load_attr a \<Rightarrow> cmd = 5 \<and> n = 112 \<and> prog_type a = 1
          \<and> unat (insn_cnt a) = length (insns a) \<and> insns a \<noteq> [] \<and> length (insns a) \<le> 4096
          \<and> unat (log_size a) = length (log_buf a) \<and> log_level a \<noteq> 0
          \<and> license a \<noteq> [] \<and> last (license a) = 0 \<and> length (prog_name a) = 16
      | Map_create_attr a \<Rightarrow> cmd = 0 \<and> n = 72 \<and> mc_map_type a = 27 \<and> length (mc_map_name a) = 16
          \<and> (\<exists>k < 32. mc_max_entries a = 2 ^ k)
      | Obj_info_attr a \<Rightarrow> cmd = 15 \<and> n = 16 \<and> oi_info_len a = 88)"
| "call_ok (Mmap n writable fd at') \<longleftrightarrow> (writable \<longrightarrow> at' = 0)"
| "call_ok (Setsockopt s l n fd k) \<longleftrightarrow> l = 1 \<and> n = 50 \<and> k = 4"
| "call_ok c \<longleftrightarrow> True"

fun event_ok :: "event \<Rightarrow> bool" where
  "event_ok (Sys c r) = call_ok c"
| "event_ok e = True"

lemmas bpf_numbers = SYS_BPF_def BPF_PROG_LOAD_def BPF_MAP_CREATE_def BPF_OBJ_GET_INFO_BY_FD_def

lemma plain_event_ok: "plain e \<Longrightarrow> event_ok e"
  by (cases e rule: plain.cases) simp_all

interpretation abi: poll_events "adds event_ok" event_ok
  by (intro poll_events.intro poll_calls.intro adds_trace_rel) (unfold_locales, simp_all add: plain_event_ok access_plain bpf_numbers)

lemma load_event_ok: "prog \<noteq> [] \<Longrightarrow> length prog \<le> 4096 \<Longrightarrow> event_ok (Sys (Bpf_prog_load (prog_load_attr prog) 112) r)"
  using insn_count_exact [of prog] by (simp add: bpf_numbers) (simp add: prog_load_attr_def default_prog_load_def)

lemma load_filter_abi: "fits_slice prog \<Longrightarrow> adds event_ok p (snd (load_filter w prog p))"
  by (simp add: load_filter_cases Let_def load_event_ok del: event_ok.simps)

lemma attach_to_socket_abi: "adds event_ok p (snd (attach_to_socket w fd s p))"
  by (simp add: attach_to_socket_def call_def Let_def SOL_SOCKET_def SO_ATTACH_BPF_def)

lemma create_ringbuf_abi: "adds event_ok p (snd (create_ringbuf w n p))"
  by (auto simp: create_ringbuf_def call_def Let_def power_of_two_iff struct_sizes bpf_numbers
      default_map_create_def BPF_MAP_TYPE_RINGBUF_def)

text \<open>
  C19: every system call of the loader's four operations is well formed: loading, attaching,
  creating and polling make \<open>bpf\<close> calls only with the number 321, a command, a structure and a
  size that belong together, with counts that match the buffers they describe (so that the kernel
  reads and writes inside them), a ring size that is a power of two, the documented socket
  option, and no writable mapping but that of the consumer's page.
\<close>

theorem loader_calls_well_formed:
  assumes "op = snd (load_filter w prog p) \<and> fits_slice prog \<or> op = snd (attach_to_socket w fd socket_fd p)
    \<or> op = snd (create_ringbuf w size_bytes p) \<or> (\<exists>r. poll_ringbuf w fd p = Some (r, op))"
  shows "\<exists>evs. hist op = hist p @ evs \<and> (\<forall>c \<in> set (calls_of evs). call_ok c)"
proof -
  have "adds event_ok p op"
    using assms load_filter_abi attach_to_socket_abi create_ringbuf_abi abi.R_poll by blast
  then show ?thesis
    by (rule adds_calls) simp
qed

theorem loader_calls_well_formed_witness:
  "\<exists>r p'. poll_ringbuf hostile_world 3 \<lparr>hist = [], page_cache = None, warned = False\<rparr> = Some (r, p')
     \<and> (\<forall>c \<in> set (calls_of (hist p')). call_ok c)"
proof -
  let ?p = "\<lparr>hist = [], page_cache = None, warned = False\<rparr>"
  obtain r p' where poll: "poll_ringbuf hostile_world 3 ?p = Some (r, p')"
    using hostile_poll_returns by blast
  then show ?thesis
    using loader_calls_well_formed [of p' hostile_world "[]" ?p 3 0 0] by auto
qed

end
