(* ===== verification/Ring_Session.thy ===== *)
theory Ring_Session
  imports Poll_Trace
begin

text \<open>
  A client that polls a ring again and again. Each \<open>poll_ringbuf\<close> maps the ring anew and starts from the
  position that an earlier poll left in the shared page; between polls and during them the kernel
  reserves and commits records, in space that earlier polls have freed. The kernel's side is the locale
  \<open>ring_session\<close>, over the moments of one session; from any point of it a part of the session keeps the contract
  \<open>ring_kernel\<close> of a single consumption. The properties: over all polls together, failed ones included, the callback
  receives the log in order, each record once; and a poll on a kernel that serves its calls
  succeeds and leaves behind nothing that was committed when it started.
\<close>

unbundle bit_operations_syntax

section \<open>The kernel's side of a session\<close>

text \<open>
  \<open>run\<close> holds the events of the session after the history \<open>h0\<close>. As in \<open>ring_kernel\<close>, what the kernel promises, it
  promises for the moments of this run, and for a record until it has been freed.
\<close>

locale ring_session =
  fixes w :: world and fd :: raw_fd and h0 :: "event list" and run :: "event list" and k :: nat and base :: nat
    and recs :: "nat \<Rightarrow> ring_record" and reserved :: "event list \<Rightarrow> nat" and committed :: "event list \<Rightarrow> nat \<Rightarrow> bool"
  assumes ring_shift: "3 \<le> k" "k \<le> 31"
    and ring_info: "max_entries (out_info (kcall w h (Bpf_obj_get_info \<lparr>oi_bpf_fd = fd, oi_info_len = 88\<rparr> 16))) = 2 ^ k"
    and record_fits: "length (payload (recs i)) + 8 \<le> 2 ^ k" "length (payload (recs i)) < 2 ^ 30"
    and consumer_page: "prefix evs run \<Longrightarrow> view_consumer (kshared w (h0 @ evs)) = of_nat (published base evs)"
    and producer_page: "prefix evs run \<Longrightarrow> view_producer (kshared w (h0 @ evs)) = of_nat (rec_pos base recs (reserved evs))"
    and positions: "prefix evs run \<Longrightarrow> rec_pos base recs (reserved evs) < 2 ^ 64 - 2 ^ 31"
    and reserve_grows: "prefix (evs @ evs') run \<Longrightarrow> reserved evs \<le> reserved (evs @ evs')"
    and commit_stays: "prefix (evs @ evs') run \<Longrightarrow> committed evs i \<Longrightarrow> committed (evs @ evs') i"
    and record_header: "prefix evs run \<Longrightarrow> freed base evs \<le> rec_pos base recs i \<Longrightarrow> i < reserved evs \<Longrightarrow>
      header_len (view_cell (kshared w (h0 @ evs))) (of_nat (rec_pos base recs i) AND mask k)
        = rec_header (recs i) (committed evs i)"
    and record_contents: "prefix evs run \<Longrightarrow> freed base evs \<le> rec_pos base recs i \<Longrightarrow> i < reserved evs \<Longrightarrow> committed evs i \<Longrightarrow>
      j < length (payload (recs i)) \<Longrightarrow>
      view_cell (kshared w (h0 @ evs)) (rec_pos base recs i mod 2 ^ k + 8 + j) = payload (recs i) ! j"

text \<open>After \<open>evs\<close> the next poll starts at record \<open>n\<close>: its position is published, and nothing behind it has been freed.\<close>

definition stands_at :: "nat \<Rightarrow> (nat \<Rightarrow> ring_record) \<Rightarrow> (event list \<Rightarrow> nat) \<Rightarrow> event list \<Rightarrow> nat \<Rightarrow> bool" where
  "stands_at base recs reserved evs n \<longleftrightarrow>
     published base evs = rec_pos base recs n \<and> freed base evs = rec_pos base recs n \<and> n \<le> reserved evs"

text \<open>What \<open>n\<close> passed records mean for the events of the session so far.\<close>

definition passed :: "nat \<Rightarrow> (nat \<Rightarrow> ring_record) \<Rightarrow> (event list \<Rightarrow> nat) \<Rightarrow> (event list \<Rightarrow> nat \<Rightarrow> bool) \<Rightarrow>
    event list \<Rightarrow> nat \<Rightarrow> bool" where
  "passed base recs reserved committed evs n \<longleftrightarrow>
     stands_at base recs reserved evs n \<and> delivered evs = kept_payloads (map recs [0..<n]) \<and> (\<forall>i < n. committed evs i)"

text \<open>The events \<open>evs\<close> deliver the next \<open>n\<close> records after the first \<open>n0\<close>.\<close>

definition advances :: "nat \<Rightarrow> (nat \<Rightarrow> ring_record) \<Rightarrow> (event list \<Rightarrow> nat) \<Rightarrow> (event list \<Rightarrow> nat \<Rightarrow> bool) \<Rightarrow>
    event list \<Rightarrow> nat \<Rightarrow> event list \<Rightarrow> nat \<Rightarrow> bool" where
  "advances base recs reserved committed evs0 n0 evs n \<longleftrightarrow>
     delivered evs = kept_payloads (map (\<lambda>i. recs (n0 + i)) [0..<n])
     \<and> stands_at base recs reserved (evs0 @ evs) (n0 + n) \<and> (\<forall>i < n. committed (evs0 @ evs) (n0 + i))"

lemma kept_append:
  "kept_payloads (map recs [0..<n0]) @ kept_payloads (map (\<lambda>i. recs (n0 + i)) [0..<n]) = kept_payloads (map recs [0..<n0 + n])"
proof -
  have "map recs [n0..<n0 + n] = map (\<lambda>i. recs (n0 + i)) [0..<n]"
    by (rule nth_equalityI) simp_all
  then show ?thesis
    by (simp add: kept_payloads_def upt_add_eq_append [of 0])
qed

lemma committed_below: "\<forall>i < n0. C i \<Longrightarrow> \<forall>i < n. C (n0 + i) \<Longrightarrow> i < n0 + n \<Longrightarrow> C i" for n0 :: nat
  using le_add_diff_inverse [of n0 i] by (cases "i < n0") (auto simp: not_less dest: spec [of _ "i - n0"])

lemma rec_pos_shift: "rec_pos (rec_pos base recs n) (\<lambda>i. recs (n + i)) i = rec_pos base recs (n + i)"
  by (induction i) simp_all

lemma quiet_delivers: "\<forall>e \<in> set evs. quiet e \<Longrightarrow> delivered evs = [] \<and> published b evs = b \<and> freed b evs = b"
  by (induction evs) (auto elim: shared_access.elims)

interpretation grows: poll_events "adds (\<lambda>_. True)" "\<lambda>_. True"
  by (intro poll_events.intro poll_calls.intro adds_trace_rel) (unfold_locales, simp_all)

lemma poll_appends: "poll_ringbuf w fd p = Some (r, p') \<Longrightarrow> prefix (hist p) (hist p')"
  using grows.R_poll by (fastforce simp: adds_def)

context ring_session
begin

lemma session_begins: "prefix (xs @ ys) run \<Longrightarrow> prefix xs run"
  by (rule prefix_order.order_trans [of xs "xs @ ys"]) simp_all

lemma resumed:
  assumes at: "stands_at base recs reserved evs0 n0" and mask: "ring_mask c = mask k" and part: "prefix (evs0 @ part) run"
  shows "ring_kernel w c (h0 @ evs0) part k (rec_pos base recs n0) (\<lambda>i. recs (n0 + i))
    (\<lambda>evs. reserved (evs0 @ evs) - n0) (\<lambda>evs i. committed (evs0 @ evs) (n0 + i))"
proof
  show "view_consumer (kshared w (h0 @ evs0)) = of_nat (rec_pos base recs n0)"
    using at consumer_page [OF session_begins [OF part]] by (simp add: stands_at_def)
  fix evs evs' i j
  show "reserved (evs0 @ evs) - n0 \<le> reserved (evs0 @ evs @ evs') - n0" if "prefix (evs @ evs') part"
    using that part prefix_order.order_trans [of "evs0 @ evs @ evs'" "evs0 @ part"] reserve_grows [of "evs0 @ evs" evs'] by simp
  show "committed (evs0 @ evs @ evs') (n0 + i)" if "prefix (evs @ evs') part" "committed (evs0 @ evs) (n0 + i)"
    using that part prefix_order.order_trans [of "evs0 @ evs @ evs'" "evs0 @ part"] commit_stays [of "evs0 @ evs" evs'] by simp
  assume "prefix evs part"
  then have now: "prefix (evs0 @ evs) run"
    using part prefix_order.order_trans [of "evs0 @ evs" "evs0 @ part"] by simp
  have n0: "n0 \<le> reserved (evs0 @ evs)"
    using at reserve_grows [OF now] by (simp add: stands_at_def)
  show "view_producer (kshared w ((h0 @ evs0) @ evs))
      = of_nat (rec_pos (rec_pos base recs n0) (\<lambda>i. recs (n0 + i)) (reserved (evs0 @ evs) - n0))"
    using n0 producer_page [OF now] by (simp add: rec_pos_shift)
  show "rec_pos (rec_pos base recs n0) (\<lambda>i. recs (n0 + i)) (reserved (evs0 @ evs) - n0) < 2 ^ 64 - 2 ^ 31"
    using n0 positions [OF now] by (simp add: rec_pos_shift)
  assume i: "freed (rec_pos base recs n0) evs \<le> rec_pos (rec_pos base recs n0) (\<lambda>i. recs (n0 + i)) i"
    "i < reserved (evs0 @ evs) - n0"
  then show "header_len (view_cell (kshared w ((h0 @ evs0) @ evs)))
      (of_nat (rec_pos (rec_pos base recs n0) (\<lambda>i. recs (n0 + i)) i) AND ring_mask c)
      = rec_header (recs (n0 + i)) (committed (evs0 @ evs) (n0 + i))"
    using record_header [OF now, of "n0 + i"] at by (simp add: rec_pos_shift mask stands_at_def)
  assume "committed (evs0 @ evs) (n0 + i)" "j < length (payload (recs (n0 + i)))"
  with i show "view_cell (kshared w ((h0 @ evs0) @ evs))
      (rec_pos (rec_pos base recs n0) (\<lambda>i. recs (n0 + i)) i mod 2 ^ k + 8 + j) = payload (recs (n0 + i)) ! j"
    using record_contents [OF now, of "n0 + i" j] at by (simp add: rec_pos_shift stands_at_def)
qed (use ring_shift mask record_fits in simp_all)

lemma passed_append:
  assumes "prefix (evs0 @ evs) run"
    and "passed base recs reserved committed evs0 n0" "advances base recs reserved committed evs0 n0 evs n"
  shows "passed base recs reserved committed (evs0 @ evs) (n0 + n)"
proof -
  have "\<forall>i < n0. committed (evs0 @ evs) i" "\<forall>i < n. committed (evs0 @ evs) (n0 + i)"
    using assms commit_stays by (simp_all add: passed_def advances_def)
  then have "\<forall>i < n0 + n. committed (evs0 @ evs) i"
    using committed_below by blast
  then show ?thesis
    using assms kept_append [of recs n0 n] by (simp add: passed_def advances_def)
qed

lemma mapped_mask:
  assumes "map_info w fd p = (Ok info, p1)" "ringbuf_consumer_new w fd (ucast (max_entries info)) ps p2 = (Ok c, p3)"
  shows "ring_mask c = mask k"
proof -
  have "max_entries info = 2 ^ k"
    using assms(1) ring_info by (auto simp: map_info_def call_def Let_def struct_sizes split: if_splits)
  moreover have "(2 :: nat) ^ k < 2 ^ 32"
    using ring_shift(2) by (intro power_strict_increasing) simp_all
  then have "unat (of_nat (2 ^ k) :: u32) = 2 ^ k"
    unfolding unat_of_nat by (intro mod_less) simp
  ultimately have size: "unat (ucast (max_entries info) :: usize) = 2 ^ k"
    by (simp add: unat_ucast_u32)
  have "8 \<le> (2 :: nat) ^ k"
    by (rule eight_le_ring [OF ring_shift(1)])
  with consumer_new_maps(3) [OF assms(2)] have "unat (ring_mask c) = 2 ^ k - 1"
    by (simp only: size)
  moreover have "unat (mask k :: u64) = 2 ^ k - 1"
    using ring_shift(2) by (intro unat_mask_small) simp
  ultimately show ?thesis
    by (simp add: word_unat_eq_iff)
qed

text \<open>Setting up and cleaning up on both sides of a consumption change nothing.\<close>

lemma stands_quiet:
  assumes "prefix (evs0 @ evs) run" "\<forall>e \<in> set evs. quiet e" "stands_at base recs reserved evs0 n"
  shows "stands_at base recs reserved (evs0 @ evs) n"
  using assms quiet_delivers [OF assms(2)] reserve_grows [OF assms(1)] by (simp add: stands_at_def)

lemma advances_quiet:
  assumes later: "prefix (evs0 @ pre @ mid @ post) run"
    and "\<forall>e \<in> set pre. quiet e" "\<forall>e \<in> set post. quiet e" "advances base recs reserved committed (evs0 @ pre) n0 mid n"
  shows "advances base recs reserved committed evs0 n0 (pre @ mid @ post) n"
  using assms(4) quiet_delivers [OF assms(2)] quiet_delivers [OF assms(3)] commit_stays [of "evs0 @ pre @ mid" post] later
    stands_quiet [of "evs0 @ pre @ mid" post] assms(3) by (simp add: advances_def)

text \<open>A consumption that returned, as part of the session.\<close>

lemma loop_advances:
  assumes at: "stands_at base recs reserved evs0 n0" and mask: "ring_mask c = mask k" and part: "prefix (evs0 @ mid) run"
    and consume: "consume_ring_records w c q = Some q'" "hist q = h0 @ evs0" "hist q' = h0 @ evs0 @ mid"
  obtains n evs1 where "advances base recs reserved committed evs0 n0 mid n"
    "n0 + n = reserved (evs0 @ evs1) \<or> n0 + n < reserved (evs0 @ evs1) \<and> \<not> committed (evs0 @ evs1) (n0 + n)"
    "prefix evs1 mid"
proof -
  from ring_kernel.delivers_on_return [OF resumed [OF at mask part] consume(1)] consume(2,3)
  obtain n evs1 where got: "delivered mid = kept_payloads (map (\<lambda>i. recs (n0 + i)) [0..<n])"
      "published (rec_pos base recs n0) mid = rec_pos base recs (n0 + n)" "freed (rec_pos base recs n0) mid = rec_pos base recs (n0 + n)"
      "\<forall>i < n. committed (evs0 @ mid) (n0 + i)"
    and stop: "prefix evs1 mid" "n = reserved (evs0 @ evs1) - n0
      \<or> n < reserved (evs0 @ evs1) - n0 \<and> \<not> committed (evs0 @ evs1) (n0 + n)"
    by (auto simp: rec_pos_shift)
  obtain m where m: "mid = evs1 @ m"
    using stop(1) by (auto simp: prefix_def)
  have grow: "n0 \<le> reserved (evs0 @ evs1)" "reserved (evs0 @ evs1) \<le> reserved (evs0 @ mid)"
    using at m reserve_grows [of evs0 evs1] reserve_grows [of "evs0 @ evs1" m] part session_begins [of "evs0 @ evs1" m]
    by (simp_all add: stands_at_def)
  then have "stands_at base recs reserved (evs0 @ mid) (n0 + n)"
    using got stop(2) at by (auto simp: stands_at_def)
  with got have "advances base recs reserved committed evs0 n0 mid n"
    by (simp add: advances_def)
  then show thesis
    using stop grow by (intro that) auto
qed

text \<open>One poll: \<open>n\<close> more records, whether it succeeds or not; if it does, it stops for a reason.\<close>

lemma poll_advances:
  assumes h: "hist p = h0 @ evs0" and at: "stands_at base recs reserved evs0 n0"
    and poll: "poll_ringbuf w fd p = Some (r, p')" and runs: "prefix (hist p') (h0 @ run)"
  obtains evs n where "hist p' = h0 @ evs0 @ evs" "prefix (evs0 @ evs) run" "advances base recs reserved committed evs0 n0 evs n"
    "r = Ok () \<Longrightarrow> \<exists>evs1. prefix evs1 evs \<and> (n0 + n = reserved (evs0 @ evs1)
       \<or> n0 + n < reserved (evs0 @ evs1) \<and> \<not> committed (evs0 @ evs1) (n0 + n))"
proof (cases r)
  case (Inl e)
  obtain evs where evs: "hist p' = h0 @ evs0 @ evs" "\<forall>e \<in> set evs. quiet e"
    using poll_failed [OF poll [unfolded Inl]] h by (auto simp: adds_def)
  then have now: "prefix (evs0 @ evs) run"
    using runs by simp
  with evs(2) have "advances base recs reserved committed evs0 n0 evs 0"
    using quiet_delivers [of evs] stands_quiet [OF now evs(2) at] by (simp add: advances_def kept_payloads_def)
  with evs(1) now show thesis
    using Inl by (intro that) auto
next
  case (Inr u)
  from poll [unfolded Inr] obtain info ps p1 p2 c p3 q q' pre post where
    made: "map_info w fd p = (Ok info, p1)" "ringbuf_consumer_new w fd (ucast (max_entries info)) ps p2 = (Ok c, p3)"
    and pre: "hist q = h0 @ evs0 @ pre" "\<forall>e \<in> set pre. quiet e"
    and consume: "consume_ring_records w c q = Some q'" and post: "hist p' = hist q' @ post" "\<forall>e \<in> set post. quiet e"
    by (rule poll_split) (simp add: h)
  obtain mid where mid: "hist q' = h0 @ evs0 @ pre @ mid"
    using consume_appends [OF consume] pre(1) by auto
  have later: "prefix (evs0 @ pre @ mid @ post) run"
    using runs post(1) mid by simp
  then have parts: "prefix (evs0 @ pre) run" "prefix ((evs0 @ pre) @ mid) run"
    using session_begins [of "evs0 @ pre" "mid @ post"] session_begins [of "evs0 @ pre @ mid" post] by simp_all
  note now = stands_quiet [OF parts(1) pre(2) at]
  obtain n evs1 where n: "advances base recs reserved committed (evs0 @ pre) n0 mid n"
    "n0 + n = reserved ((evs0 @ pre) @ evs1) \<or> n0 + n < reserved ((evs0 @ pre) @ evs1) \<and> \<not> committed ((evs0 @ pre) @ evs1) (n0 + n)"
    "prefix evs1 mid"
    by (rule loop_advances [OF now mapped_mask [OF made] parts(2) consume]) (simp_all add: pre(1) mid)
  have "prefix (pre @ evs1) (pre @ mid @ post)"
    using n(3) by (auto simp: prefix_def)
  with n(2) have "\<exists>evs1. prefix evs1 (pre @ mid @ post) \<and> (n0 + n = reserved (evs0 @ evs1)
      \<or> n0 + n < reserved (evs0 @ evs1) \<and> \<not> committed (evs0 @ evs1) (n0 + n))"
    by (intro exI [of _ "pre @ evs1"]) simp
  with advances_quiet [OF later pre(2) post(2) n(1)] later show thesis
    using mid post(1) by (intro that) simp_all
qed

lemma poll_passes:
  assumes "hist p = h0 @ evs0" "passed base recs reserved committed evs0 n0" "poll_ringbuf w fd p = Some (r, p')"
    and "prefix (hist p') (h0 @ run)"
  obtains evs n where "hist p' = h0 @ evs0 @ evs" "prefix (evs0 @ evs) run" "n0 \<le> n" "passed base recs reserved committed (evs0 @ evs) n"
    "r = Ok () \<Longrightarrow> \<exists>evs1. prefix evs1 evs \<and> (n = reserved (evs0 @ evs1) \<or> n < reserved (evs0 @ evs1) \<and> \<not> committed (evs0 @ evs1) n)"
proof -
  have "stands_at base recs reserved evs0 n0"
    using assms(2) by (simp add: passed_def)
  from poll_advances [OF assms(1) this assms(3,4)] passed_append [OF _ assms(2)] that show thesis
    by (metis le_add1)
qed

text \<open>What was reserved and committed without a gap when a successful poll began has been passed when it ends.\<close>

lemma poll_catches_up:
  assumes "prefix (evs0 @ evs) run" "n = reserved (evs0 @ evs) \<or> \<not> committed (evs0 @ evs) n"
    and "N \<le> reserved evs0" "\<forall>i < N. committed evs0 i"
  shows "N \<le> n"
  using assms(2-4) reserve_grows [OF assms(1)] commit_stays [OF assms(1), of n] by (cases "n < N") auto

end

section \<open>A client\<close>

text \<open>Polling \<open>m\<close> times, with the results; \<open>None\<close> if a poll does not return.\<close>

primrec poll_times :: "world \<Rightarrow> raw_fd \<Rightarrow> nat \<Rightarrow> proc \<Rightarrow> ((io_error + unit) list \<times> proc) option" where
  "poll_times w fd 0 p = Some ([], p)"
| "poll_times w fd (Suc m) p =
     (case poll_times w fd m p of
        None \<Rightarrow> None
      | Some (rs, q) \<Rightarrow> (case poll_ringbuf w fd q of None \<Rightarrow> None | Some (r, q') \<Rightarrow> Some (rs @ [r], q')))"

context ring_session
begin

lemma passed_start: "passed base recs reserved committed [] 0"
  by (simp add: passed_def stands_at_def kept_payloads_def)

lemma polls_pass:
  assumes "poll_times w fd m p = Some (rs, p')" "hist p = h0" "prefix (hist p') (h0 @ run)"
  shows "\<exists>evs n. hist p' = h0 @ evs \<and> passed base recs reserved committed evs n"
  using assms(1,3)
proof (induction m arbitrary: rs p')
  case 0
  then show ?case
    using assms(2) passed_start by auto
next
  case (Suc m)
  then obtain rs0 q r where q: "poll_times w fd m p = Some (rs0, q)" and poll: "poll_ringbuf w fd q = Some (r, p')"
    by (auto split: option.splits)
  have "prefix (hist q) (h0 @ run)"
    using prefix_order.order_trans [OF poll_appends [OF poll] Suc.prems(2)] .
  with Suc.IH [OF q] obtain evs0 n0 where "hist q = h0 @ evs0" "passed base recs reserved committed evs0 n0"
    by blast
  from poll_passes [OF this poll Suc.prems(2)] show ?case by metis
qed

end

section \<open>A kernel that serves its calls\<close>

text \<open>
  No call of a poll of \<open>fd\<close> fails, waits are interrupted finitely often, and the producer stays
  below the last 2 GiB of the position space.
\<close>

definition serves :: "world \<Rightarrow> raw_fd \<Rightarrow> bool" where
  "serves w fd \<longleftrightarrow>
     (\<forall>h. \<not> failed (kcall w h (Bpf_obj_get_info \<lparr>oi_bpf_fd = fd, oi_info_len = 88\<rparr> 16))
        \<and> map_type (out_info (kcall w h (Bpf_obj_get_info \<lparr>oi_bpf_fd = fd, oi_info_len = 88\<rparr> 16))) = 27)
     \<and> (\<forall>h. 0 < sint (ret (kcall w h Sysconf_pagesize)))
     \<and> (\<forall>h n wr at'. ret (kcall w h (Mmap n wr fd at')) \<noteq> MAP_FAILED)
     \<and> (\<forall>h. \<not> failed (kcall w h Epoll_create1)) \<and> (\<forall>h ep. \<not> failed (kcall w h (Epoll_ctl_add ep fd (scast fd))))
     \<and> (\<forall>ep q. \<exists>n. (\<forall>i < n. failed (wait_answer w ep q i) \<and> errno (wait_answer w ep q i) = EINTR)
          \<and> \<not> failed (wait_answer w ep q n))
     \<and> (\<forall>h. unat (view_producer (kshared w h)) + 2 ^ 31 < 2 ^ 64)"

lemma served_info: "serves w fd \<Longrightarrow> \<exists>info p1. map_info w fd p = (Ok info, p1) \<and> map_type info = BPF_MAP_TYPE_RINGBUF"
  by (auto simp: serves_def map_info_def call_def Let_def struct_sizes BPF_MAP_TYPE_RINGBUF_def)

lemma served_page_size: "serves w fd \<Longrightarrow> \<exists>ps p1. page_size_of w p = (Ok ps, p1)"
  by (cases "page_cache p") (simp_all add: serves_def page_size_of_def call_def Let_def not_le [symmetric])

lemma served_consumer:
  assumes "serves w fd" "unat ps < 2 ^ 63" "unat rs < 2 ^ 32"
  shows "\<exists>c p1. ringbuf_consumer_new w fd rs ps p = (Ok c, p1)"
proof -
  have "checked_mul rs 2 = Some (rs * 2)" "checked_add ps (rs * 2) = Some (ps + rs * 2)"
    using assms(2,3) by (simp_all add: checked_mul_def checked_add_def unat_mult_small)
  then show ?thesis
    using assms(1) by (auto simp: serves_def ringbuf_consumer_new_def call_def Let_def)
qed

lemma served_epoll:
  assumes "serves w fd"
  shows "\<exists>ep p1. epoll_new w p = (Ok ep, p1)" "\<exists>p1. epoll_add w ep fd p = (Ok (), p1)"
    "\<exists>p1. epoll_wait w ep p = Some (Ok (), p1)"
proof -
  show "\<exists>ep p1. epoll_new w p = (Ok ep, p1)" "\<exists>p1. epoll_add w ep fd p = (Ok (), p1)"
    using assms by (auto simp: serves_def epoll_new_def epoll_add_def call_def Let_def)
  have "\<exists>n. (\<forall>i < n. failed (wait_answer w ep p i) \<and> errno (wait_answer w ep p i) = EINTR)
      \<and> \<not> failed (wait_answer w ep p n)"
    using assms by (simp add: serves_def)
  then obtain n where "\<forall>i < n. failed (wait_answer w ep p i) \<and> errno (wait_answer w ep p i) = EINTR"
    "\<not> failed (wait_answer w ep p n)"
    by blast
  then show "\<exists>p1. epoll_wait w ep p = Some (Ok (), p1)"
    using epoll_wait_result [of n w ep p] by auto
qed

lemma served_poll:
  assumes "serves w fd" "cache_ok p"
  shows "\<exists>p'. poll_ringbuf w fd p = Some (Ok (), p') \<and> cache_ok p'"
proof -
  obtain info p1 where info: "map_info w fd p = (Ok info, p1)" "map_type info = BPF_MAP_TYPE_RINGBUF"
    using served_info [OF assms(1)] by blast
  obtain ps p2 where page: "page_size_of w p1 = (Ok ps, p2)"
    using served_page_size [OF assms(1)] by blast
  have "cache_ok p1"
    using assms(2) map_info_effect(2) [OF info(1)] by (simp add: cache_ok_def)
  note small = page_size_effect(3) [OF page this]
  obtain c p3 where new: "ringbuf_consumer_new w fd (ucast (max_entries info)) ps p2 = (Ok c, p3)"
    using served_consumer [OF assms(1), of ps "ucast (max_entries info)" p2] small [OF refl]
      unat_bound [of "max_entries info"] by (auto simp: unat_ucast_u32)
  obtain ep p4 where ep: "epoll_new w p3 = (Ok ep, p4)"
    using served_epoll(1) [OF assms(1)] by blast
  obtain p5 where add: "epoll_add w ep fd p4 = (Ok (), p5)"
    using served_epoll(2) [OF assms(1)] by blast
  obtain q where wait: "epoll_wait w ep p5 = Some (Ok (), q)"
    using served_epoll(3) [OF assms(1)] by blast
  obtain q' where consume: "consume_ring_records w c q = Some q'"
    using consume_returns [of w c q] assms(1) by (auto simp: serves_def consume_ring_records_def)
  have "poll_ringbuf w fd p = Some (Ok (), ringbuf_consumer_drop w c (epoll_drop w ep q'))"
    by (simp add: poll_ringbuf_def info page new ep add wait consume)
  with cache.R_poll [OF this] assms(2) show ?thesis by blast
qed

lemma served_polls:
  assumes "serves w fd" "cache_ok p"
  shows "\<exists>p'. poll_times w fd m p = Some (replicate m (Ok ()), p') \<and> cache_ok p'"
proof (induction m)
  case (Suc m)
  then obtain q where q: "poll_times w fd m p = Some (replicate m (Ok ()), q)" "cache_ok q"
    by blast
  with served_poll [OF assms(1) q(2)] show ?case
    by (auto simp: replicate_append_same)
qed (use assms in simp)

lemma polls_append: "poll_times w fd m p = Some (rs, p') \<Longrightarrow> prefix (hist p) (hist p')"
proof (induction m arbitrary: rs p')
  case (Suc m)
  then show ?case
    using poll_appends prefix_order.order_trans by (fastforce split: option.splits)
qed simp

context ring_session
begin

lemma last_poll_catches_up:
  assumes "poll_times w fd m p = Some (rs, q)" "poll_ringbuf w fd q = Some (Ok (), q')" "hist p = h0"
    and "hist q = h0 @ evs" "hist q' = h0 @ run"
  shows "\<exists>n. passed base recs reserved committed run n \<and> (\<forall>N \<le> reserved evs. (\<forall>i < N. committed evs i) \<longrightarrow> N \<le> n)"
proof -
  have "prefix (hist q) (h0 @ run)"
    using poll_appends [OF assms(2)] assms(5) by simp
  then obtain n0 where start: "passed base recs reserved committed evs n0"
    using polls_pass [OF assms(1,3)] assms(4) by auto
  have "prefix (hist q') (h0 @ run)"
    by (simp add: assms(5))
  then obtain evs' n where h: "hist q' = h0 @ evs @ evs'" and n: "passed base recs reserved committed (evs @ evs') n"
    and stop: "\<exists>evs1. prefix evs1 evs' \<and> (n = reserved (evs @ evs1) \<or> n < reserved (evs @ evs1) \<and> \<not> committed (evs @ evs1) n)"
    using poll_passes [OF assms(4) start assms(2)] by metis
  have now: "run = evs @ evs'"
    using h assms(5) by simp
  with stop obtain evs1 where "prefix (evs @ evs1) run" "n = reserved (evs @ evs1) \<or> \<not> committed (evs @ evs1) n"
    by auto
  then have "\<forall>N \<le> reserved evs. (\<forall>i < N. committed evs i) \<longrightarrow> N \<le> n"
    using poll_catches_up by blast
  with n now show ?thesis by blast
qed

end

end
