(* ===== verification/Ring_Feed.thy ===== *)
theory Ring_Feed
  imports Ring_Session
begin

text \<open>
  A kernel that feeds a log of any length into a ring: at each wait it reserves the next record if there is
  room behind what the consumer has freed, over records of earlier rounds. It keeps the contract
  \<open>ring_session\<close>, whatever the consumer does. With it, the properties of sessions.
\<close>

unbundle bit_operations_syntax

section \<open>The producer\<close>

text \<open>The state is the number of reserved records and the position up to which the ring has been freed.\<close>

fun feed_step :: "nat \<Rightarrow> nat \<Rightarrow> (ring_record \<times> bool) list \<Rightarrow> event \<Rightarrow> nat \<times> nat \<Rightarrow> nat \<times> nat" where
  "feed_step k base log (Sys (Epoll_wait ep) res) (r, pos) =
     (if r < length log \<and> rec_pos base (log_recs log) (Suc r) \<le> pos + 2 ^ k then Suc r else r, pos)"
| "feed_step k base log (StoreConsumerPos v) (r, pos) = (r, max pos (unat v))"
| "feed_step k base log _ s = s"

definition feed_reserved :: "nat \<Rightarrow> nat \<Rightarrow> (ring_record \<times> bool) list \<Rightarrow> event list \<Rightarrow> nat" where
  "feed_reserved k base log evs = fst (fold (feed_step k base log) evs (0, base))"

text \<open>A record is committed with its reservation or, if it is a slow one, when the next one is reserved.\<close>

definition feed_committed :: "nat \<Rightarrow> nat \<Rightarrow> (ring_record \<times> bool) list \<Rightarrow> event list \<Rightarrow> nat \<Rightarrow> bool" where
  "feed_committed k base log evs i \<longleftrightarrow> i < length log \<and> (snd (log ! i) \<or> Suc i < feed_reserved k base log evs)"

definition feed_now :: "nat \<Rightarrow> nat \<Rightarrow> (ring_record \<times> bool) list \<Rightarrow> event list \<Rightarrow> (ring_record \<times> bool) list" where
  "feed_now k base log evs =
     map (\<lambda>i. (fst (log ! i), feed_committed k base log evs i)) [0..<feed_reserved k base log evs]"

definition feed_world :: "nat \<Rightarrow> nat \<Rightarrow> (ring_record \<times> bool) list \<Rightarrow> world" where
  "feed_world k base log = hostile_world
     \<lparr>kcall := (\<lambda>h c. let r = kcall hostile_world h c in r\<lparr>out_info := (out_info r)\<lparr>max_entries := 2 ^ k\<rparr>\<rparr>),
      kshared := (\<lambda>h. \<lparr>view_consumer = of_nat (published base h),
         view_producer = of_nat (rec_pos base (log_recs log) (feed_reserved k base log h)),
         view_cell = ring_cell k base (log_bytes (feed_now k base log h))\<rparr>)\<rparr>"

text \<open>Every record fits the ring; the log need not.\<close>

definition valid_feed :: "nat \<Rightarrow> nat \<Rightarrow> (ring_record \<times> bool) list \<Rightarrow> bool" where
  "valid_feed k base log \<longleftrightarrow> 3 \<le> k \<and> k \<le> 31 \<and> rec_pos base (log_recs log) (length log) < 2 ^ 64 - 2 ^ 31
     \<and> (\<forall>rc \<in> set log. length (payload (fst rc)) + 8 \<le> 2 ^ k \<and> length (payload (fst rc)) < 2 ^ 30)"

section \<open>Its invariant\<close>

lemma feed_state:
  "snd (fold (feed_step k base log) evs (r, pos)) = freed pos evs"
  "r \<le> fst (fold (feed_step k base log) evs (r, pos))"
proof -
  have "snd (fold (feed_step k base log) evs s) = freed (snd s) evs \<and> fst s \<le> fst (fold (feed_step k base log) evs s)" for s
  proof (induction evs arbitrary: s)
    case (Cons e evs)
    have "freed (snd s) [e] = snd (feed_step k base log e s) \<and> fst s \<le> fst (feed_step k base log e s)"
      by (cases "(k, base, log, e, s)" rule: feed_step.cases) auto
    with Cons [of "feed_step k base log e s"] freed_append [of "snd s" "[e]" evs] show ?case
      by (simp del: freed_append)
  qed simp
  from this [of "(r, pos)"] show "snd (fold (feed_step k base log) evs (r, pos)) = freed pos evs"
    "r \<le> fst (fold (feed_step k base log) evs (r, pos))"
    by simp_all
qed

lemma feed_grows: "feed_reserved k base log evs \<le> feed_reserved k base log (evs @ evs')"
  unfolding feed_reserved_def fold_append comp_def
  by (cases "fold (feed_step k base log) evs (0, base)") (simp add: feed_state(2))

lemma feed_commits: "feed_committed k base log evs i \<Longrightarrow> feed_committed k base log (evs @ evs') i"
  using feed_grows [of k base log evs evs'] by (auto simp: feed_committed_def)

text \<open>The producer is never more than a round ahead of what has been freed.\<close>

lemma feed_room:
  "feed_reserved k base log evs \<le> length log
   \<and> rec_pos base (log_recs log) (feed_reserved k base log evs) \<le> freed base evs + 2 ^ k"
proof (induction evs rule: rev_induct)
  case (snoc e evs)
  obtain r pos where s: "fold (feed_step k base log) evs (0, base) = (r, pos)"
    by (cases "fold (feed_step k base log) evs (0, base)")
  then have now: "feed_reserved k base log evs = r" "freed base evs = pos"
    using feed_state(1) [of k base log evs 0 base] by (simp_all add: feed_reserved_def)
  have "feed_reserved k base log (evs @ [e]) = fst (feed_step k base log e (r, pos))"
    "freed base (evs @ [e]) = snd (feed_step k base log e (r, pos))"
    using s feed_state(1) [of k base log "evs @ [e]" 0 base] by (simp_all add: feed_reserved_def)
  moreover have "fst (feed_step k base log e (r, pos)) \<le> length log
      \<and> rec_pos base (log_recs log) (fst (feed_step k base log e (r, pos))) \<le> snd (feed_step k base log e (r, pos)) + 2 ^ k"
    using snoc now by (cases "(k, base, log, e, (r, pos))" rule: feed_step.cases) auto
  ultimately show ?case
    by (simp only:)
qed (simp add: feed_reserved_def)

lemma rec_pos_cong: "(\<And>j. j < i \<Longrightarrow> recs j = recs' j) \<Longrightarrow> rec_pos base recs i = rec_pos base recs' i"
  by (induction i) simp_all

lemma feed_now_length [simp]: "length (feed_now k base log evs) = feed_reserved k base log evs"
  by (simp add: feed_now_def)

lemma feed_now_nth:
  assumes "i < feed_reserved k base log evs"
  shows "feed_now k base log evs ! i = (log_recs log i, feed_committed k base log evs i)"
  using assms feed_room [of k base log evs] by (simp add: feed_now_def log_recs_def)

lemma feed_now_position:
  assumes "i \<le> feed_reserved k base log evs"
  shows "rec_pos base (log_recs (feed_now k base log evs)) i = rec_pos base (log_recs log) i"
  by (rule rec_pos_cong) (use assms in \<open>simp add: log_recs_def [of "feed_now k base log evs"] feed_now_nth\<close>)

text \<open>What has been reserved and not freed is intact.\<close>

lemma feed_intact:
  assumes "freed base evs \<le> rec_pos base (log_recs log) i" "i < feed_reserved k base log evs"
  shows "intact k base (feed_now k base log evs) i"
proof -
  have "base + length (log_bytes (feed_now k base log evs)) = rec_pos base (log_recs log) (feed_reserved k base log evs)"
    using log_position [of "feed_reserved k base log evs" "feed_now k base log evs" base] feed_now_position [OF order_refl]
    by simp
  then show ?thesis
    using assms feed_room [of k base log evs] by (simp add: intact_def feed_now_position)
qed

lemma feed_position_bound:
  assumes "valid_feed k base log" "i \<le> feed_reserved k base log evs"
  shows "rec_pos base (log_recs log) i < 2 ^ 64 - 2 ^ 31"
proof -
  have "i \<le> length log"
    using assms(2) feed_room [of k base log evs] by simp
  from rec_pos_mono [OF this] assms(1) show ?thesis
    unfolding valid_feed_def by (meson le_less_trans)
qed

section \<open>The contract\<close>

lemma feed_world_view [simp]:
  "view_consumer (kshared (feed_world k base log) h) = of_nat (published base h)"
  "view_producer (kshared (feed_world k base log) h) = of_nat (rec_pos base (log_recs log) (feed_reserved k base log h))"
  "view_cell (kshared (feed_world k base log) h) = ring_cell k base (log_bytes (feed_now k base log h))"
  "max_entries (out_info (kcall (feed_world k base log) h c)) = 2 ^ k"
  "map_type (out_info (kcall (feed_world k base log) h c)) = 27"
  "ret (kcall (feed_world k base log) h c) = 0x7000"
  by (simp_all add: feed_world_def Let_def hostile_world_def)

lemma feed_record_fits:
  assumes "valid_feed k base log"
  shows "length (payload (log_recs log i)) + 8 \<le> 2 ^ k" "length (payload (log_recs log i)) < 2 ^ 30"
  using assms eight_le_ring [of k] nth_mem [of i log] by (auto simp: valid_feed_def log_recs_def)

lemma feed_session:
  assumes "valid_feed k base log"
  shows "ring_session (feed_world k base log) fd [] run k base (log_recs log)
    (feed_reserved k base log) (feed_committed k base log)"
proof
  fix evs evs' :: "event list" and i j :: nat
  show "feed_reserved k base log evs \<le> feed_reserved k base log (evs @ evs')"
    by (rule feed_grows)
  show "feed_committed k base log (evs @ evs') i" if "feed_committed k base log evs i"
    using that by (rule feed_commits)
  show "rec_pos base (log_recs log) (feed_reserved k base log evs) < 2 ^ 64 - 2 ^ 31"
    by (rule feed_position_bound [OF assms order_refl])
  assume i: "freed base evs \<le> rec_pos base (log_recs log) i" "i < feed_reserved k base log evs"
  have "rec_pos base (log_recs log) i < 2 ^ 64"
    using feed_position_bound [OF assms, of i evs] i(2) by simp
  then have "unat (of_nat (rec_pos base (log_recs log) i) AND mask k :: u64)
      = rec_pos base (log_recs (feed_now k base log evs)) i mod 2 ^ k"
    using i(2) by (simp only: masked_position feed_now_position less_imp_le)
  from log_header [OF feed_intact [OF i] this]
  show "header_len (view_cell (kshared (feed_world k base log) ([] @ evs))) (of_nat (rec_pos base (log_recs log) i) AND mask k)
      = rec_header (log_recs log i) (feed_committed k base log evs i)"
    using i(2) by (simp add: feed_now_nth)
  assume "j < length (payload (log_recs log i))"
  then show "view_cell (kshared (feed_world k base log) ([] @ evs)) (rec_pos base (log_recs log) i mod 2 ^ k + 8 + j)
      = payload (log_recs log i) ! j"
    using log_payload [OF feed_intact [OF i], of j] i(2) by (simp add: feed_now_nth feed_now_position)
qed (use assms feed_record_fits [OF assms] in \<open>simp_all add: valid_feed_def\<close>)

lemma feed_serves:
  assumes "valid_feed k base log"
  shows "serves (feed_world k base log) fd"
proof -
  have "unat (view_producer (kshared (feed_world k base log) h)) + 2 ^ 31 < 2 ^ 64" for h
    using feed_position_bound [OF assms order_refl, of h] by (simp add: unat_of_nat)
  then show ?thesis
    by (auto simp: serves_def wait_answer_def call_def Let_def failed_def MAP_FAILED_def intro!: exI [of _ "0 :: nat"])
qed

typedef feed_log = "{(k, base, log). valid_feed k base log}"
  by (rule exI [of _ "(3, 0, [])"]) (simp add: valid_feed_def)

definition feed_shift :: "feed_log \<Rightarrow> nat" where "feed_shift x = fst (Rep_feed_log x)"
definition feed_base :: "feed_log \<Rightarrow> nat" where "feed_base x = fst (snd (Rep_feed_log x))"
definition feed_entries :: "feed_log \<Rightarrow> (ring_record \<times> bool) list" where
  "feed_entries x = snd (snd (Rep_feed_log x))"

lemma feed_log_valid: "valid_feed (feed_shift x) (feed_base x) (feed_entries x)"
  using Rep_feed_log [of x] by (auto simp: feed_shift_def feed_base_def feed_entries_def)

interpretation fed_ring: ring_session "feed_world (feed_shift x) (feed_base x) (feed_entries x)" fd "[]" run
  "feed_shift x" "feed_base x" "log_recs (feed_entries x)" "feed_reserved (feed_shift x) (feed_base x) (feed_entries x)"
  "feed_committed (feed_shift x) (feed_base x) (feed_entries x)"
  for x :: feed_log and fd :: raw_fd and run :: "event list"
  by (rule feed_session [OF feed_log_valid])

text \<open>Five records of sixteen bytes each, for a ring of 32 bytes.\<close>

definition demo_feed :: "(ring_record \<times> bool) list" where
  "demo_feed = [(\<lparr>payload = [1, 2, 3], discarded = False\<rparr>, True), (\<lparr>payload = [9], discarded = True\<rparr>, True),
     (\<lparr>payload = [4], discarded = False\<rparr>, False), (\<lparr>payload = [5], discarded = False\<rparr>, True),
     (\<lparr>payload = [6, 7], discarded = False\<rparr>, True)]"

lemma demo_feed_valid: "valid_feed 5 0x18 demo_feed"
  using log_position [of "length demo_feed" demo_feed "0x18"]
  by (simp add: valid_feed_def demo_feed_def stride_def)

section \<open>Properties\<close>

text \<open>
  C5: exactly once over a whole session. A client polls a ring any number of times, each poll mapping it
  anew, some polls perhaps failing, and at every moment of the session the kernel keeps its contract: a record
  stays intact until the position behind it has been published, after which its space may be used again. Then all
  callbacks of the session together have received the payloads of the first \<open>n\<close> records that
  are not discarded, in order and once each, all of them committed, and the position left in the
  shared page is the end of record \<open>n\<close>, from where the next poll resumes.
\<close>

theorem polls_deliver_exactly_once:
  assumes "poll_times w fd m p = Some (rs, p')" "hist p' = hist p @ evs"
    and "ring_session w fd (hist p) evs k base recs reserved committed"
  shows "\<exists>n. delivered evs = kept_payloads (map recs [0..<n]) \<and> n \<le> reserved evs \<and> (\<forall>i < n. committed evs i)
    \<and> view_consumer (kshared w (hist p')) = of_nat (rec_pos base recs n)"
proof -
  obtain n where "passed base recs reserved committed evs n"
    using ring_session.polls_pass [OF assms(3,1) refl] assms(2) by auto
  then show ?thesis
    using ring_session.consumer_page [OF assms(3), of evs] assms(2) by (auto simp: passed_def stands_at_def)
qed

theorem polls_deliver_exactly_once_witness:
  "\<exists>rs p' n. poll_times (feed_world 5 0x18 demo_feed) 3 7 \<lparr>hist = [], page_cache = None, warned = False\<rparr> = Some (rs, p')
    \<and> delivered (hist p') = kept_payloads (map (log_recs demo_feed) [0..<n])"
proof -
  let ?p = "\<lparr>hist = [], page_cache = None, warned = False\<rparr>" and ?w = "feed_world 5 0x18 demo_feed"
  obtain p' where polls: "poll_times ?w 3 7 ?p = Some (replicate 7 (Ok ()), p')"
    using served_polls [OF feed_serves [OF demo_feed_valid], of ?p 3 7] by (auto simp: cache_ok_def)
  have "ring_session ?w 3 (hist ?p) (hist p') 5 0x18 (log_recs demo_feed)
      (feed_reserved 5 0x18 demo_feed) (feed_committed 5 0x18 demo_feed)"
    using feed_session [OF demo_feed_valid] by simp
  from polls_deliver_exactly_once [OF polls _ this] polls show ?thesis by auto
qed

text \<open>
  C7: nothing is left behind. On a kernel that serves its calls, polling any number of times succeeds
  each time; and if the kernel kept the ring-buffer contract at every moment of that session, the last poll has
  passed every record that, with all before it, was committed when that poll began: the callbacks have
  received at least those, in order and once each.
\<close>

theorem polls_leave_nothing_behind:
  assumes "serves w fd" "cache_ok p"
  shows "\<exists>rs q rs' q' evs run. poll_times w fd m p = Some (rs, q) \<and> poll_times w fd (Suc m) p = Some (rs', q')
    \<and> list_all (\<lambda>r. r = Ok ()) rs' \<and> hist q = hist p @ evs \<and> hist q' = hist p @ run \<and> prefix evs run
    \<and> (\<forall>k base recs reserved committed. ring_session w fd (hist p) run k base recs reserved committed \<longrightarrow>
        (\<exists>n. delivered run = kept_payloads (map recs [0..<n])
           \<and> (\<forall>N \<le> reserved evs. (\<forall>i < N. committed evs i) \<longrightarrow> N \<le> n)))"
proof -
  obtain q where q: "poll_times w fd m p = Some (replicate m (Ok ()), q)" "cache_ok q"
    using served_polls [OF assms] by blast
  obtain q' where poll: "poll_ringbuf w fd q = Some (Ok (), q')"
    using served_poll [OF assms(1) q(2)] by blast
  obtain evs run where h: "hist q = hist p @ evs" "hist q' = hist p @ run" "prefix evs run"
    using polls_append [OF q(1)] poll_appends [OF poll] by (auto simp: prefix_def)
  have "\<exists>n. delivered run = kept_payloads (map recs [0..<n]) \<and> (\<forall>N \<le> reserved evs. (\<forall>i < N. committed evs i) \<longrightarrow> N \<le> n)"
    if "ring_session w fd (hist p) run k base recs reserved committed" for k base recs reserved committed
    using ring_session.last_poll_catches_up [OF that q(1) poll refl h(1,2)] by (auto simp: passed_def)
  then show ?thesis
    using q(1) poll h by (intro exI [of _ "replicate m (Ok ())"] exI [of _ q] exI [of _ "replicate m (Ok ()) @ [Ok ()]"]
        exI [of _ q'] exI [of _ evs] exI [of _ run]) (auto simp: list_all_iff)
qed

theorem polls_leave_nothing_behind_witness:
  "\<exists>rs' q' n. poll_times (feed_world 5 0x18 demo_feed) 3 (Suc 6) \<lparr>hist = [], page_cache = None, warned = False\<rparr> = Some (rs', q')
    \<and> delivered (hist q') = kept_payloads (map (log_recs demo_feed) [0..<n])"
proof -
  let ?p = "\<lparr>hist = [], page_cache = None, warned = False\<rparr>" and ?w = "feed_world 5 0x18 demo_feed"
  have session: "ring_session ?w 3 (hist ?p) run 5 0x18 (log_recs demo_feed)
      (feed_reserved 5 0x18 demo_feed) (feed_committed 5 0x18 demo_feed)" for run
    using feed_session [OF demo_feed_valid] by simp
  have "cache_ok ?p"
    by (simp add: cache_ok_def)
  from polls_leave_nothing_behind [OF feed_serves [OF demo_feed_valid, of 3] this, of 6] session show ?thesis
    by (simp del: poll_times.simps) blast
qed

end
