(* ===== verification/Unwind.thy ===== *)
theory Unwind
  imports Ring_Feed
begin

text \<open>
  Callbacks that panic. The callback of \<open>poll_ringbuf\<close> is code of the client; when it panics, the loop and the
  poll are left at once and their locals are dropped on the way out: the epoll descriptor, then the two
  mappings. Here \<open>cb\<close> says, from the history and the record, whether a call of the callback panics, and
  the operations of \<open>ringbuf.rs\<close> through which a panic can pass are written with unwinding as a
  second kind of result. The panic hook's own output and what the client does after catching the
  panic are outside the model. Without panics nothing changes (\<open>poll_no_panic\<close>). The properties: a panic leaves no
  mapping and no descriptor behind unreported; and since a record is released to the kernel only after its callback
  has returned, over a session every record is handled exactly once, and one whose callback panicked is delivered again.
\<close>

unbundle bit_operations_syntax

section \<open>The operations\<close>

type_synonym callback = "event list \<Rightarrow> u8 list \<Rightarrow> bool"

datatype 'a unwound = Normal 'a | Unwinding 'a

definition process_record_cb :: "world \<Rightarrow> callback \<Rightarrow> ringbuf_consumer \<Rightarrow> ring_state \<Rightarrow> ring_state unwound" where
  "process_record_cb w cb c st =
     (let pos = consumer_pos st; p = process st;
          offset = pos AND ring_mask c;
          raw_len = header_len (view_cell (kshared w (hist p))) offset;
          p = log_event (LoadHeader offset raw_len) p;
          stop = (\<lambda>p. st\<lparr>phase := Returned, process := log_event (StoreConsumerPos pos) p\<rparr>) in
      if raw_len AND BPF_RINGBUF_BUSY_BIT \<noteq> 0 then Normal (stop p)
      else
        let data_len = ucast (raw_len AND NOT (BPF_RINGBUF_BUSY_BIT OR BPF_RINGBUF_DISCARD_BIT));
            record_len = round_record_len data_len;
            data_offset = offset + BPF_RINGBUF_HDR_SZ;
            advance = (\<lambda>p. st\<lparr>consumer_pos := pos + record_len, consumed_any := True,
                             process := log_event (StoreConsumerPos (pos + record_len)) p\<rparr>) in
        if raw_len AND BPF_RINGBUF_DISCARD_BIT = 0 then
          if (case checked_add (ring_mask c) 1 of None \<Rightarrow> True
              | Some rs \<Rightarrow> \<not> record_within_mapping data_offset data_len rs) then
            Normal (stop (eprintln (out_of_bounds_text data_offset data_len (ring_mask c)) p))
          else
            let bytes = data_slice (view_cell (kshared w (hist p))) data_offset data_len;
                panics = cb (hist p) bytes;
                p = log_event (Callback data_offset bytes) p in
            if panics then Unwinding (st\<lparr>process := p\<rparr>) else Normal (advance p)
        else Normal (advance p))"

definition ring_step_cb :: "world \<Rightarrow> callback \<Rightarrow> ringbuf_consumer \<Rightarrow> ring_state \<Rightarrow> ring_state unwound" where
  "ring_step_cb w cb c st =
     (case phase st of
        Reload \<Rightarrow>
          let v = view_producer (kshared w (hist (process st))) in
          Normal (st\<lparr>phase := Scan, producer_pos := v, consumed_any := False,
             process := log_event (LoadProducerPos v) (process st)\<rparr>)
      | Scan \<Rightarrow>
          if consumer_pos st < producer_pos st then process_record_cb w cb c st
          else Normal (st\<lparr>phase := (if consumed_any st then Reload else Returned)\<rparr>)
      | Returned \<Rightarrow> Normal st)"

definition consume_ring_records_cb :: "world \<Rightarrow> callback \<Rightarrow> ringbuf_consumer \<Rightarrow> proc \<Rightarrow> proc unwound option" where
  "consume_ring_records_cb w cb c p =
     map_option (map_unwound process)
       (while_option (\<lambda>s. case s of Normal st \<Rightarrow> phase st \<noteq> Returned | Unwinding st \<Rightarrow> False)
          (\<lambda>s. case s of Normal st \<Rightarrow> ring_step_cb w cb c st | Unwinding st \<Rightarrow> Unwinding st)
          (Normal (ring_start w p)))"

datatype poll_outcome = Returns "io_error + unit" | Unwinds

definition poll_ringbuf_cb :: "world \<Rightarrow> callback \<Rightarrow> raw_fd \<Rightarrow> proc \<Rightarrow> (poll_outcome \<times> proc) option" where
  "poll_ringbuf_cb w cb map_fd p =
     (case map_info w map_fd p of
        (Inl e, p) \<Rightarrow> Some (Returns (Err e), p)
      | (Inr info, p) \<Rightarrow>
        if map_type info \<noteq> BPF_MAP_TYPE_RINGBUF then Some (Returns (Err not_a_ringbuf), p)
        else (case page_size_of w p of
          (Inl e, p) \<Rightarrow> Some (Returns (Err e), p)
        | (Inr page_sz, p) \<Rightarrow>
          (case ringbuf_consumer_new w map_fd (ucast (max_entries info)) page_sz p of
            (Inl e, p) \<Rightarrow> Some (Returns (Err e), p)
          | (Inr consumer, p) \<Rightarrow>
            (case epoll_new w p of
              (Inl e, p) \<Rightarrow> Some (Returns (Err e), ringbuf_consumer_drop w consumer p)
            | (Inr epfd, p) \<Rightarrow>
              let finish = (\<lambda>r p. Some (r, ringbuf_consumer_drop w consumer (epoll_drop w epfd p))) in
              (case epoll_add w epfd map_fd p of
                (Inl e, p) \<Rightarrow> finish (Returns (Err e)) p
              | (Inr _, p) \<Rightarrow>
                (case epoll_wait w epfd p of
                  None \<Rightarrow> None
                | Some (Inl e, p) \<Rightarrow> finish (Returns (Err e)) p
                | Some (Inr _, p) \<Rightarrow>
                  (case consume_ring_records_cb w cb consumer p of
                    None \<Rightarrow> None
                  | Some (Normal p) \<Rightarrow> finish (Returns (Ok ())) p
                  | Some (Unwinding p) \<Rightarrow> finish Unwinds p)))))))"

text \<open>A client that catches panics and polls again.\<close>

primrec poll_times_cb :: "world \<Rightarrow> callback \<Rightarrow> raw_fd \<Rightarrow> nat \<Rightarrow> proc \<Rightarrow> (poll_outcome list \<times> proc) option" where
  "poll_times_cb w cb fd 0 p = Some ([], p)"
| "poll_times_cb w cb fd (Suc m) p =
     (case poll_times_cb w cb fd m p of
        None \<Rightarrow> None
      | Some (outs, q) \<Rightarrow> (case poll_ringbuf_cb w cb fd q of None \<Rightarrow> None | Some (out, q') \<Rightarrow> Some (outs @ [out], q')))"

text \<open>The records whose callback returned, among events that follow the history \<open>h\<close>.\<close>

fun handled :: "callback \<Rightarrow> event list \<Rightarrow> event list \<Rightarrow> u8 list list" where
  "handled cb h [] = []"
| "handled cb h (Callback o' bs # es) = (if cb h bs then [] else [bs]) @ handled cb (h @ [Callback o' bs]) es"
| "handled cb h (e # es) = handled cb (h @ [e]) es"

lemma handled_append: "handled cb h (xs @ ys) = handled cb h xs @ handled cb (h @ xs) ys"
  by (induction cb h xs rule: handled.induct) simp_all

lemma handled_quiet: "\<forall>e \<in> set evs. quiet e \<Longrightarrow> handled cb h evs = []"
  by (induction cb h evs rule: handled.induct) simp_all

section \<open>One step\<close>

text \<open>A step without a panic is the step of \<open>Ringbuf\<close>, and every callback it makes is handled.\<close>

lemma step_normal:
  assumes "ring_step_cb w cb c st = Normal st'"
  shows "st' = ring_step w c st"
    and "\<exists>es. hist (process st') = hist (process st) @ es \<and> handled cb (hist (process st)) es = delivered es"
proof -
  show "st' = ring_step w c st"
    using assms by (auto simp: ring_step_cb_def ring_step_def process_record_cb_def process_record_def Let_def
        split: phase.splits if_splits option.splits)
  show "\<exists>es. hist (process st') = hist (process st) @ es \<and> handled cb (hist (process st)) es = delivered es"
    using assms by (auto simp: ring_step_cb_def process_record_cb_def Let_def
        split: phase.splits if_splits option.splits)
qed

text \<open>A panic comes from the callback of a record; but for the store, the pass has been made.\<close>

lemma step_unwinding:
  assumes "ring_step_cb w cb c st = Unwinding st'"
  shows "phase st = Scan" "consumer_pos st < producer_pos st"
    and "\<exists>off' bs v. hist (process st') = hist (process st) @ [LoadHeader (record_offset c st) (record_header w c st), Callback off' bs]
      \<and> cb (hist (process st) @ [LoadHeader (record_offset c st) (record_header w c st)]) bs
      \<and> process_record w c st = st\<lparr>consumer_pos := v, consumed_any := True,
          process := log_event (StoreConsumerPos v) (process st')\<rparr>"
proof -
  show "phase st = Scan" "consumer_pos st < producer_pos st"
    using assms by (auto simp: ring_step_cb_def Let_def split: phase.splits if_splits)
  then have "process_record_cb w cb c st = Unwinding st'"
    using assms by (simp add: ring_step_cb_def)
  then show "\<exists>off' bs v. hist (process st') = hist (process st) @ [LoadHeader (record_offset c st) (record_header w c st), Callback off' bs]
      \<and> cb (hist (process st) @ [LoadHeader (record_offset c st) (record_header w c st)]) bs
      \<and> process_record w c st = st\<lparr>consumer_pos := v, consumed_any := True,
          process := log_event (StoreConsumerPos v) (process st')\<rparr>"
    by (auto simp: process_record_cb_def process_record_def record_offset_def record_header_def Let_def
        split: if_splits option.splits)
qed

section \<open>The loop\<close>

lemma reaches_while:
  "ring_reaches w c p st \<Longrightarrow>
     while_option (\<lambda>st. phase st \<noteq> Returned) (ring_step w c) (ring_start w p)
       = while_option (\<lambda>st. phase st \<noteq> Returned) (ring_step w c) st"
proof (induction rule: ring_reaches.induct)
  case (step st)
  then show ?case
    using while_option_unfold [of "\<lambda>st. phase st \<noteq> Returned" "ring_step w c" st] by simp
qed simp

lemma reaches_returned: "ring_reaches w c p st \<Longrightarrow> phase st = Returned \<Longrightarrow> consume_ring_records w c p = Some (process st)"
  unfolding consume_ring_records_def by (subst reaches_while, assumption, subst while_option_unfold) simp

text \<open>A state the loop has reached without a panic.\<close>

definition unbroken :: "world \<Rightarrow> callback \<Rightarrow> ringbuf_consumer \<Rightarrow> proc \<Rightarrow> ring_state \<Rightarrow> bool" where
  "unbroken w cb c p st \<longleftrightarrow> ring_reaches w c p st
     \<and> (\<exists>evs. hist (process st) = hist p @ evs \<and> handled cb (hist p) evs = delivered evs)"

lemma unbroken_start: "unbroken w cb c p (ring_start w p)"
proof -
  have "hist (process (ring_start w p)) = hist p @ [LoadConsumerPos (view_consumer (kshared w (hist p)))]"
    by (simp add: ring_start_def Let_def)
  then show ?thesis
    unfolding unbroken_def
    by (intro conjI ring_reaches.start exI [of _ "[LoadConsumerPos (view_consumer (kshared w (hist p)))]"]) simp_all
qed

lemma unbroken_step:
  assumes "unbroken w cb c p st" "phase st \<noteq> Returned" "ring_step_cb w cb c st = Normal st'"
  shows "unbroken w cb c p st'"
proof -
  obtain evs where evs: "hist (process st) = hist p @ evs" "handled cb (hist p) evs = delivered evs"
    using assms(1) by (auto simp: unbroken_def)
  obtain es where es: "hist (process st') = hist (process st) @ es" "handled cb (hist (process st)) es = delivered es"
    using step_normal(2) [OF assms(3)] by blast
  have "ring_reaches w c p st'"
    unfolding step_normal(1) [OF assms(3)] using assms(1,2) by (auto simp: unbroken_def intro: ring_reaches.step)
  moreover have "handled cb (hist p) (evs @ es) = delivered (evs @ es)"
    using evs es by (simp add: handled_append)
  ultimately show ?thesis
    using evs es unfolding unbroken_def by (metis append.assoc)
qed

lemma consume_cb_cases:
  assumes "consume_ring_records_cb w cb c p = Some out"
  obtains (returned) st where "out = Normal (process st)" "unbroken w cb c p st" "phase st = Returned"
  | (panicked) st st' where "out = Unwinding (process st')" "unbroken w cb c p st" "ring_step_cb w cb c st = Unwinding st'"
proof -
  define inv where "inv = (\<lambda>s. case s of Normal st \<Rightarrow> unbroken w cb c p st
    | Unwinding st' \<Rightarrow> \<exists>st. unbroken w cb c p st \<and> ring_step_cb w cb c st = Unwinding st')"
  let ?b = "\<lambda>s. case s of Normal st \<Rightarrow> phase st \<noteq> Returned | Unwinding st \<Rightarrow> False"
  obtain s where run: "while_option ?b
      (\<lambda>s. case s of Normal st \<Rightarrow> ring_step_cb w cb c st | Unwinding st \<Rightarrow> Unwinding st) (Normal (ring_start w p)) = Some s"
    and out: "out = map_unwound process s"
    using assms by (auto simp: consume_ring_records_cb_def)
  have "inv s"
  proof (rule while_option_rule [where P = inv, OF _ run])
    fix s
    assume "inv s" "?b s"
    then obtain st where st: "s = Normal st" "unbroken w cb c p st" "phase st \<noteq> Returned"
      by (auto simp: inv_def split: unwound.splits)
    then show "inv (case s of Normal st \<Rightarrow> ring_step_cb w cb c st | Unwinding st \<Rightarrow> Unwinding st)"
      using unbroken_step [OF st(2,3)] by (auto simp: inv_def split: unwound.split)
  qed (simp add: inv_def unbroken_start)
  moreover have "\<not> ?b s"
    by (rule while_option_stop [OF run])
  ultimately show thesis
    using returned panicked out by (cases s) (auto simp: inv_def)
qed

text \<open>It comes back under the same condition as without panics.\<close>

lemma consume_cb_returns:
  assumes "\<forall>h. unat (view_producer (kshared w h)) + 2 ^ 31 < 2 ^ 64"
  shows "\<exists>out. consume_ring_records_cb w cb c p = Some out"
proof -
  let ?P = "\<lambda>s. case s of Normal st \<Rightarrow> unat (producer_pos st) + 2 ^ 31 < 2 ^ 64 | Unwinding st \<Rightarrow> True"
  let ?f = "\<lambda>s. case s of Normal st \<Rightarrow> Suc (ring_measure st) | Unwinding st \<Rightarrow> 0"
  have "\<exists>s. while_option (\<lambda>s. case s of Normal st \<Rightarrow> phase st \<noteq> Returned | Unwinding st \<Rightarrow> False)
      (\<lambda>s. case s of Normal st \<Rightarrow> ring_step_cb w cb c st | Unwinding st \<Rightarrow> Unwinding st) (Normal (ring_start w p)) = Some s"
  proof (rule measure_while_option_Some [where P = ?P and f = ?f])
    fix s :: "ring_state unwound"
    assume s: "?P s" "case s of Normal st \<Rightarrow> phase st \<noteq> Returned | Unwinding st \<Rightarrow> False"
    then obtain st where st: "s = Normal st" "unat (producer_pos st) + 2 ^ 31 < 2 ^ 64" "phase st \<noteq> Returned"
      by (cases s) auto
    show "?P (case s of Normal st \<Rightarrow> ring_step_cb w cb c st | Unwinding st \<Rightarrow> Unwinding st)
        \<and> ?f (case s of Normal st \<Rightarrow> ring_step_cb w cb c st | Unwinding st \<Rightarrow> Unwinding st) < ?f s"
      using st producer_stays_bounded [OF assms st(2), of c] ring_step_decreases [OF st(3,2), of w c] step_normal(1) [of w cb c st]
      by (auto split: unwound.split)
  qed (simp add: ring_start_def Let_def)
  then show ?thesis
    by (auto simp: consume_ring_records_cb_def)
qed

section \<open>A poll\<close>

lemma step_no_panic: "\<forall>h bs. \<not> cb h bs \<Longrightarrow> ring_step_cb w cb c st = Normal (ring_step w c st)"
  using step_normal(1) [of w cb c st] step_unwinding(3) [of w cb c st] by (cases "ring_step_cb w cb c st") auto

lemma consume_no_panic:
  assumes "\<forall>h bs. \<not> cb h bs"
  shows "consume_ring_records_cb w cb c p = map_option Normal (consume_ring_records w c p)"
proof -
  have "map_option Normal (while_option (\<lambda>st. phase st \<noteq> Returned) (ring_step w c) (ring_start w p))
      = while_option (\<lambda>s. case s of Normal st \<Rightarrow> phase st \<noteq> Returned | Unwinding st \<Rightarrow> False)
          (\<lambda>s. case s of Normal st \<Rightarrow> ring_step_cb w cb c st | Unwinding st \<Rightarrow> Unwinding st) (Normal (ring_start w p))"
    by (rule while_option_commute) (simp_all add: step_no_panic [OF assms])
  from this [symmetric] show ?thesis
    unfolding consume_ring_records_cb_def consume_ring_records_def by (simp add: option.map_comp comp_def)
qed

text \<open>A poll ends as it does without panics, or after the loop.\<close>

lemma poll_cb_cases:
  assumes "poll_ringbuf_cb w cb fd p = Some (out, p')"
  obtains (early) e where "out = Returns (Err e)" "poll_ringbuf w fd p = Some (Err e, p')"
  | (consumed) info ps p1 p2 c p3 ep p4 p5 v q res where "map_info w fd p = (Ok info, p1)"
    "map_type info = BPF_MAP_TYPE_RINGBUF" "page_size_of w p1 = (Ok ps, p2)"
    "ringbuf_consumer_new w fd (ucast (max_entries info)) ps p2 = (Ok c, p3)"
    "epoll_new w p3 = (Ok ep, p4)" "epoll_add w ep fd p4 = (Ok v, p5)" "epoll_wait w ep p5 = Some (Ok v, q)"
    "consume_ring_records_cb w cb c q = Some res"
    "(out, p') = (case res of Normal q' \<Rightarrow> (Returns (Ok ()), ringbuf_consumer_drop w c (epoll_drop w ep q'))
       | Unwinding q' \<Rightarrow> (Unwinds, ringbuf_consumer_drop w c (epoll_drop w ep q')))"
  using assms unfolding poll_ringbuf_cb_def Let_def
  by (auto simp: poll_ringbuf_def split: prod.splits sum.splits if_splits option.splits unwound.splits)

lemma poll_cb_returned:
  assumes "poll_ringbuf_cb w cb fd p = Some (Returns r, p')"
  shows "poll_ringbuf w fd p = Some (r, p')"
    and "\<exists>evs. hist p' = hist p @ evs \<and> handled cb (hist p) evs = delivered evs"
proof -
  have "poll_ringbuf w fd p = Some (r, p') \<and> (\<exists>evs. hist p' = hist p @ evs \<and> handled cb (hist p) evs = delivered evs)"
    using assms
  proof (cases rule: poll_cb_cases)
    case (early e)
    then show ?thesis
      using poll_failed [of w fd p e p'] handled_quiet quiet_delivers by (fastforce simp: adds_def)
  next
    case (consumed info ps p1 p2 c p3 ep p4 p5 v q res)
    then obtain q' where res: "res = Normal q'" "r = Ok ()" "p' = ringbuf_consumer_drop w c (epoll_drop w ep q')"
      by (auto split: unwound.splits)
    from consumed(8) obtain st where st: "q' = process st" "unbroken w cb c q st" "phase st = Returned"
      by (cases rule: consume_cb_cases) (auto simp: res)
    then have consume: "consume_ring_records w c q = Some q'"
      using reaches_returned by (simp add: unbroken_def)
    obtain pre where pre: "hist q = hist p @ pre" "\<forall>e \<in> set pre. quiet e"
      by (rule setup_phase [OF consumed(1,3-7)])
    obtain mid where mid: "hist q' = hist q @ mid" "handled cb (hist q) mid = delivered mid"
      using st by (auto simp: unbroken_def)
    obtain post where post: "hist p' = hist q' @ post" "\<forall>e \<in> set post. quiet e"
      unfolding res(3) by (rule cleanup_phase)
    have "handled cb (hist p) (pre @ mid @ post) = delivered (pre @ mid @ post)"
      using pre mid post(2) quiet_delivers [OF pre(2)] quiet_delivers [OF post(2)] by (simp add: handled_append handled_quiet)
    moreover have "hist p' = hist p @ pre @ mid @ post"
      using pre(1) mid(1) post(1) by simp
    moreover have "poll_ringbuf w fd p = Some (r, p')"
      using consumed consume res by (simp add: poll_ringbuf_def)
    ultimately show ?thesis by blast
  qed
  then show "poll_ringbuf w fd p = Some (r, p')"
    "\<exists>evs. hist p' = hist p @ evs \<and> handled cb (hist p) evs = delivered evs"
    by simp_all
qed

lemma poll_cb_unwound:
  assumes "poll_ringbuf_cb w cb fd p = Some (Unwinds, p')"
  obtains info ps p1 p2 c p3 ep q st st' pre post where
    "map_info w fd p = (Ok info, p1)" "ringbuf_consumer_new w fd (ucast (max_entries info)) ps p2 = (Ok c, p3)"
    "hist q = hist p @ pre" "\<forall>e \<in> set pre. quiet e"
    "cache_ok p \<longrightarrow> disposed pre = {#} \<and> leaks_reported pre \<and>
       acquired pre = {#Epfd ep, Mapping (consumer_mapping c) (page_size c), Mapping (producer_mapping c) (mapping_len c)#}"
    "unbroken w cb c q st" "ring_step_cb w cb c st = Unwinding st'"
    "p' = ringbuf_consumer_drop w c (epoll_drop w ep (process st'))"
    "hist p' = hist (process st') @ post" "\<forall>e \<in> set post. quiet e"
  using assms
proof (cases rule: poll_cb_cases)
  case (consumed info ps p1 p2 c p3 ep p4 p5 v q res)
  then obtain q' where res: "res = Unwinding q'" "p' = ringbuf_consumer_drop w c (epoll_drop w ep q')"
    by (auto split: unwound.splits)
  from consumed(8) obtain st st' where st: "q' = process st'" "unbroken w cb c q st" "ring_step_cb w cb c st = Unwinding st'"
    by (cases rule: consume_cb_cases) (auto simp: res)
  obtain pre where pre: "hist q = hist p @ pre" "\<forall>e \<in> set pre. quiet e"
    "cache_ok p \<longrightarrow> disposed pre = {#} \<and> leaks_reported pre \<and>
       acquired pre = {#Epfd ep, Mapping (consumer_mapping c) (page_size c), Mapping (producer_mapping c) (mapping_len c)#}"
    by (rule setup_phase [OF consumed(1,3-7)])
  obtain post where "hist p' = hist q' @ post" "\<forall>e \<in> set post. quiet e"
    unfolding res(2) by (rule cleanup_phase)
  with that [OF consumed(1,4) pre st(2,3)] res(2) st(1) show thesis
    by simp
qed simp

lemma poll_cb_appends:
  assumes "poll_ringbuf_cb w cb fd p = Some (out, p')"
  shows "prefix (hist p) (hist p')"
proof (cases out)
  case (Returns r)
  then show ?thesis
    using poll_cb_returned(2) assms by fastforce
next
  case Unwinds
  from assms obtain q c st st' pre post where "hist q = hist p @ pre" "hist p' = hist (process st') @ post"
    and st: "unbroken w cb c q st" "ring_step_cb w cb c st = Unwinding st'"
    unfolding Unwinds by (rule poll_cb_unwound)
  then show ?thesis
    using step_unwinding(3) [OF st(2)] by (auto simp: unbroken_def)
qed

lemma poll_cb_effect:
  assumes "poll_ringbuf_cb w cb fd p = Some (out, p')" "cache_ok p"
  shows "\<exists>A. effect p p' A A"
proof (cases out)
  case (Returns r)
  then show ?thesis
    using poll_effect [OF poll_cb_returned(1)] assms by blast
next
  case Unwinds
  from assms(1) obtain info ps p1 p2 c p3 ep q st st' pre post where pre: "hist q = hist p @ pre"
    and held: "cache_ok p \<longrightarrow> disposed pre = {#} \<and> leaks_reported pre \<and>
       acquired pre = {#Epfd ep, Mapping (consumer_mapping c) (page_size c), Mapping (producer_mapping c) (mapping_len c)#}"
    and st: "unbroken w cb c q st" "ring_step_cb w cb c st = Unwinding st'"
    and p': "p' = ringbuf_consumer_drop w c (epoll_drop w ep (process st'))"
    unfolding Unwinds by (rule poll_cb_unwound)
  have "effect q (process st) {#} {#}"
    by (rule inert.R_reaches [of w c]) (use st(1) in \<open>simp_all add: unbroken_def access_inert\<close>)
  moreover have "effect (process st) (process st') {#} {#}"
    using step_unwinding(3) [OF st(2)] by (auto simp: effect_def acquired_def disposed_def)
  moreover have "effect p q {#Epfd ep, Mapping (consumer_mapping c) (page_size c), Mapping (producer_mapping c) (mapping_len c)#} {#}"
    using pre held assms(2) by (simp add: effect_def)
  ultimately show ?thesis
    unfolding p' using finish_effect effect_trans [of p q _ _ "process st'" "{#}" "{#}"]
      inert.R_trans [of q "process st" "process st'"] by simp
qed

lemma poll_no_panic:
  assumes "\<forall>h bs. \<not> cb h bs"
  shows "poll_ringbuf_cb w cb fd p = map_option (\<lambda>(r, p'). (Returns r, p')) (poll_ringbuf w fd p)"
  by (simp add: poll_ringbuf_cb_def poll_ringbuf_def consume_no_panic [OF assms] Let_def split: prod.split sum.split option.split)

lemma poll_cb_returns:
  assumes "\<forall>ep q. epoll_wait w ep q \<noteq> None" "\<forall>h. unat (view_producer (kshared w h)) + 2 ^ 31 < 2 ^ 64"
  shows "\<exists>out p'. poll_ringbuf_cb w cb fd p = Some (out, p')"
proof -
  have "\<forall>c q. consume_ring_records_cb w cb c q \<noteq> None"
    using consume_cb_returns [OF assms(2)] by (metis option.distinct(1))
  with assms(1) have "poll_ringbuf_cb w cb fd p \<noteq> None"
    by (auto simp: poll_ringbuf_cb_def Let_def simp del: not_None_eq
        split: option.splits sum.splits prod.splits unwound.splits)
  then show ?thesis
    by auto
qed

lemma polls_cb_return:
  assumes "serves w fd"
  shows "\<exists>outs p'. poll_times_cb w cb fd m p = Some (outs, p')"
proof (induction m)
  case (Suc m)
  have "\<forall>ep q. epoll_wait w ep q \<noteq> None" "\<forall>h. unat (view_producer (kshared w h)) + 2 ^ 31 < 2 ^ 64"
    using served_epoll(3) [OF assms] assms by (fastforce simp: serves_def)+
  note returns = poll_cb_returns [OF this]
  from Suc obtain outs q where "poll_times_cb w cb fd m p = Some (outs, q)"
    by blast
  moreover obtain out q' where "poll_ringbuf_cb w cb fd q = Some (out, q')"
    using returns by blast
  ultimately show ?case by simp
qed simp

section \<open>Against the kernel's contract\<close>

context ring_kernel
begin

text \<open>The record whose callback panics is the next one, and it is complete.\<close>

lemma unwound_record:
  assumes inv: "delivery_inv h0 base recs reserved committed st evs n" and step: "ring_step_cb w cb c st = Unwinding st'"
    and runs: "prefix (hist (process st')) (h0 @ run)"
  obtains e off' where "hist (process st') = h0 @ evs @ [e, Callback off' (payload (recs n))]"
    "\<forall>b. delivered [e] = [] \<and> published b [e] = b \<and> freed b [e] = b"
    "handled cb (h0 @ evs) [e, Callback off' (payload (recs n))] = []"
    "n < reserved evs" "committed evs n" "\<not> discarded (recs n)"
proof -
  let ?o = "of_nat (rec_pos base recs n) AND ring_mask c" and ?raw = "rec_header (recs n) (committed evs n)"
  obtain off' bs v where unwound:
    "hist (process st') = hist (process st) @ [LoadHeader (record_offset c st) (record_header w c st), Callback off' bs]"
    "cb (hist (process st) @ [LoadHeader (record_offset c st) (record_header w c st)]) bs"
    "process_record w c st = st\<lparr>consumer_pos := v, consumed_any := True, process := log_event (StoreConsumerPos v) (process st')\<rparr>"
    using step_unwinding(3) [OF step] by blast
  have st: "hist (process st) = h0 @ evs" "freed base evs = rec_pos base recs n"
    using inv by (simp_all add: delivery_inv_def)
  have now: "prefix evs run"
    using runs st(1) unwound(1) run_begins [of evs] by simp
  obtain es res where n: "n < reserved evs"
    and out: "pass_outcome c (of_nat (rec_pos base recs n)) ?o ?raw (view_cell (kshared w (h0 @ evs @ [LoadHeader ?o ?raw]))) es res"
    and hist: "hist (process (process_record w c st)) = h0 @ evs @ [LoadHeader ?o ?raw] @ es"
    by (rule scanned_record [OF now inv step_unwinding(1,2) [OF step]])
  have same: "record_offset c st = ?o" "record_header w c st = ?raw" "es = [Callback off' bs, StoreConsumerPos v]"
    using hist unwound(1,3) st(1) by simp_all
  have later: "prefix (evs @ [LoadHeader ?o ?raw]) run"
    using runs st(1) unwound(1) same(1,2) run_begins [of "evs @ [LoadHeader ?o ?raw]" "[Callback off' bs]"] by simp
  have "committed evs n \<and> \<not> discarded (recs n) \<and> bs = payload (recs n)"
    using out
  proof cases
    case (deliver "next")
    then have kept: "committed evs n" "\<not> discarded (recs n)"
      by (simp_all add: rec_header_flags [OF record_size(2)])
    have "n < reserved (evs @ [LoadHeader ?o ?raw])"
      using n reserved_grows [OF later] by simp
    from slice_is_payload [OF later this committed_stays [OF later kept(1)]] deliver kept same(3) st(2) show ?thesis
      by simp
  qed (simp_all add: same(3))
  then show thesis
    using unwound(1,2) st(1) same n by (intro that [of "LoadHeader ?o ?raw" off']) simp_all
qed

end

text \<open>The first \<open>n\<close> records have been handled, and the next poll starts behind them.\<close>

definition handles :: "callback \<Rightarrow> event list \<Rightarrow> nat \<Rightarrow> (nat \<Rightarrow> ring_record) \<Rightarrow> (event list \<Rightarrow> nat) \<Rightarrow>
    (event list \<Rightarrow> nat \<Rightarrow> bool) \<Rightarrow> event list \<Rightarrow> nat \<Rightarrow> bool" where
  "handles cb h0 base recs reserved committed evs n \<longleftrightarrow>
     stands_at base recs reserved evs n \<and> handled cb h0 evs = kept_payloads (map recs [0..<n]) \<and> (\<forall>i < n. committed evs i)"

context ring_session
begin

lemma handles_append:
  assumes later: "prefix (evs0 @ evs) run" and old: "handles cb h0 base recs reserved committed evs0 n0"
    and new: "advances base recs reserved committed evs0 n0 evs n" "handled cb (h0 @ evs0) evs = delivered evs"
  shows "handles cb h0 base recs reserved committed (evs0 @ evs) (n0 + n)"
proof -
  have "\<forall>i < n0. committed (evs0 @ evs) i" "\<forall>i < n. committed (evs0 @ evs) (n0 + i)"
    using assms commit_stays by (simp_all add: handles_def advances_def)
  then have "\<forall>i < n0 + n. committed (evs0 @ evs) i"
    using committed_below by blast
  then show ?thesis
    using assms kept_append [of recs n0 n] by (simp add: handles_def advances_def handled_append)
qed

lemma handles_idle:
  assumes "prefix (evs0 @ evs) run" "handles cb h0 base recs reserved committed evs0 n" "handled cb (h0 @ evs0) evs = []"
    "published (rec_pos base recs n) evs = rec_pos base recs n" "freed (rec_pos base recs n) evs = rec_pos base recs n"
  shows "handles cb h0 base recs reserved committed (evs0 @ evs) n"
  using assms reserve_grows [OF assms(1)] commit_stays by (simp add: handles_def stands_at_def handled_append)

lemma handles_quiet:
  assumes "prefix (evs0 @ evs) run" "\<forall>e \<in> set evs. quiet e" "handles cb h0 base recs reserved committed evs0 n"
  shows "handles cb h0 base recs reserved committed (evs0 @ evs) n"
  using handles_idle [OF assms(1,3)] quiet_delivers [OF assms(2)] handled_quiet [OF assms(2)] by simp

text \<open>The loop, left by a panic: more records have been handled, and the next has been delivered in vain.\<close>

lemma loop_unwound:
  assumes old: "handles cb h0 base recs reserved committed evs0 n0" and q: "hist q = h0 @ evs0" and geometry: "ring_mask c = mask k"
    and st: "unbroken w cb c q st" "ring_step_cb w cb c st = Unwinding st'" and h: "hist (process st') = h0 @ evs0 @ evs"
    and later: "prefix (evs0 @ evs) run"
  obtains n where "handles cb h0 base recs reserved committed (evs0 @ evs) n" "n < reserved (evs0 @ evs)"
    "committed (evs0 @ evs) n" "\<not> discarded (recs n)" "\<exists>ds. delivered evs = ds @ [payload (recs n)]"
proof -
  have at: "stands_at base recs reserved evs0 n0"
    using old by (simp add: handles_def)
  note kernel = resumed [OF at geometry later]
  have upto: "prefix (hist (process st')) ((h0 @ evs0) @ evs)"
    by (simp add: h)
  obtain n mid where inv: "delivery_inv (h0 @ evs0) (rec_pos base recs n0) (\<lambda>i. recs (n0 + i))
      (\<lambda>evs. reserved (evs0 @ evs) - n0) (\<lambda>evs i. committed (evs0 @ evs) (n0 + i)) st mid n"
    using ring_kernel.delivers [OF kernel, of q st] st q h step_unwinding(3) [OF st(2)]
    by (fastforce simp: unbroken_def prefix_def)
  obtain e off' where tail: "hist (process st') = (h0 @ evs0) @ mid @ [e, Callback off' (payload (recs (n0 + n)))]"
      "\<forall>b. delivered [e] = [] \<and> published b [e] = b \<and> freed b [e] = b"
      "handled cb ((h0 @ evs0) @ mid) [e, Callback off' (payload (recs (n0 + n)))] = []"
    and next_rec: "n < reserved (evs0 @ mid) - n0" "committed (evs0 @ mid) (n0 + n)" "\<not> discarded (recs (n0 + n))"
    by (rule ring_kernel.unwound_record [OF kernel inv st(2) upto])
  have evs: "evs = mid @ [e, Callback off' (payload (recs (n0 + n)))]"
    using tail(1) h by simp
  then have run: "prefix (evs0 @ mid) run" "prefix ((evs0 @ mid) @ [e, Callback off' (payload (recs (n0 + n)))]) run"
    using later session_begins [of "evs0 @ mid" "[e, Callback off' (payload (recs (n0 + n)))]"] by simp_all
  have "advances base recs reserved committed evs0 n0 mid n" "hist (process st) = h0 @ evs0 @ mid"
    using inv at reserve_grows [OF run(1)] by (auto simp: delivery_inv_def advances_def stands_at_def rec_pos_shift)
  moreover from this st(1) q have "handled cb (h0 @ evs0) mid = delivered mid"
    by (auto simp: unbroken_def)
  ultimately have handled: "handles cb h0 base recs reserved committed (evs0 @ mid) (n0 + n)"
    using handles_append [OF run(1) old] by blast
  have e: "delivered [e] = []" "published b [e] = b" "freed b [e] = b" for b
    using tail(2) by simp_all
  have "handles cb h0 base recs reserved committed ((evs0 @ mid) @ [e] @ [Callback off' (payload (recs (n0 + n)))]) (n0 + n)"
    using run(2) tail(3) by (intro handles_idle [OF _ handled]) (simp_all only: published_append freed_append e, simp_all)
  moreover have "delivered evs = delivered mid @ delivered [e] @ delivered [Callback off' (payload (recs (n0 + n)))]"
    unfolding evs by (simp only: delivered_append [symmetric]) simp
  ultimately show thesis
    using next_rec evs e(1) reserve_grows [OF run(2)] commit_stays [OF run(2)] by (intro that [of "n0 + n"]) simp_all
qed

text \<open>One poll: it returns with some more records handled, or it is left at the next one.\<close>

lemma poll_cb_handles:
  assumes h: "hist p = h0 @ evs0" and old: "handles cb h0 base recs reserved committed evs0 n0"
    and poll: "poll_ringbuf_cb w cb fd p = Some (out, p')" and runs: "prefix (hist p') (h0 @ run)"
  shows "\<exists>evs n. hist p' = h0 @ evs0 @ evs \<and> handles cb h0 base recs reserved committed (evs0 @ evs) n
    \<and> (out = Unwinds \<longrightarrow> n < reserved (evs0 @ evs) \<and> committed (evs0 @ evs) n \<and> \<not> discarded (recs n)
         \<and> (\<exists>ds. delivered (evs0 @ evs) = ds @ [payload (recs n)]))"
proof (cases out)
  case (Returns r)
  note returned = poll_cb_returned [OF poll [unfolded Returns]]
  have at: "stands_at base recs reserved evs0 n0"
    using old by (simp add: handles_def)
  obtain evs n where evs: "hist p' = h0 @ evs0 @ evs" "prefix (evs0 @ evs) run" "advances base recs reserved committed evs0 n0 evs n"
    by (rule poll_advances [OF h at returned(1) runs])
  moreover from evs(1) returned(2) h have "handled cb (h0 @ evs0) evs = delivered evs"
    by auto
  ultimately show ?thesis
    using handles_append [OF _ old] Returns by blast
next
  case Unwinds
  from poll obtain info ps p1 p2 c p3 q st st' pre post where
    made: "map_info w fd p = (Ok info, p1)" "ringbuf_consumer_new w fd (ucast (max_entries info)) ps p2 = (Ok c, p3)"
    and pre: "hist q = h0 @ evs0 @ pre" "\<forall>e \<in> set pre. quiet e"
    and st: "unbroken w cb c q st" "ring_step_cb w cb c st = Unwinding st'"
    and post: "hist p' = hist (process st') @ post" "\<forall>e \<in> set post. quiet e"
    unfolding Unwinds by (rule poll_cb_unwound) (simp add: h)
  obtain mid where mid: "hist (process st') = h0 @ (evs0 @ pre) @ mid"
    using st(1) step_unwinding(3) [OF st(2)] pre(1) by (fastforce simp: unbroken_def)
  have all: "prefix (((evs0 @ pre) @ mid) @ post) run"
    using runs post(1) mid by simp
  note part = session_begins [OF all] and start = session_begins [OF session_begins [OF all]]
  obtain n where n: "handles cb h0 base recs reserved committed ((evs0 @ pre) @ mid) n"
    "n < reserved ((evs0 @ pre) @ mid)" "committed ((evs0 @ pre) @ mid) n" "\<not> discarded (recs n)"
    "\<exists>ds. delivered mid = ds @ [payload (recs n)]"
    by (rule loop_unwound [OF handles_quiet [OF start pre(2) old] _ mapped_mask [OF made] st mid part]) (simp add: pre(1))
  have "handles cb h0 base recs reserved committed (((evs0 @ pre) @ mid) @ post) n"
    by (rule handles_quiet [OF all post(2) n(1)])
  moreover have "\<exists>ds. delivered (evs0 @ pre @ mid @ post) = ds @ [payload (recs n)]"
    using n(5) quiet_delivers [OF post(2)] by auto
  ultimately show ?thesis
    using mid n post(1) reserve_grows [OF all] commit_stays [OF all, of n]
    by (intro exI [of _ "pre @ mid @ post"] exI [of _ n]) simp
qed

lemma polls_cb_handle:
  assumes "poll_times_cb w cb fd m p = Some (outs, p')" "hist p = h0" "prefix (hist p') (h0 @ run)"
  shows "\<exists>evs n. hist p' = h0 @ evs \<and> handles cb h0 base recs reserved committed evs n
    \<and> (outs \<noteq> [] \<and> last outs = Unwinds \<longrightarrow> n < reserved evs \<and> committed evs n \<and> \<not> discarded (recs n)
         \<and> (\<exists>ds. delivered evs = ds @ [payload (recs n)]))"
  using assms(1,3)
proof (induction m arbitrary: outs p')
  case 0
  then have "hist p' = h0 @ []" "handles cb h0 base recs reserved committed [] 0" "outs = []"
    using assms(2) by (simp_all add: handles_def stands_at_def kept_payloads_def)
  then show ?case by blast
next
  case (Suc m)
  from Suc.prems obtain outs0 q out where q: "poll_times_cb w cb fd m p = Some (outs0, q)"
    and poll: "poll_ringbuf_cb w cb fd q = Some (out, p')" and outs: "outs = outs0 @ [out]"
    by (auto split: option.splits)
  have "prefix (hist q) (h0 @ run)"
    using prefix_order.order_trans [OF poll_cb_appends [OF poll] Suc.prems(2)] .
  with Suc.IH [OF q] obtain evs0 n0 where "hist q = h0 @ evs0" "handles cb h0 base recs reserved committed evs0 n0"
    by blast
  from poll_cb_handles [OF this poll Suc.prems(2)] outs show ?case by fastforce
qed

end

section \<open>A callback that always panics\<close>

definition zero_world :: world where
  "zero_world = hostile_world\<lparr>kshared := \<lambda>h. \<lparr>view_consumer = 0, view_producer = 64, view_cell = (\<lambda>_. 0)\<rparr>\<rparr>"

lemma zero_consume_panics:
  assumes "ring_mask c = 0xFFF"
  shows "\<exists>q. consume_ring_records_cb zero_world (\<lambda>_ _. True) c p = Some (Unwinding q)"
proof -
  let ?b = "\<lambda>s. case s of Normal st \<Rightarrow> phase st \<noteq> Returned | Unwinding st \<Rightarrow> False"
  let ?step = "\<lambda>s. case s of Normal st \<Rightarrow> ring_step_cb zero_world (\<lambda>_ _. True) c st | Unwinding st \<Rightarrow> Unwinding st"
  have cells: "kshared zero_world h = \<lparr>view_consumer = 0, view_producer = 64, view_cell = (\<lambda>_. 0)\<rparr>" for h
    by (simp add: zero_world_def)
  have pass: "\<exists>st'. process_record_cb zero_world (\<lambda>_ _. True) c st = Unwinding st'" if "consumer_pos st = 0" for st
    using that assms by (simp add: process_record_cb_def cells header_len_def ring_header_def cell_u32_def
        record_within_mapping_iff checked_add_def BPF_RINGBUF_HDR_SZ_def Let_def)
  define st where "st = ring_step zero_world c (ring_start zero_world p)"
  have st: "phase st = Scan" "consumer_pos st = 0" "producer_pos st = 64"
    by (simp_all add: st_def ring_step_def ring_start_def cells Let_def)
  obtain st' where st': "ring_step_cb zero_world (\<lambda>_ _. True) c st = Unwinding st'"
    using pass st by (auto simp: ring_step_cb_def)
  have "?step (Normal (ring_start zero_world p)) = Normal st"
    by (simp add: st_def ring_step_cb_def ring_step_def ring_start_def Let_def)
  then have "while_option ?b ?step (Normal (ring_start zero_world p)) = while_option ?b ?step (Normal st)"
    by (subst while_option_unfold) (simp add: ring_start_def Let_def)
  also have "\<dots> = while_option ?b ?step (Unwinding st')"
    by (subst while_option_unfold) (simp add: st(1) st')
  also have "\<dots> = Some (Unwinding st')"
    by (subst while_option_unfold) simp
  finally show ?thesis
    by (simp add: consume_ring_records_cb_def)
qed

lemma zero_poll_unwinds:
  "\<exists>p'. poll_ringbuf_cb zero_world (\<lambda>_ _. True) 3 \<lparr>hist = [], page_cache = None, warned = False\<rparr> = Some (Unwinds, p')"
proof -
  obtain f where f: "\<And>c p. ring_mask c = 0xFFF \<Longrightarrow> consume_ring_records_cb zero_world (\<lambda>_ _. True) c p = Some (Unwinding (f c p))"
    using zero_consume_panics by metis
  have "kcall zero_world = kcall hostile_world"
    by (simp add: zero_world_def)
  moreover have "epoll_wait zero_world ep p = Some (Ok (), snd (call zero_world (Epoll_wait ep) p))" for ep p
    by (subst epoll_wait_unfold) (simp add: zero_world_def hostile_world_def call_def failed_def Let_def)
  ultimately show ?thesis
    by (simp add: poll_ringbuf_cb_def map_info_def page_size_of_def ringbuf_consumer_new_def epoll_new_def epoll_add_def f
        call_def failed_def hostile_world_def checked_mul_def checked_add_def MAP_FAILED_def BPF_MAP_TYPE_RINGBUF_def Let_def)
qed

section \<open>Properties\<close>

text \<open>
  C6: exactly once, with panics. A client polls a ring any number of times and catches the panics of its
  callback, and at every moment of the session the kernel keeps its contract (a record stays intact until the position
  behind it has been published, after which its space may be used again). Then the calls of the callback that returned, over the whole session, have received the payloads
  of the first \<open>n\<close> records that are not discarded, in order and once each; the shared page keeps the end of
  record \<open>n\<close>; and if the last poll ended in a panic, it was the delivery of the next record, committed
  and not discarded, which the next poll therefore delivers again. No record is lost to a panic.
\<close>

theorem panicking_polls_handle_exactly_once:
  assumes "poll_times_cb w cb fd m p = Some (outs, p')" "hist p' = hist p @ evs"
    and "ring_session w fd (hist p) evs k base recs reserved committed"
  shows "\<exists>n. handled cb (hist p) evs = kept_payloads (map recs [0..<n])
    \<and> n \<le> reserved evs \<and> (\<forall>i < n. committed evs i)
    \<and> view_consumer (kshared w (hist p')) = of_nat (rec_pos base recs n)
    \<and> (outs \<noteq> [] \<and> last outs = Unwinds \<longrightarrow> n < reserved evs \<and> committed evs n \<and> \<not> discarded (recs n)
         \<and> (\<exists>ds. delivered evs = ds @ [payload (recs n)]))"
  using ring_session.polls_cb_handle [OF assms(3,1) refl] ring_session.consumer_page [OF assms(3), of evs] assms(2)
  by (fastforce simp: handles_def stands_at_def)

theorem panicking_polls_handle_exactly_once_witness:
  "\<exists>outs p' n. poll_times_cb (feed_world 5 0x18 demo_feed) (\<lambda>h bs. delivered h = []) 3 7 \<lparr>hist = [], page_cache = None, warned = False\<rparr>
       = Some (outs, p')
     \<and> handled (\<lambda>h bs. delivered h = []) [] (hist p') = kept_payloads (map (log_recs demo_feed) [0..<n])"
proof -
  let ?p = "\<lparr>hist = [], page_cache = None, warned = False\<rparr>" and ?w = "feed_world 5 0x18 demo_feed"
  let ?cb = "\<lambda>h bs. delivered h = []"
  obtain outs p' where polls: "poll_times_cb ?w ?cb 3 7 ?p = Some (outs, p')"
    using polls_cb_return [OF feed_serves [OF demo_feed_valid], where cb = ?cb and m = 7 and p = ?p] by blast
  have "ring_session ?w 3 (hist ?p) (hist p') 5 0x18 (log_recs demo_feed)
      (feed_reserved 5 0x18 demo_feed) (feed_committed 5 0x18 demo_feed)"
    using feed_session [OF demo_feed_valid] by simp
  from panicking_polls_handle_exactly_once [OF polls _ this] polls show ?thesis by auto
qed

text \<open>
  C10: no silent leak. However \<open>poll_ringbuf\<close> is left, by returning or by a panic of the callback, the
  mappings and the epoll descriptor it acquired are exactly those that it, or the unwinding, gave back, and those
  whose unmapping the kernel refused; and each refusal is followed at once by the line that says that the mapping may be leaked.
\<close>

theorem panicking_poll_balanced:
  assumes "poll_ringbuf_cb w cb map_fd p = Some (out, p')" and "cache_ok p"
  shows "\<exists>evs. hist p' = hist p @ evs \<and> acquired evs = released evs + leaked evs \<and> leaks_reported evs"
  using poll_cb_effect [OF assms] by (auto simp: effect_def disposed_split)

theorem panicking_poll_balanced_witness:
  "\<exists>p' evs. poll_ringbuf_cb zero_world (\<lambda>_ _. True) 3 \<lparr>hist = [], page_cache = None, warned = False\<rparr> = Some (Unwinds, p')
     \<and> hist p' = evs \<and> acquired evs = released evs + leaked evs \<and> leaks_reported evs"
proof -
  obtain p' where poll: "poll_ringbuf_cb zero_world (\<lambda>_ _. True) 3 \<lparr>hist = [], page_cache = None, warned = False\<rparr> = Some (Unwinds, p')"
    using zero_poll_unwinds by blast
  from panicking_poll_balanced [OF this] poll show ?thesis
    by (auto simp: cache_ok_def)
qed

end
