(* ===== verification/Class_Grammar.thy ===== *)
theory Class_Grammar
  imports Class_Semantics
begin

text \<open>
  The language of character classes, as a grammar. The parser works in two passes, over tokens and an index
  with look-ahead; here a class text is a sequence of items read directly off the bytes: a range of two
  literal bytes, a literal byte, a dash that stands for itself, an escape for a set. The parser
  accepts exactly the texts of the grammar, with the ranges the grammar gives them; what it reports on any
  other text is a defect that the text has.
\<close>

section \<open>The grammar\<close>

abbreviation backslash :: u8 where "backslash \<equiv> 0x5C"
abbreviation dash :: u8 where "dash \<equiv> 0x2D"

definition literal_escape :: "u8 \<Rightarrow> u8 option" where
  "literal_escape = map_of [(byte CHR ''n'', 10), (byte CHR ''r'', 13), (byte CHR ''t'', 9), (backslash, backslash),
     (byte CHR '']'', byte CHR '']''), (byte CHR ''['', byte CHR ''[''), (dash, dash), (byte CHR ''.'', byte CHR ''.'')]"

definition set_escape :: "u8 \<Rightarrow> pattern_range list option" where
  "set_escape = map_of [(byte CHR ''d'', [Span (byte CHR ''0'') (byte CHR ''9'')]),
     (byte CHR ''s'', [Span 9 13, Single (byte CHR '' '')]),
     (byte CHR ''w'', [Span (byte CHR ''a'') (byte CHR ''z''), Span (byte CHR ''A'') (byte CHR ''Z''),
        Span (byte CHR ''0'') (byte CHR ''9''), Single (byte CHR ''_'')])]"

text \<open>The texts of one literal byte.\<close>

inductive literal :: "u8 list \<Rightarrow> u8 \<Rightarrow> bool" where
  plain_byte: "b \<noteq> backslash \<Longrightarrow> b \<noteq> dash \<Longrightarrow> literal [b] b"
| escaped_byte: "literal_escape c = Some b \<Longrightarrow> literal [backslash, c] b"

text \<open>
  The texts of a class and the ranges they mean. A literal that is followed by a dash and a literal is
  the start of a range, and a dash that stands for itself is not followed by another one.
\<close>

definition range_follows :: "u8 list \<Rightarrow> bool" where
  "range_follows t \<longleftrightarrow> (\<exists>v b t'. t = dash # v @ t' \<and> literal v b)"

inductive denotes :: "u8 list \<Rightarrow> pattern_range list \<Rightarrow> bool" where
  no_item: "denotes [] []"
| range_item: "literal u a \<Longrightarrow> literal v b \<Longrightarrow> a \<le> b \<Longrightarrow> denotes t rs \<Longrightarrow> denotes (u @ dash # v @ t) (Span a b # rs)"
| byte_item: "literal u a \<Longrightarrow> \<not> range_follows t \<Longrightarrow> denotes t rs \<Longrightarrow> denotes (u @ t) (Single a # rs)"
| dash_item: "take 1 t \<noteq> [dash] \<Longrightarrow> denotes t rs \<Longrightarrow> denotes (dash # t) (Single dash # rs)"
| set_item: "set_escape c = Some s \<Longrightarrow> denotes t rs \<Longrightarrow> denotes (backslash # c # t) (s @ rs)"

text \<open>A valid UTF-8 text with a byte outside ASCII has a code point that no single byte can match.\<close>

definition wide_text :: "u8 list \<Rightarrow> bool" where
  "wide_text cls \<longleftrightarrow> from_utf8_ok cls \<and> (\<exists>b \<in> set cls. b \<ge> 0x80)"

text \<open>
  Texts that fall into literals, dashes and sets, and the defects a text can have. Whether a
  backslash begins an escape depends on what is before it, so each is found after such a text.
\<close>

inductive lexes :: "u8 list \<Rightarrow> bool" where
  lexes_empty: "lexes []"
| lexes_literal: "literal u a \<Longrightarrow> lexes t \<Longrightarrow> lexes (u @ t)"
| lexes_dash: "lexes t \<Longrightarrow> lexes (dash # t)"
| lexes_set: "set_escape c = Some s \<Longrightarrow> lexes t \<Longrightarrow> lexes (backslash # c # t)"

inductive defect :: "u8 list \<Rightarrow> string \<Rightarrow> bool" where
  unterminated: "lexes pre \<Longrightarrow> defect (pre @ [backslash]) ''unterminated character-class escape''"
| negated: "lexes pre \<Longrightarrow> c \<in> {byte CHR ''D'', byte CHR ''S'', byte CHR ''W''} \<Longrightarrow>
    defect (pre @ backslash # c # rest) ''negated character-class escapes are not supported''"
| unknown: "lexes pre \<Longrightarrow> literal_escape c = None \<Longrightarrow> set_escape c = None \<Longrightarrow>
    defect (pre @ backslash # c # rest) ''unknown character-class escape sequence''"
| reversed: "lexes pre \<Longrightarrow> literal u a \<Longrightarrow> literal v b \<Longrightarrow> b < a \<Longrightarrow>
    defect (pre @ u @ dash # v @ rest) ''character class range endpoints are reversed''"
| dashes: "lexes pre \<Longrightarrow>
    defect (pre @ dash # dash # rest) ''character class contains consecutive unescaped dashes''"

section \<open>Scanning\<close>

lemma decode_escape_eq:
  "decode_character_class_escape (x # c # cs) =
     (case literal_escape c of Some b \<Rightarrow> Ok (Byte b, 2)
      | None \<Rightarrow> (case set_escape c of Some s \<Rightarrow> Ok (Class s, 2)
        | None \<Rightarrow> if c \<in> {byte CHR ''D'', byte CHR ''S'', byte CHR ''W''}
            then Err (InvalidPattern ''negated character-class escapes are not supported'')
            else Err (InvalidPattern ''unknown character-class escape sequence'')))"
  by (simp add: decode_character_class_escape_def Let_def literal_escape_def set_escape_def)

lemma scan_dash_byte: "scan_tokens (dash # t) = try_bind (scan_tokens t) (\<lambda>ts. Ok (Dash # ts))"
  by simp

lemma scan_escape:
  "scan_tokens (backslash # c # t) =
     (case literal_escape c of Some b \<Rightarrow> try_bind (scan_tokens t) (\<lambda>ts. Ok (Byte b # ts))
      | None \<Rightarrow> (case set_escape c of Some s \<Rightarrow> try_bind (scan_tokens t) (\<lambda>ts. Ok (Class s # ts))
        | None \<Rightarrow> if c \<in> {byte CHR ''D'', byte CHR ''S'', byte CHR ''W''}
            then Err (InvalidPattern ''negated character-class escapes are not supported'')
            else Err (InvalidPattern ''unknown character-class escape sequence'')))"
  by (simp add: decode_escape_eq split: option.split)

lemma scan_last_backslash: "scan_tokens [backslash] = Err (InvalidPattern ''unterminated character-class escape'')"
  by (simp add: decode_character_class_escape_def)

lemma scan_plain:
  "c \<noteq> backslash \<Longrightarrow> c \<noteq> dash \<Longrightarrow> scan_tokens (c # t) = try_bind (scan_tokens t) (\<lambda>ts. Ok (Byte c # ts))"
  by simp

lemma scan_literal: "literal u a \<Longrightarrow> scan_tokens (u @ t) = try_bind (scan_tokens t) (\<lambda>ts. Ok (Byte a # ts))"
  by (cases rule: literal.cases, assumption) (simp_all only: append_Cons append_Nil scan_plain scan_escape, simp_all)

text \<open>The first token of a text that scans, and the text before the rest.\<close>

lemma scan_tokens_cases:
  assumes "scan_tokens cls = Ok ts"
  obtains (none) "cls = []" "ts = []"
  | (byte) u a t ts' where "literal u a" "cls = u @ t" "ts = Byte a # ts'" "scan_tokens t = Ok ts'"
  | (dash) t ts' where "cls = dash # t" "ts = Dash # ts'" "scan_tokens t = Ok ts'"
  | (set) c s t ts' where "set_escape c = Some s" "cls = backslash # c # t" "ts = Class s # ts'" "scan_tokens t = Ok ts'"
proof (cases cls)
  case (Cons x xs)
  consider "x = dash" | "x = backslash" "xs = []" | c t where "x = backslash" "xs = c # t" | "x \<noteq> dash" "x \<noteq> backslash"
    by (cases xs) auto
  then show thesis
  proof cases
    case (3 c t)
    then show thesis
      using assms Cons byte [of "[backslash, c]" _ t] set [of c _ t]
      by (auto simp: scan_escape escaped_byte simp del: scan_tokens.simps split: option.splits if_splits)
  next
    case 4
    then show thesis
      using assms Cons byte [of "[x]" x xs] by (auto simp: scan_plain plain_byte simp del: scan_tokens.simps)
  qed (use assms Cons dash scan_last_backslash in \<open>auto simp: scan_dash_byte simp del: scan_tokens.simps\<close>)
qed (use assms none in simp)

lemma range_follows_tokens:
  assumes "scan_tokens t = Ok ts"
  shows "range_follows t \<longleftrightarrow> (\<exists>b ts'. ts = Dash # Byte b # ts')"
proof
  assume "range_follows t"
  then obtain v b t' where "t = dash # v @ t'" "literal v b"
    by (auto simp: range_follows_def)
  then show "\<exists>b ts'. ts = Dash # Byte b # ts'"
    using assms by (auto simp: scan_dash_byte scan_literal simp del: scan_tokens.simps)
next
  assume "\<exists>b ts'. ts = Dash # Byte b # ts'"
  then obtain b ts' t' where t: "t = dash # t'" "scan_tokens t' = Ok (Byte b # ts')"
    using assms by (auto elim: scan_tokens_cases)
  from t(2) obtain v t'' where "literal v b" "t' = v @ t''"
    by (auto elim: scan_tokens_cases)
  then show "range_follows t"
    using t(1) by (auto simp: range_follows_def)
qed

lemma dash_follows_tokens:
  assumes "scan_tokens t = Ok ts"
  shows "take 1 t = [dash] \<longleftrightarrow> (\<exists>ts'. ts = Dash # ts')"
  using assms
proof (cases rule: scan_tokens_cases)
  case (byte u a t' ts')
  then show ?thesis
    by (cases rule: literal.cases) auto
qed auto

section \<open>Reading ranges\<close>

lemma tokens_to_ranges_byte:
  "\<nexists>b ts'. ts = Dash # Byte b # ts' \<Longrightarrow>
    tokens_to_ranges (Byte a # ts) = try_bind (tokens_to_ranges ts) (\<lambda>rs. Ok (Single a # rs))"
  by (cases "Byte a # ts" rule: tokens_to_ranges.cases) auto

lemma tokens_to_ranges_dash:
  "\<nexists>ts'. ts = Dash # ts' \<Longrightarrow>
    tokens_to_ranges (Dash # ts) = try_bind (tokens_to_ranges ts) (\<lambda>rs. Ok (Single dash # rs))"
  by (cases "Dash # ts" rule: tokens_to_ranges.cases) auto

lemma denotes_scans:
  assumes "denotes cls rs"
  shows "\<exists>ts. scan_tokens cls = Ok ts \<and> tokens_to_ranges ts = Ok rs"
  using assms
proof induction
  case (range_item u a v b t rs)
  then show ?case
    by (auto simp: scan_dash_byte scan_literal simp del: scan_tokens.simps)
next
  case (byte_item u a t rs)
  then show ?case
    using range_follows_tokens [of t] by (auto simp: scan_literal tokens_to_ranges_byte)
next
  case (dash_item t rs)
  then show ?case
    using dash_follows_tokens [of t] by (auto simp: scan_dash_byte tokens_to_ranges_dash simp del: scan_tokens.simps)
next
  case (set_item c s t rs)
  moreover from this(1) have "literal_escape c = None"
    by (auto simp: set_escape_def literal_escape_def split: if_splits)
  ultimately show ?case
    by (auto simp: scan_escape simp del: scan_tokens.simps)
qed simp

lemma scan_range:
  assumes "scan_tokens t = Ok (Dash # Byte b # ts)"
  obtains v t' where "t = dash # v @ t'" "literal v b" "scan_tokens t' = Ok ts"
proof -
  obtain t0 where "t = dash # t0" "scan_tokens t0 = Ok (Byte b # ts)"
    using assms by (auto elim: scan_tokens_cases)
  moreover from this(2) obtain v t' where "literal v b" "t0 = v @ t'" "scan_tokens t' = Ok ts"
    by (auto elim: scan_tokens_cases)
  ultimately show thesis
    using that by simp
qed

lemma scanned_denotes:
  assumes "scan_tokens cls = Ok ts" "tokens_to_ranges ts = Ok rs"
  shows "denotes cls rs"
  using assms
proof (induction ts arbitrary: cls rs rule: length_induct)
  case (1 ts)
  note IH = "1.IH" [rule_format]
  from "1.prems"(1) show ?case
  proof (cases rule: scan_tokens_cases)
    case none
    with "1.prems"(2) show ?thesis by (simp add: no_item)
  next
    case (byte u a t ts')
    show ?thesis
    proof (cases "\<exists>b ts''. ts' = Dash # Byte b # ts''")
      case True
      then obtain b ts'' where ts': "ts' = Dash # Byte b # ts''"
        by blast
      from byte(4) obtain v t' where v: "t = dash # v @ t'" "literal v b" "scan_tokens t' = Ok ts''"
        unfolding ts' by (rule scan_range)
      obtain rs' where "a \<le> b" "rs = Span a b # rs'" "tokens_to_ranges ts'' = Ok rs'"
        using "1.prems"(2) byte(3) ts' by (auto simp: not_less split: if_splits)
      then show ?thesis
        using IH [of ts'' t' rs'] byte ts' v by (auto intro: range_item)
    next
      case False
      then obtain rs' where "rs = Single a # rs'" "tokens_to_ranges ts' = Ok rs'"
        using "1.prems"(2) byte(3) by (auto simp: tokens_to_ranges_byte)
      then show ?thesis
        using IH [of ts' t rs'] byte False range_follows_tokens [OF byte(4)] by (auto intro: byte_item)
    qed
  next
    case (dash t ts')
    have "\<nexists>ts''. ts' = Dash # ts''"
      using "1.prems"(2) dash(2) by auto
    then obtain rs' where "rs = Single dash # rs'" "tokens_to_ranges ts' = Ok rs'" "take 1 t \<noteq> [dash]"
      using "1.prems"(2) dash(2) dash_follows_tokens [OF dash(3)] by (auto simp: tokens_to_ranges_dash)
    then show ?thesis
      using IH [of ts' t rs'] dash by (auto intro: dash_item)
  next
    case (set c s t ts')
    then obtain rs' where "rs = s @ rs'" "tokens_to_ranges ts' = Ok rs'"
      using "1.prems"(2) by auto
    then show ?thesis
      using IH [of ts' t rs'] set by (auto intro: set_item)
  qed
qed

lemma denotes_iff: "denotes cls rs \<longleftrightarrow> (\<exists>ts. scan_tokens cls = Ok ts \<and> tokens_to_ranges ts = Ok rs)"
  using denotes_scans scanned_denotes by blast

lemma parse_iff_denotes: "parse_character_class cls = Ok rs \<longleftrightarrow> \<not> wide_text cls \<and> denotes cls rs"
  by (auto simp: parse_character_class_def denotes_iff wide_text_def)

section \<open>Refusals\<close>

lemma lexes_append: "lexes xs \<Longrightarrow> lexes ys \<Longrightarrow> lexes (xs @ ys)"
  by (induction rule: lexes.induct) (simp_all add: lexes.intros)

lemma lexes_items:
  "literal u a \<Longrightarrow> lexes u" "lexes [dash]" "set_escape c = Some s \<Longrightarrow> lexes [backslash, c]"
  using lexes_literal [OF _ lexes_empty] lexes_dash [OF lexes_empty] lexes_set [OF _ lexes_empty] by auto

lemma defect_after:
  assumes "lexes pre" "defect t reason"
  shows "defect (pre @ t) reason"
  using assms(2)
  by cases (use assms(1) lexes_append defect.intros in \<open>auto simp flip: append_assoc\<close>)

lemma scan_defect:
  assumes "scan_tokens cls = Err e"
  shows "\<exists>reason. e = InvalidPattern reason \<and> defect cls reason"
  using assms
proof (induction cls rule: length_induct)
  case (1 cls)
  have rest: "\<exists>reason. e = InvalidPattern reason \<and> defect cls reason"
    if "cls = pre @ t" "pre \<noteq> []" "lexes pre" "scan_tokens t = Err e" for pre t
    using "1.IH" [rule_format, of t] that defect_after by auto
  obtain x xs where "cls = x # xs"
    using "1.prems" by (cases cls) auto
  then consider t where "cls = dash # t" | "cls = [backslash]" | c t where "cls = backslash # c # t"
    | t where "cls = x # t" "x \<noteq> dash" "x \<noteq> backslash"
    by (cases xs) auto
  then show ?case
  proof cases
    case (1 t)
    then show ?thesis
      using "1.prems" rest [of "[dash]" t] by (simp add: scan_dash_byte lexes_items try_bind_Inl_iff del: scan_tokens.simps)
  next
    case 2
    then show ?thesis
      using "1.prems" unterminated [OF lexes_empty] by (auto simp: scan_last_backslash simp del: scan_tokens.simps)
  next
    case (3 c t)
    then show ?thesis
      using "1.prems" rest [of "[backslash, c]" t] negated [OF lexes_empty, of c t] unknown [OF lexes_empty, of c t]
        lexes_items(1) [OF escaped_byte, of c]
      by (auto simp: scan_escape lexes_items try_bind_Inl_iff simp del: scan_tokens.simps split: option.splits if_splits)
  next
    case (4 t)
    then show ?thesis
      using "1.prems" rest [of "[x]" t] lexes_items(1) [OF plain_byte, of x]
      by (auto simp: scan_plain try_bind_Inl_iff simp del: scan_tokens.simps)
  qed
qed

lemma range_defect:
  assumes "scan_tokens cls = Ok ts" "tokens_to_ranges ts = Err e"
  shows "\<exists>reason. e = InvalidPattern reason \<and> defect cls reason"
  using assms
proof (induction ts arbitrary: cls rule: length_induct)
  case (1 ts)
  have rest: "\<exists>reason. e = InvalidPattern reason \<and> defect cls reason"
    if "cls = pre @ t" "lexes pre" "scan_tokens t = Ok us" "length us < length ts" "tokens_to_ranges us = Err e" for pre t us
    using "1.IH" [rule_format, of us t] that defect_after by auto
  from "1.prems"(1) show ?case
  proof (cases rule: scan_tokens_cases)
    case none
    with "1.prems"(2) show ?thesis by simp
  next
    case (byte u a t ts')
    show ?thesis
    proof (cases "\<exists>b ts''. ts' = Dash # Byte b # ts''")
      case True
      then obtain b ts'' where ts': "ts' = Dash # Byte b # ts''"
        by blast
      from byte(4) obtain v t' where v: "t = dash # v @ t'" "literal v b" "scan_tokens t' = Ok ts''"
        unfolding ts' by (rule scan_range)
      have "lexes (u @ dash # v)"
        using byte(1) v(2) by (intro lexes_append lexes_dash) (simp_all add: lexes_items)
      then show ?thesis
        using "1.prems"(2) byte ts' v rest [of "u @ dash # v" t' ts''] reversed [OF lexes_empty byte(1) v(2), of t']
        by (auto simp: try_bind_Inl_iff split: if_splits)
    next
      case False
      then show ?thesis
        using "1.prems"(2) byte rest [of u t ts'] by (auto simp: tokens_to_ranges_byte try_bind_Inl_iff lexes_items)
    qed
  next
    case (dash t ts')
    show ?thesis
    proof (cases "\<exists>ts''. ts' = Dash # ts''")
      case True
      then obtain t' where "t = dash # t'"
        using dash(3) by (auto elim: scan_tokens_cases)
      then show ?thesis
        using "1.prems"(2) dash True dashes [OF lexes_empty, of t'] by auto
    next
      case False
      then show ?thesis
        using "1.prems"(2) dash rest [of "[dash]" t ts'] by (auto simp: tokens_to_ranges_dash try_bind_Inl_iff lexes_items)
    qed
  next
    case (set c s t ts')
    then show ?thesis
      using "1.prems"(2) rest [of "[backslash, c]" t ts'] by (auto simp: try_bind_Inl_iff lexes_items)
  qed
qed

section \<open>Properties\<close>

text \<open>
  C13: the parser implements the grammar. It accepts a class text exactly if the text is not a UTF-8 text with
  characters outside ASCII and the grammar has a reading of it, and returns the ranges of that
  reading; in particular no text has two readings.
\<close>

theorem parser_accepts_grammar:
  "parse_character_class cls = Ok rs \<longleftrightarrow> \<not> (from_utf8_ok cls \<and> (\<exists>b \<in> set cls. b \<ge> 0x80)) \<and> denotes cls rs"
  using parse_iff_denotes by (simp only: wide_text_def)

text \<open>
  C23: refusals are truthful: a text is refused either because it is UTF-8 with characters outside
  ASCII, with that message, or because it has a defect, and the message names that defect: an
  escape without its character, a negated set, an unknown escape, a range with its ends the wrong way
  round, two dashes in a row.
\<close>

theorem parser_refusals_truthful:
  assumes "parse_character_class cls = Err e"
  shows "(\<exists>b \<in> set cls. b \<ge> 0x80) \<and> from_utf8_ok cls \<and> e = InvalidPattern
      ''character class contains non-ASCII codepoints; use raw bytes or an escape sequence''
    \<or> (\<exists>reason. e = InvalidPattern reason \<and> defect cls reason)"
  using assms scan_defect range_defect by (auto simp: parse_character_class_def try_bind_Inl_iff split: if_splits)

theorem parser_refusals_truthful_witness: "\<exists>reason. defect [0x7A, 0x2D, 0x61] reason"
proof -
  have "parse_character_class [0x7A, 0x2D, 0x61] = Err (InvalidPattern ''character class range endpoints are reversed'')"
    by (simp add: parse_character_class_def)
  from parser_refusals_truthful [OF this] show ?thesis by auto
qed

text \<open>
  C14: from the grammar to the verdict, for every class text that has a reading: a UTF-8 text with characters outside
  ASCII is refused with that reason; a reading of more than 2046 ranges is refused as too long, by the number of
  instructions it would need; every other text compiles, raw bytes included, and the program, on
  every byte, terminates without panic and answers 1 exactly if one of the ranges of the reading contains
  the byte.
\<close>

theorem grammar_decides:
  assumes "denotes cls rs" "length cls < 2 ^ 61"
  shows "if from_utf8_ok cls \<and> (\<exists>b \<in> set cls. b \<ge> 0x80) then
      compile_character_class cls = Some (Err (InvalidPattern
        ''character class contains non-ASCII codepoints; use raw bytes or an escape sequence''))
    else if length rs > 2046 then
      compile_character_class cls = Some (Err (PatternTooLong (of_nat (4 + 2 * length rs)) 4096))
    else \<exists>prog. compile_character_class cls = Some (Ok prog)
      \<and> (\<forall>b. run_char_class prog b = Some (if \<exists>r \<in> set rs. range_member b r then 1 else 0))"
proof (cases "wide_text cls")
  case True
  then show ?thesis
    using assms by (auto simp: wide_text_def compile_character_class_eq parse_character_class_def)
next
  case narrow: False
  then have parse: "parse_character_class cls = Ok rs"
    using assms(1) by (simp add: parse_iff_denotes)
  show ?thesis
  proof (cases "cls = []")
    case True
    with parse have "rs = []"
      by (simp add: parse_character_class_def)
    then show ?thesis
      using True by (auto simp: compile_character_class_def run_reject_all)
  next
    case False
    then show ?thesis
      using narrow parse assms(2)
      by (auto simp: wide_text_def compile_character_class_eq run_class_program in_ranges_to_char_range)
  qed
qed

theorem grammar_decides_witness:
  "\<exists>prog. compile_character_class [0x5C, 0x64, 0xE9] = Some (Ok prog)
    \<and> (\<forall>b. run_char_class prog b = Some (if \<exists>r \<in> set [Span 0x30 0x39, Single 0xE9]. range_member b r then 1 else 0))"
proof -
  have "denotes ([0xE9] @ []) [Single 0xE9]"
    by (rule byte_item [OF plain_byte]) (simp_all add: no_item range_follows_def)
  then have "denotes (backslash # 0x64 # [0xE9]) ([Span 0x30 0x39] @ [Single 0xE9])"
    by (intro set_item) (simp_all add: set_escape_def)
  then have "denotes [0x5C, 0x64, 0xE9] [Span 0x30 0x39, Single 0xE9]"
    by simp
  moreover have "\<not> from_utf8_ok [0x5C, 0x64, 0xE9]"
    by code_simp
  ultimately show ?thesis
    using grammar_decides [of "[0x5C, 0x64, 0xE9]" "[Span 0x30 0x39, Single 0xE9]"] by simp
qed

end
