(* ===== verification/Debug_Profile.thy ===== *)
theory Debug_Profile
  imports Layout
begin

text \<open>
  The compiler as a debug build runs it. The definitions of \<open>Codegen\<close> follow the release profile, in which
  the operators \<open>+\<close>, \<open>-\<close> and \<open>*\<close> wrap; in the debug profile, under which the tests of the crate run, an
  overflow is a panic. Here the three compile functions and the estimates are written with every such
  operator checked, \<open>None\<close> being the panic, and shown to agree with the release
  definitions: no input overflows anything. Casts with \<open>as\<close> truncate in both profiles.
\<close>

unbundle bit_operations_syntax

section \<open>Checked operators\<close>

text \<open>Indices are \<open>usize\<close> values that come from lengths; \<open>isize\<close> values are their differences.\<close>

definition index_add :: "nat \<Rightarrow> nat \<Rightarrow> nat option" where
  "index_add a b = (if a + b < 2 ^ 64 then Some (a + b) else None)"

definition index_sub :: "nat \<Rightarrow> nat \<Rightarrow> nat option" where
  "index_sub a b = (if b \<le> a then Some (a - b) else None)"

definition isize_sub :: "int \<Rightarrow> int \<Rightarrow> int option" where
  "isize_sub a b = (if - (2 ^ 63) \<le> a - b \<and> a - b < 2 ^ 63 then Some (a - b) else None)"

definition i16_sub :: "i16 \<Rightarrow> i16 \<Rightarrow> i16 option" where
  "i16_sub a b = (if - (2 ^ 15) \<le> sint a - sint b \<and> sint a - sint b < 2 ^ 15 then Some (a - b) else None)"

section \<open>Estimates\<close>

definition literal_search_instruction_count_dbg :: "usize \<Rightarrow> usize option" where
  "literal_search_instruction_count_dbg pattern_len =
     (if pattern_len = 0 then Some 4 else Option.bind (checked_mul pattern_len 2) (checked_add 14))"

fun sum_alternatives_dbg :: "u8 list list \<Rightarrow> usize \<Rightarrow> usize option" where
  "sum_alternatives_dbg [] acc = Some acc"
| "sum_alternatives_dbg (alt # alts) acc =
     Option.bind (if alt = [] then Some 0 else Option.bind (checked_mul (slice_len alt) 2) (checked_add 4))
       (\<lambda>n. Option.bind (checked_add acc n) (sum_alternatives_dbg alts))"

definition estimate_alternation_instructions_dbg :: "u8 list list \<Rightarrow> usize option" where
  "estimate_alternation_instructions_dbg alternatives =
     (if alternatives = [] \<or> (\<exists>alt \<in> set alternatives. alt = []) then Some 2
      else Option.bind (sum_alternatives_dbg alternatives 0) (checked_add 4))"

section \<open>Literal search\<close>

fun patch_byte_checks_dbg :: "u8 list \<Rightarrow> nat \<Rightarrow> nat \<Rightarrow> nat list \<Rightarrow> bpf_insn list \<Rightarrow> bpf_insn list option" where
  "patch_byte_checks_dbg pattern next_iter_idx i [] prog = Some prog"
| "patch_byte_checks_dbg pattern next_iter_idx i (jump_idx # jumps) prog =
     Option.bind (get_index pattern i) (\<lambda>pattern_byte.
     Option.bind (index_sub next_iter_idx jump_idx) (\<lambda>d.
     Option.bind (index_sub d 1) (\<lambda>iter_offset.
     Option.bind (set_index prog jump_idx (jmp_imm BPF_JNE R7 (ucast pattern_byte) (of_nat iter_offset)))
       (patch_byte_checks_dbg pattern next_iter_idx (Suc i) jumps))))"

definition compile_literal_search_dbg :: "u8 list \<Rightarrow> (compile_error + bpf_insn list) option" where
  "compile_literal_search_dbg pattern =
     Option.bind (literal_search_instruction_count_dbg (slice_len pattern)) (\<lambda>count.
     (case compile_with_limit count of
        Inl e \<Rightarrow> Some (Err e)
      | Inr _ \<Rightarrow>
        if slice_len pattern > MAX_BPF_PATTERN_LEN then
          Some (Err (PatternTooLong (slice_len pattern) MAX_BPF_PATTERN_LEN))
        else
          let prog = [ldx_mem BPF_W R2 R1 0, ldx_mem BPF_W R3 R1 4] in
          if pattern = [] then Some (Ok (prog @ [alu64_imm BPF_MOV R0 1, exit_insn]))
          else
            let p_len = (ucast (slice_len pattern) :: i32);
                prog = prog @ [alu64_imm BPF_MOV R4 0];
                loop_start_idx = length prog;
                prog = prog @ [alu64_reg BPF_MOV R5 R2, alu64_reg BPF_ADD R5 R4,
                               alu64_reg BPF_MOV R6 R5, alu64_imm BPF_ADD R6 p_len];
                bounds_check_idx = length prog;
                prog = prog @ [exit_insn];
                (prog, jump_to_next_targets) = emit_byte_checks 0 pattern prog [];
                prog = prog @ [alu64_imm BPF_MOV R0 1, exit_insn];
                next_iter_idx = length prog;
                prog = prog @ [alu64_imm BPF_ADD R4 1]
            in Option.bind (isize_sub (int loop_start_idx) (int (length prog))) (\<lambda>d.
               Option.bind (isize_sub d 1) (\<lambda>jump_back.
               let prog = prog @ [jmp_imm BPF_JA R0 0 (word_of_int jump_back)];
                   loop_fail_idx = length prog;
                   prog = prog @ [alu64_imm BPF_MOV R0 0, exit_insn]
               in Option.bind (index_sub loop_fail_idx bounds_check_idx) (\<lambda>d.
                  Option.bind (index_sub d 1) (\<lambda>bounds_offset.
                  Option.bind (set_index prog bounds_check_idx (jmp_reg BPF_JGT R6 R3 (of_nat bounds_offset))) (\<lambda>prog.
                  Option.bind (patch_byte_checks_dbg pattern next_iter_idx 0 jump_to_next_targets prog) (\<lambda>prog.
                  Some (Ok prog)))))))))"

section \<open>Character classes\<close>

text \<open>\<open>prog.len() - 1\<close> of the emission loop follows two pushes.\<close>

fun emit_ranges_dbg :: "char_range list \<Rightarrow> bpf_insn list \<Rightarrow> nat list \<Rightarrow> (bpf_insn list \<times> nat list) option" where
  "emit_ranges_dbg [] prog match_jumps = Some (prog, match_jumps)"
| "emit_ranges_dbg (r # rs) prog match_jumps =
     (let prog = prog @ [jmp_imm BPF_JLT R7 (ucast (lo r)) 1];
          prog = prog @ [jmp_imm BPF_JLE R7 (ucast (hi r)) 0]
      in Option.bind (index_sub (length prog) 1) (\<lambda>idx. emit_ranges_dbg rs prog (match_jumps @ [idx])))"

fun patch_match_jumps_dbg :: "nat \<Rightarrow> nat list \<Rightarrow> bpf_insn list \<Rightarrow> bpf_insn list option" where
  "patch_match_jumps_dbg match_target [] prog = Some prog"
| "patch_match_jumps_dbg match_target (idx # match_jumps) prog =
     Option.bind (i16_sub (of_nat match_target) (of_nat idx)) (\<lambda>d.
     Option.bind (i16_sub d 1) (\<lambda>off'.
     Option.bind (get_index prog idx) (\<lambda>insn.
     Option.bind (set_index prog idx (insn\<lparr>off := off'\<rparr>)) (patch_match_jumps_dbg match_target match_jumps))))"

definition compile_char_class_dbg :: "char_range list \<Rightarrow> (compile_error + bpf_insn list) option" where
  "compile_char_class_dbg ranges =
     (if ranges = [] then Some (Err (InvalidPattern ''character class must have at least one range''))
      else if \<exists>r \<in> set ranges. lo r > hi r then
        Some (Err (InvalidPattern ''character class range endpoints are reversed''))
      else
        Option.bind (Option.bind (checked_mul (slice_len ranges) 2) (checked_add 4)) (\<lambda>estimated.
        case compile_with_limit estimated of
          Inl e \<Rightarrow> Some (Err e)
        | Inr _ \<Rightarrow>
          Option.bind (emit_ranges_dbg ranges [] []) (\<lambda>(prog, match_jumps).
          let prog = prog @ [alu64_imm BPF_MOV R0 0, exit_insn];
              match_target = length prog;
              prog = prog @ [alu64_imm BPF_MOV R0 1, exit_insn]
          in Option.bind (patch_match_jumps_dbg match_target match_jumps prog) (\<lambda>prog. Some (Ok prog)))))"

text \<open>The parser only moves a cursor up to the length of the text; it has no operator that could overflow.\<close>

definition compile_character_class_dbg :: "u8 list \<Rightarrow> (compile_error + bpf_insn list) option" where
  "compile_character_class_dbg class' =
     (if class' = [] then Some (Ok [alu64_imm BPF_MOV R0 0, exit_insn])
      else case parse_character_class class' of
        Inl e \<Rightarrow> Some (Err e)
      | Inr ranges \<Rightarrow> compile_char_class_dbg (map to_char_range ranges))"

section \<open>Alternation\<close>

definition jump_offset_dbg :: "nat \<Rightarrow> nat \<Rightarrow> i16 option" where
  "jump_offset_dbg from' to' =
     Option.bind (isize_sub (int to') (int from')) (\<lambda>d.
     Option.bind (isize_sub d 1) (\<lambda>offset. Some (word_of_int offset)))"

definition patch_match_jump_dbg :: "bpf_insn list \<Rightarrow> nat \<Rightarrow> nat \<Rightarrow> bpf_insn list option" where
  "patch_match_jump_dbg program from' match_idx =
     Option.bind (jump_offset_dbg from' match_idx) (\<lambda>offset.
     set_index program from' (bpf_insn_new (BPF_JMP OR BPF_JA) R0 0 offset 0))"

definition patch_reg_jump_dbg :: "bpf_insn list \<Rightarrow> nat \<Rightarrow> nat \<Rightarrow> u8 \<Rightarrow> u8 \<Rightarrow> u8 \<Rightarrow> bpf_insn list option" where
  "patch_reg_jump_dbg program from' to' dst src op =
     Option.bind (jump_offset_dbg from' to') (\<lambda>offset.
     set_index program from' (bpf_insn_new (BPF_JMP OR op OR BPF_X) dst src offset 0))"

definition patch_imm_jump_dbg :: "bpf_insn list \<Rightarrow> nat \<Rightarrow> nat \<Rightarrow> u8 \<Rightarrow> i32 \<Rightarrow> u8 \<Rightarrow> bpf_insn list option" where
  "patch_imm_jump_dbg program from' to' dst k op =
     Option.bind (jump_offset_dbg from' to') (\<lambda>offset.
     set_index program from' (bpf_insn_new (BPF_JMP OR op OR BPF_K) dst 0 offset k))"

text \<open>\<open>Vec::with_capacity(alt.len() + 1)\<close> and \<open>bound_check_idx + 2\<close> are the two sums of the emission loop.\<close>

definition emit_alternative_dbg :: "u8 list \<Rightarrow> alt_state \<Rightarrow> alt_state option" where
  "emit_alternative_dbg alt st =
     (let prog = alt_prog st;
          starts = alternative_start_indices st @ [length prog]
      in Option.bind (index_add (length alt) 1) (\<lambda>capacity.
         let bound_check_idx = length prog;
             prog = prog @ [alu64_reg BPF_MOV R6 R5, alu64_imm BPF_ADD R6 (ucast (slice_len alt)),
                            jmp_reg BPF_JGT R6 R3 0]
         in Option.bind (index_add bound_check_idx 2) (\<lambda>bound_jump_idx.
            let bounds = bound_jump_indices st @ [bound_jump_idx];
                (prog, alt_mismatches) = emit_alt_bytes 0 alt prog [];
                match_idx = length prog;
                prog = prog @ [jmp_imm BPF_JA R0 0 0]
            in Some \<lparr>alt_prog = prog,
                 mismatch_jump_indices = mismatch_jump_indices st @ [alt_mismatches],
                 bound_jump_indices = bounds,
                 match_jump_indices = match_jump_indices st @ [match_idx],
                 alternative_start_indices = starts\<rparr>)))"

fun emit_alternatives_dbg :: "u8 list list \<Rightarrow> alt_state \<Rightarrow> alt_state option" where
  "emit_alternatives_dbg [] st = Some st"
| "emit_alternatives_dbg (alt # alts) st = Option.bind (emit_alternative_dbg alt st) (emit_alternatives_dbg alts)"

definition next_alt_idx_dbg :: "nat list \<Rightarrow> nat \<Rightarrow> nat \<Rightarrow> nat option" where
  "next_alt_idx_dbg starts fail_idx i =
     Option.bind (index_add i 1) (\<lambda>k. Some (case get_index starts k of Some s \<Rightarrow> s | None \<Rightarrow> fail_idx))"

fun patch_alt_mismatches_dbg :: "nat \<Rightarrow> nat list \<Rightarrow> bpf_insn list \<Rightarrow> bpf_insn list option" where
  "patch_alt_mismatches_dbg next_idx [] prog = Some prog"
| "patch_alt_mismatches_dbg next_idx (jump_idx # idxs) prog =
     Option.bind (get_index prog jump_idx) (\<lambda>insn.
     Option.bind (patch_imm_jump_dbg prog jump_idx next_idx R7 (imm insn) BPF_JNE)
       (patch_alt_mismatches_dbg next_idx idxs))"

fun patch_mismatches_dbg :: "nat list \<Rightarrow> nat \<Rightarrow> nat \<Rightarrow> nat list list \<Rightarrow> bpf_insn list \<Rightarrow> bpf_insn list option" where
  "patch_mismatches_dbg starts fail_idx i [] prog = Some prog"
| "patch_mismatches_dbg starts fail_idx i (ms # mss) prog =
     Option.bind (next_alt_idx_dbg starts fail_idx i) (\<lambda>next_idx.
     Option.bind (patch_alt_mismatches_dbg next_idx ms prog)
       (patch_mismatches_dbg starts fail_idx (Suc i) mss))"

fun patch_bounds_dbg :: "nat list \<Rightarrow> nat \<Rightarrow> nat \<Rightarrow> nat list \<Rightarrow> bpf_insn list \<Rightarrow> bpf_insn list option" where
  "patch_bounds_dbg starts fail_idx i [] prog = Some prog"
| "patch_bounds_dbg starts fail_idx i (b # bs) prog =
     Option.bind (next_alt_idx_dbg starts fail_idx i) (\<lambda>next_idx.
     Option.bind (patch_reg_jump_dbg prog b next_idx R6 R3 BPF_JGT)
       (patch_bounds_dbg starts fail_idx (Suc i) bs))"

fun patch_matches_dbg :: "nat \<Rightarrow> nat list \<Rightarrow> bpf_insn list \<Rightarrow> bpf_insn list option" where
  "patch_matches_dbg success_idx [] prog = Some prog"
| "patch_matches_dbg success_idx (m # ms) prog =
     Option.bind (patch_match_jump_dbg prog m success_idx) (patch_matches_dbg success_idx ms)"

definition compile_alternation_dbg :: "u8 list list \<Rightarrow> (compile_error + bpf_insn list) option" where
  "compile_alternation_dbg alternatives =
     (if alternatives = [] then Some (Ok [alu64_imm BPF_MOV R0 0, exit_insn])
      else if \<exists>alt \<in> set alternatives. alt = [] then Some (Ok [alu64_imm BPF_MOV R0 1, exit_insn])
      else Option.bind (estimate_alternation_instructions_dbg alternatives) (\<lambda>count.
        case compile_with_limit count of
          Inl e \<Rightarrow> Some (Err e)
        | Inr _ \<Rightarrow>
          Option.bind (emit_alternatives_dbg alternatives
              \<lparr>alt_prog = [], mismatch_jump_indices = [], bound_jump_indices = [],
               match_jump_indices = [], alternative_start_indices = []\<rparr>) (\<lambda>st.
          let starts = alternative_start_indices st;
              prog = alt_prog st;
              fail_idx = length prog;
              prog = prog @ [alu64_imm BPF_MOV R0 0, exit_insn];
              success_idx = length prog;
              prog = prog @ [alu64_imm BPF_MOV R0 1, exit_insn]
          in Option.bind (patch_mismatches_dbg starts fail_idx 0 (mismatch_jump_indices st) prog) (\<lambda>prog.
             Option.bind (patch_bounds_dbg starts fail_idx 0 (bound_jump_indices st) prog) (\<lambda>prog.
             Option.bind (patch_matches_dbg success_idx (match_jump_indices st) prog) (\<lambda>prog.
             Some (Ok prog)))))))"

section \<open>Agreement: literals and classes\<close>

lemma index_difference:
  assumes "j < target"
  shows "Option.bind (index_sub target j) (\<lambda>d. Option.bind (index_sub d 1) f) = f (target - j - 1)"
    and "word_of_int (int target - int j - 1) = (of_nat (target - j - 1) :: i16)"
proof -
  show "Option.bind (index_sub target j) (\<lambda>d. Option.bind (index_sub d 1) f) = f (target - j - 1)"
    using assms by (cases "target - j") (simp_all add: index_sub_def)
  show "word_of_int (int target - int j - 1) = (of_nat (target - j - 1) :: i16)"
    by (rule word_of_int_offset) (use assms in simp)
qed

lemma patch_byte_checks_agrees:
  "\<forall>j \<in> set js. j < target \<Longrightarrow> patch_byte_checks_dbg pattern target i js prog = patch_byte_checks pattern target i js prog"
proof (induction js arbitrary: i prog)
  case (Cons j js)
  then have "patch_byte_checks_dbg pattern target (Suc i) js = patch_byte_checks pattern target (Suc i) js" "j < target"
    by auto
  then show ?case
    by (simp only: patch_byte_checks_dbg.simps patch_byte_checks.simps index_difference)
qed simp

lemma check_slots_bound: "\<forall>j \<in> set (check_slots s bs). j < s + 2 * length bs"
  by (induction s bs rule: check_slots.induct) auto

lemma checked_count:
  assumes "length xs < 2 ^ 62" "unat (c :: usize) \<le> 14"
  shows "Option.bind (checked_mul (slice_len xs) 2) (checked_add c) = Some (c + slice_len xs * 2)"
proof -
  have "unat (slice_len xs) = length xs"
    using assms(1) by (simp add: unat_slice_len)
  then show ?thesis
    using assms by (simp add: checked_mul_def checked_add_def unat_mult_small)
qed

lemma literal_count_agrees:
  "length pattern < 2 ^ 62 \<Longrightarrow>
    literal_search_instruction_count_dbg (slice_len pattern) = Some (literal_search_instruction_count (slice_len pattern))"
  using checked_count [of pattern 14]
  by (simp add: literal_search_instruction_count_dbg_def literal_search_instruction_count_def)

lemma compile_literal_search_agrees:
  assumes "length pattern < 2 ^ 62"
  shows "compile_literal_search_dbg pattern = compile_literal_search pattern"
proof (cases "length pattern \<le> 1024")
  case False
  have "slice_len pattern > MAX_BPF_PATTERN_LEN"
    using False assms by (simp add: word_less_nat_alt unat_slice_len MAX_BPF_PATTERN_LEN_def)
  then show ?thesis
    by (simp add: compile_literal_search_dbg_def compile_literal_search_def literal_count_agrees [OF assms])
next
  case True
  have slots: "patch_byte_checks_dbg pattern target i (check_slots s pattern) prog
      = patch_byte_checks pattern target i (check_slots s pattern) prog" if "s + 2 * length pattern \<le> target" for target i s prog
    by (rule patch_byte_checks_agrees) (use check_slots_bound [of s pattern] that in auto)
  show ?thesis
    unfolding compile_literal_search_dbg_def compile_literal_search_def literal_count_agrees [OF assms] Option.bind.simps
    using True
    by (simp add: Let_def emit_byte_checks_eq slots isize_sub_def index_sub_def algebra_simps split: sum.split)
qed

lemma emit_ranges_agrees: "emit_ranges_dbg rs prog js = Some (emit_ranges rs prog js)"
  by (induction rs prog js rule: emit_ranges.induct) (simp_all add: Let_def index_sub_def)

lemma sint_of_index: "n < 2 ^ 15 \<Longrightarrow> sint (of_nat n :: i16) = int n"
  by (simp add: signed_of_nat signed_take_bit_int_eq_self)

lemma i16_difference:
  assumes "j < target" "target < 2 ^ 15"
  shows "Option.bind (i16_sub (of_nat target) (of_nat j)) (\<lambda>d. Option.bind (i16_sub d 1) f)
           = f (of_nat target - of_nat j - 1)"
proof -
  have d: "(of_nat target - of_nat j :: i16) = of_nat (target - j)"
    using assms by simp
  have "sint (of_nat target :: i16) = int target" "sint (of_nat j :: i16) = int j"
    "sint (of_nat (target - j) :: i16) = int (target - j)"
    using assms by (simp_all only: sint_of_index)
  then show ?thesis
    using assms unfolding i16_sub_def d by (auto simp del: of_nat_diff)
qed

lemma patch_match_jumps_agrees:
  "\<forall>j \<in> set js. j < target \<Longrightarrow> target < 2 ^ 15 \<Longrightarrow>
     patch_match_jumps_dbg target js prog = patch_match_jumps target js prog"
proof (induction js arbitrary: prog)
  case (Cons j js)
  then have "patch_match_jumps_dbg target js = patch_match_jumps target js" "j < target"
    by auto
  then show ?case
    by (simp only: patch_match_jumps_dbg.simps patch_match_jumps.simps i16_difference [OF _ Cons.prems(2)])
qed simp

lemma range_slots_bound: "\<forall>j \<in> set (range_slots s rs). j < s + 2 * length rs"
  by (induction s rs rule: range_slots.induct) auto

lemma compile_char_class_agrees:
  assumes "length rs < 2 ^ 62"
  shows "compile_char_class_dbg rs = compile_char_class rs"
proof (cases "length rs \<le> 2046")
  case True
  have "patch_match_jumps_dbg (2 * length rs + 2) (range_slots 0 rs) prog
      = patch_match_jumps (2 * length rs + 2) (range_slots 0 rs) prog" for prog
    by (rule patch_match_jumps_agrees) (use True range_slots_bound [of 0 rs] in auto)
  then show ?thesis
    using True checked_count [OF assms, of 4]
    by (simp add: compile_char_class_dbg_def compile_char_class_def char_class_limit [OF assms]
        emit_ranges_agrees emit_ranges_eq Let_def)
next
  case False
  then show ?thesis
    using checked_count [OF assms, of 4]
    by (simp add: compile_char_class_dbg_def compile_char_class_def char_class_limit [OF assms])
qed

lemma compile_character_class_agrees:
  assumes "length class' < 2 ^ 61"
  shows "compile_character_class_dbg class' = compile_character_class class'"
  using parse_character_class_count [of class'] assms
  by (auto simp: compile_character_class_dbg_def compile_character_class_def compile_char_class_agrees split: sum.split)

section \<open>Agreement: alternations\<close>

text \<open>Indices of a program below \<open>2\<^sup>6\<^sup>3\<close> have differences and successors that no check refuses.\<close>

lemma jump_offset_agrees:
  "from' < 2 ^ 63 \<Longrightarrow> to' < 2 ^ 63 \<Longrightarrow> jump_offset_dbg from' to' = Some (jump_offset from' to')"
  by (simp add: jump_offset_dbg_def jump_offset_def isize_sub_def)

lemma next_alt_idx_agrees: "i < 2 ^ 63 \<Longrightarrow> next_alt_idx_dbg starts fail_idx i = Some (next_alt_idx starts fail_idx i)"
  by (simp add: next_alt_idx_dbg_def next_alt_idx_def index_add_def)

lemma next_alt_idx_bound: "\<forall>s \<in> set starts. s < n \<Longrightarrow> fail_idx < n \<Longrightarrow> next_alt_idx starts fail_idx i < n"
  by (auto simp: next_alt_idx_def get_index_def)

lemma patch_jumps_agree:
  assumes "from' < 2 ^ 63" "to' < 2 ^ 63"
  shows "patch_imm_jump_dbg prog from' to' dst k op = patch_imm_jump prog from' to' dst k op"
    and "patch_reg_jump_dbg prog from' to' dst src op = patch_reg_jump prog from' to' dst src op"
    and "patch_match_jump_dbg prog from' to' = patch_match_jump prog from' to'"
  using jump_offset_agrees [OF assms]
  by (simp_all add: patch_imm_jump_dbg_def patch_imm_jump_def patch_reg_jump_dbg_def patch_reg_jump_def
      patch_match_jump_dbg_def patch_match_jump_def)

lemma patch_alt_mismatches_agrees:
  "\<forall>j \<in> set js. j < 2 ^ 63 \<Longrightarrow> target < 2 ^ 63 \<Longrightarrow>
     patch_alt_mismatches_dbg target js prog = patch_alt_mismatches target js prog"
proof (induction js arbitrary: prog)
  case (Cons j js)
  then have "patch_alt_mismatches_dbg target js = patch_alt_mismatches target js" "j < 2 ^ 63"
    by auto
  then show ?case
    by (simp only: patch_alt_mismatches_dbg.simps patch_alt_mismatches.simps patch_jumps_agree Cons.prems(2))
qed simp

lemma patch_mismatches_agrees:
  "\<forall>js \<in> set mss. \<forall>j \<in> set js. j < 2 ^ 63 \<Longrightarrow> \<forall>s \<in> set starts. s < 2 ^ 63 \<Longrightarrow> fail_idx < 2 ^ 63 \<Longrightarrow> i + length mss < 2 ^ 63 \<Longrightarrow>
     patch_mismatches_dbg starts fail_idx i mss prog = patch_mismatches starts fail_idx i mss prog"
proof (induction mss arbitrary: i prog)
  case (Cons js mss)
  have "patch_mismatches_dbg starts fail_idx (Suc i) mss = patch_mismatches starts fail_idx (Suc i) mss"
    by (rule ext, rule Cons.IH) (use Cons.prems in auto)
  moreover have "patch_alt_mismatches_dbg (next_alt_idx starts fail_idx i) js = patch_alt_mismatches (next_alt_idx starts fail_idx i) js"
    by (rule ext, rule patch_alt_mismatches_agrees) (use Cons.prems next_alt_idx_bound in auto)
  moreover have "next_alt_idx_dbg starts fail_idx i = Some (next_alt_idx starts fail_idx i)"
    by (rule next_alt_idx_agrees) (use Cons.prems(4) in simp)
  ultimately show ?case
    by (simp only: patch_mismatches_dbg.simps patch_mismatches.simps Option.bind.simps)
qed simp

lemma patch_bounds_agrees:
  "\<forall>j \<in> set bs. j < 2 ^ 63 \<Longrightarrow> \<forall>s \<in> set starts. s < 2 ^ 63 \<Longrightarrow> fail_idx < 2 ^ 63 \<Longrightarrow> i + length bs < 2 ^ 63 \<Longrightarrow>
     patch_bounds_dbg starts fail_idx i bs prog = patch_bounds starts fail_idx i bs prog"
proof (induction bs arbitrary: i prog)
  case (Cons j bs)
  have "patch_bounds_dbg starts fail_idx (Suc i) bs = patch_bounds starts fail_idx (Suc i) bs"
    by (rule ext, rule Cons.IH) (use Cons.prems in auto)
  moreover have "j < 2 ^ 63" "next_alt_idx starts fail_idx i < 2 ^ 63"
    using Cons.prems next_alt_idx_bound by auto
  moreover have "next_alt_idx_dbg starts fail_idx i = Some (next_alt_idx starts fail_idx i)"
    by (rule next_alt_idx_agrees) (use Cons.prems(4) in simp)
  ultimately show ?case
    by (simp only: patch_bounds_dbg.simps patch_bounds.simps Option.bind.simps patch_jumps_agree)
qed simp

lemma patch_matches_agrees:
  "\<forall>j \<in> set js. j < 2 ^ 63 \<Longrightarrow> target < 2 ^ 63 \<Longrightarrow> patch_matches_dbg target js prog = patch_matches target js prog"
proof (induction js arbitrary: prog)
  case (Cons j js)
  then have "patch_matches_dbg target js = patch_matches target js" "j < 2 ^ 63"
    by auto
  then show ?case
    by (simp only: patch_matches_dbg.simps patch_matches.simps patch_jumps_agree Cons.prems(2))
qed simp

lemma emit_alternatives_agrees:
  "length (alt_prog st) + alts_size alts < 2 ^ 62 \<Longrightarrow> emit_alternatives_dbg alts st = Some (fold emit_alternative alts st)"
proof (induction alts arbitrary: st)
  case (Cons alt alts)
  then have "emit_alternative_dbg alt st = Some (emit_alternative alt st)"
    by (simp add: emit_alternative_dbg_def emit_alternative_def index_add_def Let_def split: prod.split)
  moreover have "emit_alternatives_dbg alts (emit_alternative alt st) = Some (fold emit_alternative alts (emit_alternative alt st))"
    by (rule Cons.IH) (use Cons.prems in \<open>simp add: emit_alternative_eq [where d = 0]\<close>)
  ultimately show ?case
    by simp
qed simp

lemma slots_bounds:
  "\<forall>js \<in> set (alt_mismatch_slots s alts). \<forall>j \<in> set js. j < s + alts_size alts"
  "\<forall>j \<in> set (alt_bound_slots s alts). j < s + alts_size alts"
  "\<forall>j \<in> set (alt_match_slots s alts). j < s + alts_size alts"
  "\<forall>j \<in> set (alt_starts s alts). j < s + alts_size alts"
proof (induction s alts rule: alt_mismatch_slots.induct)
  case (2 s alt alts)
  have "\<forall>j \<in> set (check_slots (s + 3) alt). j < s + alts_size (alt # alts)"
    using check_slots_bound [of "s + 3" alt] by auto
  then show "\<forall>js \<in> set (alt_mismatch_slots s (alt # alts)). \<forall>j \<in> set js. j < s + alts_size (alt # alts)"
    using "2.IH"(1) by (simp add: add.assoc)
qed (simp_all add: add.assoc)

lemma slots_small:
  assumes "s + alts_size alts \<le> n"
  shows "\<forall>js \<in> set (alt_mismatch_slots s alts). \<forall>j \<in> set js. j < n" "\<forall>j \<in> set (alt_bound_slots s alts). j < n"
    "\<forall>j \<in> set (alt_match_slots s alts). j < n" "\<forall>j \<in> set (alt_starts s alts). j < n"
  by (meson assms less_le_trans slots_bounds)+

lemma slots_lengths:
  "length (alt_mismatch_slots s alts) \<le> alts_size alts" "length (alt_bound_slots s alts) \<le> alts_size alts"
  by (induction s alts rule: alt_mismatch_slots.induct) auto

lemma checked_add_exact:
  "checked_add (of_nat a) (of_nat b :: usize) = (if a + b < 2 ^ 64 then Some (of_nat (a + b)) else None)"
  if "a < 2 ^ 64" "b < 2 ^ 64"
  using that by (simp add: checked_add_def unat_of_nat)

lemma alternative_count_exact:
  assumes "fits_slice alt"
  shows "Option.bind (checked_mul (slice_len alt) 2) (checked_add 4)
    = (if 4 + 2 * length alt < 2 ^ 64 then Some (of_nat (4 + 2 * length alt)) else None)"
proof -
  have "checked_mul (slice_len alt) 2 = Some (of_nat (2 * length alt))"
    using assms by (simp add: checked_mul_def unat_slice_len) (simp add: slice_len_def)
  moreover have "checked_add 4 (of_nat (2 * length alt) :: usize)
      = (if 4 + 2 * length alt < 2 ^ 64 then Some (of_nat (4 + 2 * length alt)) else None)"
    using checked_add_exact [of 4 "2 * length alt"] assms by simp
  ultimately show ?thesis
    by simp
qed

lemma sum_alternatives_exact:
  "\<forall>alt \<in> set alts. alt \<noteq> [] \<and> fits_slice alt \<Longrightarrow> acc < 2 ^ 64 \<Longrightarrow>
     sum_alternatives_dbg alts (of_nat acc)
       = (if acc + alts_size alts < 2 ^ 64 then Some (of_nat (acc + alts_size alts)) else None)"
proof (induction alts arbitrary: acc)
  case (Cons alt alts)
  let ?n = "4 + 2 * length alt"
  have head: "Option.bind (checked_mul (slice_len alt) 2) (checked_add 4) = (if ?n < 2 ^ 64 then Some (of_nat ?n) else None)"
    by (rule alternative_count_exact) (use Cons.prems in simp)
  have "alt \<noteq> []"
    using Cons.prems by simp
  then have step: "sum_alternatives_dbg (alt # alts) (of_nat acc)
      = (if ?n < 2 ^ 64 then Option.bind (checked_add (of_nat acc) (of_nat ?n)) (sum_alternatives_dbg alts) else None)"
    by (simp only: sum_alternatives_dbg.simps if_False head Option.bind.simps split: if_split) simp
  have rest: "sum_alternatives_dbg alts (of_nat (acc + ?n))
      = (if acc + ?n + alts_size alts < 2 ^ 64 then Some (of_nat (acc + ?n + alts_size alts)) else None)" if "acc + ?n < 2 ^ 64"
    by (rule Cons.IH) (use Cons.prems that in auto)
  show ?case
  proof (cases "acc + ?n < 2 ^ 64")
    case True
    then have "checked_add (of_nat acc) (of_nat ?n :: usize) = Some (of_nat (acc + ?n))"
      by (subst checked_add_exact) auto
    then show ?thesis
      using step rest [OF True] True by (simp only: Option.bind.simps alts_size_simps) (simp add: add.assoc)
  next
    case False
    then have "?n < 2 ^ 64 \<Longrightarrow> checked_add (of_nat acc) (of_nat ?n :: usize) = None"
      using Cons.prems by (subst checked_add_exact) auto
    then show ?thesis
      using step False by simp
  qed
qed simp

lemma sum_alternatives_wraps:
  "\<forall>alt \<in> set alts. alt \<noteq> [] \<Longrightarrow>
     fold (\<lambda>alt acc. acc + (if alt = [] then 0 else 4 + slice_len alt * 2)) alts acc = acc + of_nat (alts_size alts)"
  by (induction alts arbitrary: acc) (auto simp: slice_len_def algebra_simps)

lemma estimate_exact:
  assumes "alts \<noteq> []" "\<forall>alt \<in> set alts. alt \<noteq> [] \<and> fits_slice alt"
  shows "estimate_alternation_instructions alts = of_nat (4 + alts_size alts)"
    and "estimate_alternation_instructions_dbg alts
      = (if 4 + alts_size alts < 2 ^ 64 then Some (of_nat (4 + alts_size alts)) else None)"
proof -
  have ne: "\<forall>alt \<in> set alts. alt \<noteq> []"
    using assms(2) by blast
  then show "estimate_alternation_instructions alts = of_nat (4 + alts_size alts)"
    using assms(1) by (auto simp: estimate_alternation_instructions_def sum_alternatives_wraps [OF ne])
  have "sum_alternatives_dbg alts 0 = (if alts_size alts < 2 ^ 64 then Some (of_nat (alts_size alts)) else None)"
    using sum_alternatives_exact [OF assms(2), of 0] by simp
  then show "estimate_alternation_instructions_dbg alts
      = (if 4 + alts_size alts < 2 ^ 64 then Some (of_nat (4 + alts_size alts)) else None)"
    using assms(1) ne checked_add_exact [of 4 "alts_size alts"]
    by (auto simp: estimate_alternation_instructions_dbg_def)
qed

lemma alts_size_member: "alt \<in> set alts \<Longrightarrow> 2 * length alt \<le> alts_size alts"
  by (induction alts) auto

lemma compile_alternation_agrees:
  assumes "alts_size alts < 2 ^ 62"
  shows "compile_alternation_dbg alts = compile_alternation alts"
proof (cases "alts = [] \<or> [] \<in> set alts")
  case False
  note small = slots_small [of 0 alts "2 ^ 63"] slots_lengths [of 0 alts] assms
  from False have "\<forall>alt \<in> set alts. alt \<noteq> [] \<and> fits_slice alt"
    using assms alts_size_member [of _ alts] by fastforce
  with False assms have "estimate_alternation_instructions_dbg alts = Some (estimate_alternation_instructions alts)"
    using estimate_exact [of alts] by simp
  moreover have "patch_mismatches_dbg (alt_starts 0 alts) (alts_size alts) 0 (alt_mismatch_slots 0 alts) prog
      = patch_mismatches (alt_starts 0 alts) (alts_size alts) 0 (alt_mismatch_slots 0 alts) prog" for prog
    by (rule patch_mismatches_agrees)
      (use small in simp_all)
  moreover have "patch_bounds_dbg (alt_starts 0 alts) (alts_size alts) 0 (alt_bound_slots 0 alts) prog
      = patch_bounds (alt_starts 0 alts) (alts_size alts) 0 (alt_bound_slots 0 alts) prog" for prog
    by (rule patch_bounds_agrees)
      (use small in simp_all)
  moreover have "patch_matches_dbg (alts_size alts + 2) (alt_match_slots 0 alts) prog
      = patch_matches (alts_size alts + 2) (alt_match_slots 0 alts) prog" for prog
    by (rule patch_matches_agrees) (use small in simp_all)
  ultimately show ?thesis
    using False assms
    by (simp add: compile_alternation_dbg_def compile_alternation_def emit_alternatives_agrees fold_emit_alternative Let_def
        split: sum.split)
qed (auto simp: compile_alternation_dbg_def compile_alternation_def)

section \<open>The profiles\<close>

text \<open>
  C27: Whatever fits in memory without sharing compiles alike in both profiles: for a literal or a list of
  ranges shorter than \<open>2\<^sup>6\<^sup>2\<close>, and for alternatives of that total size, the debug build, in which an overflow
  of an estimate, an index or a jump distance panics, gives the result of the release build, in which it wraps.
\<close>

theorem debug_profile_agrees:
  assumes "length pattern < 2 ^ 62" and "length ranges < 2 ^ 62" and "alts_size alternatives < 2 ^ 62"
  shows "compile_literal_search_dbg pattern = compile_literal_search pattern
    \<and> compile_char_class_dbg ranges = compile_char_class ranges
    \<and> compile_alternation_dbg alternatives = compile_alternation alternatives"
  using assms by (simp add: compile_literal_search_agrees compile_char_class_agrees compile_alternation_agrees)

theorem debug_profile_agrees_witness:
  "compile_literal_search_dbg [0x47, 0x45] = Some (Ok (literal_filter [0x47, 0x45]))
   \<and> compile_char_class_dbg [\<lparr>lo = 0x61, hi = 0x7A\<rparr>] = Some (Ok (class_program [\<lparr>lo = 0x61, hi = 0x7A\<rparr>]))
   \<and> compile_alternation_dbg [[0x61], [0x62, 0x63]] = Some (Ok (alternation_program [[0x61], [0x62, 0x63]]))"
  using debug_profile_agrees [of "[0x47, 0x45]" "[\<lparr>lo = 0x61, hi = 0x7A\<rparr>]" "[[0x61], [0x62, 0x63]]"]
  by (simp add: compile_literal_search_small compile_char_class_eq compile_alternation_eq)

text \<open>
  C38: The alternatives are borrowed slices, and may share their memory, so their total size has no such
  bound. The release estimate is the size of the program modulo \<open>2\<^sup>6\<^sup>4\<close>, whatever that size is, and the
  debug one panics exactly when the size is out of range: \<open>2\<^sup>2\<^sup>0\<close> references to one buffer of \<open>2\<^sup>4\<^sup>3 - 2\<close> bytes
  estimate to the four instructions of the fixed blocks, which the limit of 4096 instructions lets
  through to the emission of \<open>2\<^sup>6\<^sup>4\<close> of them.
\<close>

theorem alternation_estimate_wraps:
  assumes "alternatives \<noteq> [] \<and> (\<forall>alt \<in> set alternatives. alt \<noteq> [] \<and> fits_slice alt)"
  shows "estimate_alternation_instructions alternatives = of_nat (4 + alts_size alternatives)
    \<and> (estimate_alternation_instructions_dbg alternatives = None \<longleftrightarrow> 2 ^ 64 \<le> 4 + alts_size alternatives)
    \<and> (2 ^ 64 \<le> 4 + alts_size alternatives \<longrightarrow> compile_alternation_dbg alternatives = None)"
  using assms estimate_exact [of alternatives] by (auto simp: compile_alternation_dbg_def)

theorem alternation_estimate_wraps_witness:
  "estimate_alternation_instructions (replicate (2 ^ 20) (replicate (2 ^ 43 - 2) 0x61)) = 4
   \<and> compile_with_limit (estimate_alternation_instructions (replicate (2 ^ 20) (replicate (2 ^ 43 - 2) 0x61))) = Ok ()
   \<and> compile_alternation_dbg (replicate (2 ^ 20) (replicate (2 ^ 43 - 2) 0x61)) = None"
proof -
  let ?alts = "replicate (2 ^ 20) (replicate (2 ^ 43 - 2) 0x61) :: u8 list list"
  have size: "alts_size ?alts = 2 ^ 64"
    by (simp add: alts_size_replicate)
  have "?alts \<noteq> [] \<and> (\<forall>alt \<in> set ?alts. alt \<noteq> [] \<and> fits_slice alt)"
    by simp
  from alternation_estimate_wraps [OF this] have "estimate_alternation_instructions ?alts = of_nat (4 + 2 ^ 64)"
    "compile_alternation_dbg ?alts = None"
    unfolding size by simp_all
  then show ?thesis
    by (simp add: compile_with_limit_def MAX_BPF_INSTRUCTION_LEN_def)
qed

end
