(* ===== verification/Debug_Ring.thy ===== *)
theory Debug_Ring
  imports Poll_Trace
begin

text \<open>
  The ring buffer as a debug build runs it. \<open>ringbuf.rs\<close> has three plain operators outside its checked and
  saturating arithmetic: \<open>ring_size - 1\<close>, \<open>offset + BPF_RINGBUF_HDR_SZ\<close> and \<open>consumer_pos += record_len\<close>. Here
  they are checked, and an overflow is a panic; on every kernel with non-empty rings whose producer stays
  below the last 2 GiB of the position space a poll in this profile is a poll in the release
  profile, whatever the shared memory shows. What a panic unwinds is not modelled.
\<close>

unbundle bit_operations_syntax

section \<open>Checked operators\<close>

definition checked_sub :: "'a::len word \<Rightarrow> 'a word \<Rightarrow> 'a word option" where
  "checked_sub a b = (if unat b \<le> unat a then Some (a - b) else None)"

section \<open>The operations\<close>

definition ringbuf_consumer_new_dbg ::
  "world \<Rightarrow> raw_fd \<Rightarrow> usize \<Rightarrow> usize \<Rightarrow> proc \<Rightarrow> ((io_error + ringbuf_consumer) \<times> proc) option" where
  "ringbuf_consumer_new_dbg w map_fd ring_size page_sz p =
     (let (r, p) = call w (Mmap page_sz True map_fd 0) p; consumer_map = ret r in
      if consumer_map = MAP_FAILED then Some (Err (last_os_error r), p)
      else case checked_mul ring_size 2 of
        None \<Rightarrow> Some (Err mapping_overflow, p)
      | Some dbl \<Rightarrow> (case checked_add page_sz dbl of
          None \<Rightarrow> Some (Err mapping_overflow, p)
        | Some map_len \<Rightarrow>
          let (r, p) = call w (Mmap map_len False map_fd page_sz) p; producer_map = ret r in
          if producer_map = MAP_FAILED then
            let err = last_os_error r in
            Some (Err err, munmap_or_warn w consumer_map page_sz ''unmapping consumer page after producer mmap failed'' p)
          else
            Option.bind (checked_sub ring_size 1) (\<lambda>msk.
            Some (Ok \<lparr>consumer_mapping = consumer_map, producer_mapping = producer_map,
                 data_ptr = producer_map + page_sz, mapping_len = map_len,
                 ring_mask = msk, page_size = page_sz\<rparr>, p))))"

definition process_record_dbg :: "world \<Rightarrow> ringbuf_consumer \<Rightarrow> ring_state \<Rightarrow> ring_state option" where
  "process_record_dbg w c st =
     (let pos = consumer_pos st; p = process st;
          offset = pos AND ring_mask c;
          raw_len = header_len (view_cell (kshared w (hist p))) offset;
          p = log_event (LoadHeader offset raw_len) p;
          stop = (\<lambda>p. st\<lparr>phase := Returned, process := log_event (StoreConsumerPos pos) p\<rparr>) in
      if raw_len AND BPF_RINGBUF_BUSY_BIT \<noteq> 0 then Some (stop p)
      else
        let data_len = ucast (raw_len AND NOT (BPF_RINGBUF_BUSY_BIT OR BPF_RINGBUF_DISCARD_BIT));
            record_len = round_record_len data_len;
            advance = (\<lambda>p. Option.bind (checked_add pos record_len) (\<lambda>pos.
              Some (st\<lparr>consumer_pos := pos, consumed_any := True, process := log_event (StoreConsumerPos pos) p\<rparr>))) in
        if raw_len AND BPF_RINGBUF_DISCARD_BIT = 0 then
          Option.bind (checked_add offset BPF_RINGBUF_HDR_SZ) (\<lambda>data_offset.
          if (case checked_add (ring_mask c) 1 of None \<Rightarrow> True
              | Some rs \<Rightarrow> \<not> record_within_mapping data_offset data_len rs) then
            Some (stop (eprintln (out_of_bounds_text data_offset data_len (ring_mask c)) p))
          else
            advance (log_event (Callback data_offset
              (data_slice (view_cell (kshared w (hist p))) data_offset data_len)) p))
        else advance p)"

definition ring_step_dbg :: "world \<Rightarrow> ringbuf_consumer \<Rightarrow> ring_state \<Rightarrow> ring_state option" where
  "ring_step_dbg w c st =
     (case phase st of
        Reload \<Rightarrow>
          let v = view_producer (kshared w (hist (process st))) in
          Some (st\<lparr>phase := Scan, producer_pos := v, consumed_any := False,
             process := log_event (LoadProducerPos v) (process st)\<rparr>)
      | Scan \<Rightarrow>
          if consumer_pos st < producer_pos st then process_record_dbg w c st
          else Some (st\<lparr>phase := (if consumed_any st then Reload else Returned)\<rparr>)
      | Returned \<Rightarrow> Some st)"

text \<open>The result is \<open>None\<close> if the loop never returns and \<open>Some None\<close> if it panics.\<close>

definition consume_ring_records_dbg :: "world \<Rightarrow> ringbuf_consumer \<Rightarrow> proc \<Rightarrow> proc option option" where
  "consume_ring_records_dbg w c p =
     map_option (map_option process)
       (while_option (\<lambda>s. case s of None \<Rightarrow> False | Some st \<Rightarrow> phase st \<noteq> Returned)
          (\<lambda>s. Option.bind s (ring_step_dbg w c)) (Some (ring_start w p)))"

definition poll_ringbuf_dbg :: "world \<Rightarrow> raw_fd \<Rightarrow> proc \<Rightarrow> ((io_error + unit) \<times> proc) option option" where
  "poll_ringbuf_dbg w map_fd p =
     (case map_info w map_fd p of
        (Inl e, p) \<Rightarrow> Some (Some (Err e, p))
      | (Inr info, p) \<Rightarrow>
        if map_type info \<noteq> BPF_MAP_TYPE_RINGBUF then Some (Some (Err not_a_ringbuf, p))
        else (case page_size_of w p of
          (Inl e, p) \<Rightarrow> Some (Some (Err e, p))
        | (Inr page_sz, p) \<Rightarrow>
          (case ringbuf_consumer_new_dbg w map_fd (ucast (max_entries info)) page_sz p of
            None \<Rightarrow> Some None
          | Some (Inl e, p) \<Rightarrow> Some (Some (Err e, p))
          | Some (Inr consumer, p) \<Rightarrow>
            (case epoll_new w p of
              (Inl e, p) \<Rightarrow> Some (Some (Err e, ringbuf_consumer_drop w consumer p))
            | (Inr epfd, p) \<Rightarrow>
              let finish = (\<lambda>r p. Some (Some (r, ringbuf_consumer_drop w consumer (epoll_drop w epfd p)))) in
              (case epoll_add w epfd map_fd p of
                (Inl e, p) \<Rightarrow> finish (Err e) p
              | (Inr _, p) \<Rightarrow>
                (case epoll_wait w epfd p of
                  None \<Rightarrow> None
                | Some (Inl e, p) \<Rightarrow> finish (Err e) p
                | Some (Inr _, p) \<Rightarrow>
                  (case consume_ring_records_dbg w consumer p of
                    None \<Rightarrow> None
                  | Some None \<Rightarrow> Some None
                  | Some (Some p) \<Rightarrow> finish (Ok ()) p)))))))"

section \<open>Agreement\<close>

lemma consumer_new_agrees:
  "rs \<noteq> 0 \<Longrightarrow> ringbuf_consumer_new_dbg w fd rs ps p = Some (ringbuf_consumer_new w fd rs ps p)"
  using unat_gt_0 [of rs]
  by (simp add: ringbuf_consumer_new_dbg_def ringbuf_consumer_new_def checked_sub_def Let_def split: prod.split option.split)

lemma unat_and_le: "unat (a AND b :: 'a::len word) \<le> unat b"
  by (simp add: unsigned_and_eq and_nat_def nat_le_iff AND_upper2)

text \<open>A record's length word has thirty bits, so a position two GiB below the end has room for it.\<close>

lemma record_fits:
  assumes "unat pos + 2 ^ 31 < 2 ^ 64"
  shows "checked_add pos (round_record_len (header_data_len raw)) = Some (pos + round_record_len (header_data_len raw))"
  using assms header_data_len_bound [of raw] by (simp add: checked_add_def unat_round_record_len min_def)

lemma header_fits:
  assumes "unat (ring_mask c) < 2 ^ 32"
  shows "checked_add (pos AND ring_mask c) BPF_RINGBUF_HDR_SZ = Some ((pos AND ring_mask c) + BPF_RINGBUF_HDR_SZ)"
  using assms unat_and_le [of pos "ring_mask c"] by (simp add: checked_add_def BPF_RINGBUF_HDR_SZ_def)

lemma process_record_agrees:
  assumes "unat (ring_mask c) < 2 ^ 32" "unat (consumer_pos st) + 2 ^ 31 < 2 ^ 64"
  shows "process_record_dbg w c st = Some (process_record w c st)"
  using header_fits [OF assms(1), of "consumer_pos st"] record_fits [OF assms(2)]
  by (simp add: process_record_dbg_def process_record_def header_data_len_def Let_def)

lemma ring_step_agrees:
  assumes "unat (ring_mask c) < 2 ^ 32" "unat (producer_pos st) + 2 ^ 31 < 2 ^ 64"
  shows "ring_step_dbg w c st = Some (ring_step w c st)"
  using assms process_record_agrees [OF assms(1), of st w]
  by (cases "phase st") (simp_all add: ring_step_dbg_def ring_step_def Let_def word_less_nat_alt)

lemma consume_agrees:
  assumes bound: "\<forall>h. unat (view_producer (kshared w h)) + 2 ^ 31 < 2 ^ 64" and small: "unat (ring_mask c) < 2 ^ 32"
  shows "consume_ring_records_dbg w c p = map_option Some (consume_ring_records w c p)"
proof -
  have "map_option Some (while_option (\<lambda>st. phase st \<noteq> Returned) (ring_step w c) (ring_start w p))
      = while_option (\<lambda>s. case s of None \<Rightarrow> False | Some st \<Rightarrow> phase st \<noteq> Returned)
          (\<lambda>s. Option.bind s (ring_step_dbg w c)) (Some (ring_start w p))"
  proof (rule while_option_commute_invariant [where P = "\<lambda>st. unat (producer_pos st) + 2 ^ 31 < 2 ^ 64"])
    fix st :: ring_state
    assume st: "unat (producer_pos st) + 2 ^ 31 < 2 ^ 64" "phase st \<noteq> Returned"
    show "unat (producer_pos (ring_step w c st)) + 2 ^ 31 < 2 ^ 64"
      by (rule producer_stays_bounded [OF bound st(1)])
    show "Some (ring_step w c st) = Option.bind (Some st) (ring_step_dbg w c)"
      using ring_step_agrees [OF small st(1)] by simp
  qed (simp_all add: ring_start_def Let_def)
  from this [symmetric] show ?thesis
    unfolding consume_ring_records_dbg_def consume_ring_records_def by (simp add: option.map_comp comp_def)
qed

lemma new_mask:
  assumes "ringbuf_consumer_new w fd (ucast (x :: u32)) ps p = (Ok c, p')" "x \<noteq> 0"
  shows "unat (ring_mask c) < 2 ^ 32"
proof -
  have "ring_mask c = ucast x - 1"
    using assms(1) by (auto simp: ringbuf_consumer_new_def call_def Let_def split: if_splits option.splits)
  moreover have "unat (ucast x - 1 :: usize) = unat x - 1"
    using assms(2) unat_ucast_u32 [of x] by (subst unat_minus_one) (auto simp: word_unat_eq_iff)
  ultimately show ?thesis
    using unat_bound [of x] by simp
qed

section \<open>Properties\<close>

text \<open>
  C28: a poll overflows nothing. On every kernel that describes rings of at least one byte and whose
  producer position stays below the last 2 GiB of the position space, a poll of the debug build, in which
  an overflow panics, is the poll of the release build: the same result, calls, accesses and
  callbacks, whatever headers and positions the shared pages show.
\<close>

theorem debug_poll_agrees:
  assumes "\<forall>h. unat (view_producer (kshared w h)) + 2 ^ 31 < 2 ^ 64"
    and "\<forall>h a n. max_entries (out_info (kcall w h (Bpf_obj_get_info a n))) \<noteq> 0"
  shows "poll_ringbuf_dbg w map_fd p = map_option Some (poll_ringbuf w map_fd p)"
proof (cases "map_info w map_fd p")
  case (Pair r p1)
  show ?thesis
  proof (cases r)
    case (Inr info)
    have ring: "max_entries info \<noteq> 0" "ucast (max_entries info) \<noteq> (0 :: usize)"
      using Pair Inr assms(2) unat_ucast_u32 [of "max_entries info"]
      by (auto simp: map_info_def call_def Let_def word_unat_eq_iff split: if_splits)
    have "consume_ring_records_dbg w c q = map_option Some (consume_ring_records w c q)"
      if "ringbuf_consumer_new w map_fd (ucast (max_entries info)) ps p2 = (Ok c, p3)" for ps p2 c p3 q
      by (rule consume_agrees [OF assms(1) new_mask [OF that ring(1)]])
    then show ?thesis
      by (auto simp: poll_ringbuf_dbg_def poll_ringbuf_def Pair Inr consumer_new_agrees [OF ring(2)] Let_def
          split: sum.split prod.split option.split)
  qed (simp add: poll_ringbuf_dbg_def poll_ringbuf_def Pair)
qed

theorem debug_poll_agrees_witness:
  "\<exists>r p'. poll_ringbuf_dbg hostile_world 3 \<lparr>hist = [], page_cache = None, warned = False\<rparr> = Some (Some (r, p'))"
proof -
  let ?p = "\<lparr>hist = [], page_cache = None, warned = False\<rparr>"
  obtain r p' where "poll_ringbuf hostile_world 3 ?p = Some (r, p')"
    using hostile_poll_returns by blast
  with debug_poll_agrees [of hostile_world 3 ?p] show ?thesis
    by (simp add: hostile_world_def)
qed

text \<open>The bound on the ring is needed: with the size 0 and both mappings made, the debug build panics.\<close>

lemma empty_ring_panics:
  assumes "\<forall>h n wr at'. ret (kcall w h (Mmap n wr fd at')) \<noteq> MAP_FAILED"
  shows "ringbuf_consumer_new_dbg w fd 0 ps p = None"
  using assms unat_bound [of ps]
  by (simp add: ringbuf_consumer_new_dbg_def checked_sub_def checked_mul_def checked_add_def call_def Let_def)

end
