(* ===== verification/Literal_Shape.thy ===== *)
theory Literal_Shape
  imports Layout
begin

text \<open>
  What the crate's tests look at in a compiled literal filter, for every pattern: how many bytes it
  loads, which bytes it compares with, and where its bounds check leads. The immediates of
  the comparisons spell the pattern, so the pattern can be read back from the program and
  from its listing.
\<close>

unbundle bit_operations_syntax

section \<open>Observations\<close>

text \<open>\<open>iter().filter(..).count()\<close> on byte loads, and the filtered comparisons.\<close>

definition is_byte_load :: "bpf_insn \<Rightarrow> bool" where
  "is_byte_load i \<longleftrightarrow> code i = BPF_LDX OR BPF_MEM OR BPF_B"

definition is_compare :: "bpf_insn \<Rightarrow> bool" where
  "is_compare i \<longleftrightarrow> code i = BPF_JMP OR BPF_JNE OR BPF_K"

definition is_bounds_check :: "bpf_insn \<Rightarrow> bool" where
  "is_bounds_check i \<longleftrightarrow> code i = BPF_JMP OR BPF_JGT OR BPF_X"

definition compared_bytes :: "bpf_insn list \<Rightarrow> u8 list" where
  "compared_bytes prog = map (\<lambda>i. ucast (imm i)) (filter is_compare prog)"

lemma observe_macros [simp]:
  "is_byte_load (ldx_mem BPF_B d s f)" "\<not> is_byte_load (ldx_mem BPF_W d s f)"
  "\<not> is_byte_load (alu64_imm BPF_MOV d k)" "\<not> is_byte_load (alu64_imm BPF_ADD d k)"
  "\<not> is_byte_load (alu64_reg BPF_MOV d s)" "\<not> is_byte_load (alu64_reg BPF_ADD d s)"
  "\<not> is_byte_load (jmp_imm BPF_JNE d k f)" "\<not> is_byte_load (jmp_imm BPF_JA d k f)"
  "\<not> is_byte_load (jmp_reg BPF_JGT d s f)" "\<not> is_byte_load exit_insn"
  "is_compare (jmp_imm BPF_JNE d k f)" "\<not> is_compare (ldx_mem BPF_B d s f)" "\<not> is_compare (ldx_mem BPF_W d s f)"
  "\<not> is_compare (alu64_imm BPF_MOV d k)" "\<not> is_compare (alu64_imm BPF_ADD d k)"
  "\<not> is_compare (alu64_reg BPF_MOV d s)" "\<not> is_compare (alu64_reg BPF_ADD d s)"
  "\<not> is_compare (jmp_imm BPF_JA d k f)" "\<not> is_compare (jmp_reg BPF_JGT d s f)" "\<not> is_compare exit_insn"
  by (simp_all add: is_byte_load_def is_compare_def jump_macros bpf_opcodes)

lemma observe_bounds_check [simp]:
  "is_bounds_check (jmp_reg BPF_JGT d s f)" "\<not> is_bounds_check (ldx_mem BPF_W d s f)"
  "\<not> is_bounds_check (alu64_imm BPF_MOV d k)" "\<not> is_bounds_check (alu64_imm BPF_ADD d k)"
  "\<not> is_bounds_check (alu64_reg BPF_MOV d s)" "\<not> is_bounds_check (alu64_reg BPF_ADD d s)"
  by (simp_all add: is_bounds_check_def jump_macros bpf_opcodes)

lemma byte_checks_observed:
  "length (filter is_byte_load (byte_checks skip i bs)) = length bs"
  "map imm (filter is_compare (byte_checks skip i bs)) = map ucast bs"
  by (induction skip i bs rule: byte_checks.induct) auto

lemma literal_filter_observed:
  "length (filter is_byte_load (literal_filter pattern)) = length pattern"
  "map imm (filter is_compare (literal_filter pattern)) = map ucast pattern"
  by (simp_all add: literal_filter_def literal_program_def Let_def byte_checks_observed)

text \<open>The first bounds check, and the instruction it jumps to.\<close>

lemma literal_bounds_check:
  assumes "pattern \<noteq> []"
  shows "List.find (\<lambda>(idx, i). is_bounds_check i) (List.enumerate 0 (literal_filter pattern))
      = Some (7, jmp_reg BPF_JGT R6 R3 (of_nat (4 + 2 * length pattern)))"
    and "literal_filter pattern ! (12 + 2 * length pattern) = alu64_imm BPF_MOV R0 0"
  using assms by (simp_all add: literal_filter_def literal_program_def Let_def nth_append eval_nat_numeral)

lemma ucast_u8_i32_u8: "(ucast (ucast (b :: u8) :: i32) :: u8) = b"
  by (rule bit_word_eqI) (auto simp: bit_simps)

lemma compared_bytes_literal: "compared_bytes (literal_filter pattern) = pattern"
proof -
  have "compared_bytes (literal_filter pattern) = map ucast (map imm (filter is_compare (literal_filter pattern)))"
    by (simp add: compared_bytes_def)
  then show ?thesis
    by (simp only: literal_filter_observed map_map o_def ucast_u8_i32_u8 map_idI)
qed

section \<open>Listings\<close>

lemma map_enumerate_inj:
  "(\<And>k x y. f (k, x) = f (k, y) \<Longrightarrow> g x = g y) \<Longrightarrow>
     map f (List.enumerate n xs) = map f (List.enumerate n ys) \<Longrightarrow> map g xs = map g ys"
proof (induction xs arbitrary: n ys)
  case Nil
  from Nil.prems(2) show ?case by (cases ys) auto
next
  case (Cons x xs)
  note inj = Cons.prems(1) and eq = Cons.prems(2)
  from eq obtain y ys' where ys: "ys = y # ys'"
    by (cases ys) auto
  from eq have head: "f (n, x) = f (n, y)" and tail: "map f (List.enumerate (Suc n) xs) = map f (List.enumerate (Suc n) ys')"
    unfolding ys by simp_all
  show ?case
    unfolding ys list.map using inj [OF head] Cons.IH [OF inj tail] by (simp only:)
qed

lemma listing_displays:
  assumes "format_program P = format_program Q" "P \<noteq> []" "Q \<noteq> []"
  shows "map display P = map display Q"
proof (rule map_enumerate_inj)
  show "map (\<lambda>(k, i). show_pad4 k @ '': '' @ display i) (List.enumerate 0 P)
      = map (\<lambda>(k, i). show_pad4 k @ '': '' @ display i) (List.enumerate 0 Q)"
    using assms split_format_program [of P] split_format_program [of Q] by metis
qed simp

lemma space_not_digit: "CHR '' '' \<notin> set (show_nat n)"
proof -
  have "(of_char (CHR '' '') :: nat) \<notin> set (str_lit (show_nat n))"
    using show_nat_digits [of n] by (auto simp: is_ascii_digit_def)
  then show ?thesis
    unfolding str_lit_def set_map by (metis image_eqI)
qed

lemma show_nat_space_inj:
  assumes "show_nat a @ CHR '' '' # xs = show_nat b @ CHR '' '' # ys" "a < 2 ^ 32" "b < 2 ^ 32"
  shows "a = b"
proof -
  have "show_nat n = takeWhile (\<lambda>c. c \<noteq> CHR '' '') (show_nat n @ CHR '' '' # zs)" for n zs
    using space_not_digit [of n] by (subst takeWhile_append2) auto
  then have "show_nat a = show_nat b"
    using assms(1) by metis
  then have "(of_nat a :: u32) = of_nat b"
    using parse_digits_show assms(2,3) by (metis option.inject)
  then show ?thesis
    using assms(2,3) by (simp add: word_unat_eq_iff unat_of_nat)
qed

lemma display_compare:
  "display (jmp_imm BPF_JNE R7 (ucast (b :: u8)) f)
     = ''if r7 != '' @ show_nat (unat b) @ '' '' @ show_goto (jmp_imm BPF_JNE R7 (ucast b) f)"
proof -
  have "sint (ucast b :: i32) = int (unat b)"
    using sint_nonneg_uint [OF sint_ucast_u8 [of b]] uint_up_ucast [of b, where ?'b = 32] by (simp add: is_up)
  then have "show_int (sint (ucast b :: i32)) = show_nat (unat b)"
    by (simp add: show_int_def)
  then show ?thesis
    by (simp add: display_def jmp_imm_def bpf_opcodes show_reg_def show_nat.simps [of 7] digit_char_def)
qed

lemma byte_checks_listing_inj:
  "length p = length q \<Longrightarrow> map display (byte_checks skip i p) = map display (byte_checks skip i q) \<Longrightarrow> p = q"
proof (induction p q arbitrary: i rule: list_induct2)
  case (Cons b p c q)
  have "unat b = unat c"
    using Cons.prems show_nat_space_inj [of "unat b" _ "unat c"] unat_u8_bound [of b] unat_u8_bound [of c]
    by (auto simp: display_compare)
  moreover have "p = q"
    by (rule Cons.IH [of "Suc i"]) (use Cons.prems in simp)
  ultimately show ?case by (simp add: word_unat_eq_iff)
qed simp

lemma literal_listing_inj:
  assumes "format_program (literal_filter p) = format_program (literal_filter q)"
  shows "p = q"
proof -
  have nonempty: "literal_filter r \<noteq> []" for r
    by (simp add: literal_filter_def literal_program_def Let_def)
  note displays = listing_displays [OF assms nonempty nonempty]
  have len: "length (literal_filter r) = (if r = [] then 4 else 14 + 2 * length r)" for r
    by (simp add: literal_filter_def)
  have "length p = length q"
    using map_eq_imp_length_eq [OF displays] by (auto simp: len split: if_splits)
  show ?thesis
  proof (cases "p = []")
    case False
    with \<open>length p = length q\<close> have "map display (literal_program p) = map display (literal_program q)"
      using displays by (auto simp: literal_filter_def)
    from arg_cong [OF this, of "\<lambda>ls. take (2 * length p) (drop 8 ls)"]
    have "map display (byte_checks 2 0 p) = map display (byte_checks 2 0 q)"
      using \<open>length p = length q\<close> by (simp add: literal_program_def Let_def)
    with \<open>length p = length q\<close> show ?thesis by (rule byte_checks_listing_inj)
  qed (use \<open>length p = length q\<close> in simp)
qed

section \<open>Properties\<close>

text \<open>
  C30: a compiled literal filter spells its pattern: it loads one byte per byte of the pattern, the
  immediates of its comparisons, in order, are the pattern, and no two patterns have
  the same program or the same listing.
\<close>

theorem literal_program_spells_pattern:
  assumes "length pattern < 2 ^ 62" "compile_literal_search pattern = Some (Ok prog)"
  shows "length (filter is_byte_load prog) = length pattern \<and> compared_bytes prog = pattern
    \<and> (\<forall>pattern' prog'. length pattern' < 2 ^ 62 \<and> compile_literal_search pattern' = Some (Ok prog')
        \<and> format_program prog' = format_program prog \<longrightarrow> pattern' = pattern)"
proof -
  have prog: "r = literal_filter p" if "length p < 2 ^ 62" "compile_literal_search p = Some (Ok r)" for p r
    using that compile_literal_search_small [of p] compile_literal_search_large [of p]
    by (cases "length p \<le> 1024") auto
  show ?thesis
    using prog [OF assms] prog literal_filter_observed(1) compared_bytes_literal literal_listing_inj by blast
qed

theorem literal_program_spells_pattern_witness:
  "compared_bytes (literal_filter [0x41, 0x5A]) = [0x41, 0x5A]"
  using literal_program_spells_pattern [of "[0x41, 0x5A]" "literal_filter [0x41, 0x5A]"]
    compile_literal_search_small [of "[0x41, 0x5A]"] by simp

end
