(* ===== verification/Compiler_Tests.thy ===== *)
theory Compiler_Tests
  imports Literal_Shape Debug_Profile
begin

text \<open>
  The crate's own checks of the compiler: the fuzz targets, the property tests and the unit tests
  inside \<open>assembler.rs\<close>, \<open>compiler/mod.rs\<close> and \<open>compiler/verify.rs\<close>. Each is a predicate that
  says whether the test passes on the modelled functions: an assertion is a conjunct, \<open>?\<close> and
  \<open>unwrap\<close> on an error fail the test, and so does a panic inside the tested function. The fuzz
  targets and the sampling tests, whose point is that nothing panics, are stated on the functions of
  \<open>Debug_Profile\<close>, with which they run, and proved for all inputs; the others compare results, on which the two
  profiles agree, and are evaluated on the definitions of \<open>Codegen\<close>.
\<close>

unbundle bit_operations_syntax

section \<open>Assertions\<close>

text \<open>\<open>unwrap()\<close> or \<open>?\<close> in a test, on a result that may also be a panic.\<close>

definition on_ok :: "('e + 'a) option \<Rightarrow> ('a \<Rightarrow> bool) \<Rightarrow> bool" where
  "on_ok r k = (case r of Some (Inr x) \<Rightarrow> k x | _ \<Rightarrow> False)"

definition str_contains :: "string \<Rightarrow> string \<Rightarrow> bool" where
  "str_contains s sub \<longleftrightarrow> sublist sub s"

text \<open>A byte string literal.\<close>

abbreviation bytes :: "string \<Rightarrow> u8 list" where
  "bytes s \<equiv> map byte s"

text \<open>An assertion on \<open>prog[k]\<close>; indexing out of range fails the test.\<close>

definition at_index :: "bpf_insn list \<Rightarrow> nat \<Rightarrow> (bpf_insn \<Rightarrow> bool) \<Rightarrow> bool" where
  "at_index prog k P = (case get_index prog k of Some i \<Rightarrow> P i | None \<Rightarrow> False)"

text \<open>\<open>prog[prog.len() - k]\<close>\<close>

definition from_end :: "bpf_insn list \<Rightarrow> nat \<Rightarrow> (bpf_insn \<Rightarrow> bool) \<Rightarrow> bool" where
  "from_end prog k P = (k \<le> length prog \<and> at_index prog (length prog - k) P)"

definition ends_in_exit :: "bpf_insn list \<Rightarrow> bool" where
  "ends_in_exit prog = from_end prog 1 (\<lambda>last. code last AND 0xF0 = BPF_EXIT)"

section \<open>Fuzz targets and property tests\<close>

text \<open>\<open>fuzz_targets/fuzz_compiler.rs\<close>: the jump check of one instruction, then the target.\<close>

definition fuzz_jump_ok :: "nat \<Rightarrow> nat \<Rightarrow> bpf_insn \<Rightarrow> bool" where
  "fuzz_jump_ok len idx insn =
     (let is_jump = (code insn AND 0x07 = 0x05);
          is_exit = (code insn AND 0xF0 = 0x90);
          is_call = (code insn AND 0xF0 = 0x80) in
      if is_jump \<and> \<not> is_exit \<and> \<not> is_call then
        let target = int idx + 1 + sint (off insn) in target \<ge> 0 \<and> nat target < len
      else True)"

definition fuzz_compiler :: "u8 list \<Rightarrow> bool" where
  "fuzz_compiler data =
     (if slice_len data > MAX_BPF_PATTERN_LEN \<or> data = [] then True
      else case compile_literal_search_dbg data of
        None \<Rightarrow> False
      | Some (Inl _) \<Rightarrow> True
      | Some (Inr prog) \<Rightarrow>
          prog \<noteq> [] \<and> code (last prog) AND 0xF0 = 0x90
          \<and> list_all (\<lambda>(idx, insn). fuzz_jump_ok (length prog) idx insn) (List.enumerate 0 prog))"

definition fuzz_literal_compile :: "u8 list \<Rightarrow> bool" where
  "fuzz_literal_compile data \<longleftrightarrow> compile_literal_search_dbg data \<noteq> None"

text \<open>\<open>tests/property/compiler.rs\<close>: the function returns, with either result.\<close>

definition prop_compile_literal_search_doesnt_panic :: "u8 list \<Rightarrow> bool" where
  "prop_compile_literal_search_doesnt_panic bs \<longleftrightarrow>
     (case compile_literal_search_dbg bs of None \<Rightarrow> False | Some r \<Rightarrow> \<not> isl r \<or> isl r)"

definition prop_compile_character_class_doesnt_panic :: "u8 list \<Rightarrow> bool" where
  "prop_compile_character_class_doesnt_panic s \<longleftrightarrow>
     (case compile_character_class_dbg s of None \<Rightarrow> False | Some r \<Rightarrow> \<not> isl r \<or> isl r)"

section \<open>Unit tests of the compiler module\<close>

definition empty_pattern_returns_immediate_true :: bool where
  "empty_pattern_returns_immediate_true = on_ok (compile_literal_search []) (\<lambda>prog.
     length prog = 4 \<and> at_index prog 2 (\<lambda>i. imm i = 1))"

definition single_byte_pattern_generates_valid_program :: bool where
  "single_byte_pattern_generates_valid_program = on_ok (compile_literal_search (bytes ''A'')) (\<lambda>prog.
     8 \<le> length prog \<and> ends_in_exit prog)"

definition multi_byte_pattern_unrolls_correctly :: bool where
  "multi_byte_pattern_unrolls_correctly = on_ok (compile_literal_search (bytes ''abc'')) (\<lambda>prog.
     length (filter is_byte_load prog) = 3)"

definition jump_offsets_are_valid :: bool where
  "jump_offsets_are_valid = on_ok (compile_literal_search (bytes ''XY'')) assert_jump_offsets_are_valid"

definition program_terminates_with_exit :: bool where
  "program_terminates_with_exit =
     list_all (\<lambda>pattern. on_ok (compile_literal_search pattern) ends_in_exit)
       [bytes ''a'', bytes ''ab'', bytes ''hello world'', []]"

text \<open>\<open>find\<close> returns the first bounds check; its target, computed in \<open>usize\<close>, must set R0 to 0.\<close>

definition backpatch_bounds_check_points_to_fail :: bool where
  "backpatch_bounds_check_points_to_fail = on_ok (compile_literal_search (bytes ''test'')) (\<lambda>prog.
     (case List.find (\<lambda>(idx, i). is_bounds_check i) (List.enumerate 0 prog) of
        None \<Rightarrow> False
      | Some (idx, insn) \<Rightarrow>
          let target = (of_nat idx + 1 + scast (off insn) :: usize) in at_index prog (unat target) (\<lambda>i. imm i = 0)))"

definition long_pattern_compiles :: bool where
  "long_pattern_compiles =
     (let pattern = bytes ''this is a longer pattern for testing unroll depth'' in
      on_ok (compile_literal_search pattern) (\<lambda>prog. length (filter is_byte_load prog) = length pattern))"

definition max_length_pattern_compiles :: bool where
  "max_length_pattern_compiles =
     (let pattern = replicate (unat MAX_BPF_PATTERN_LEN) (byte CHR ''A'') in
      on_ok (compile_literal_search pattern) (\<lambda>prog. length prog > length pattern))"

definition oversized_pattern_returns_error :: bool where
  "oversized_pattern_returns_error =
     (let pattern = replicate (unat MAX_BPF_PATTERN_LEN + 1) (byte CHR ''A'') in
      case compile_literal_search pattern of
        None \<Rightarrow> False
      | Some r \<Rightarrow>
          let message = (case r of Inr _ \<Rightarrow> [] | Inl error \<Rightarrow> compile_error_message error)
          in str_contains message ''exceeds BPF verifier limit'')"

definition character_class_with_ranges_generates_match_and_fail_paths :: bool where
  "character_class_with_ranges_generates_match_and_fail_paths =
     on_ok (compile_character_class (bytes ''a-z0-9'')) (\<lambda>prog.
       length prog > 4 \<and> from_end prog 4 (\<lambda>i. imm i = 0) \<and> from_end prog 2 (\<lambda>i. imm i = 1)
       \<and> ends_in_exit prog \<and> assert_jump_offsets_are_valid prog)"

definition empty_character_class_is_impossible_match :: bool where
  "empty_character_class_is_impossible_match = on_ok (compile_character_class []) (\<lambda>prog.
     length prog = 2 \<and> at_index prog 0 (\<lambda>i. imm i = 0) \<and> at_index prog 1 (\<lambda>i. code i AND 0xF0 = BPF_EXIT))"

definition alternation_compiles_sequence_with_match_and_fail_paths :: bool where
  "alternation_compiles_sequence_with_match_and_fail_paths =
     on_ok (compile_alternation [bytes ''ab'', bytes ''xy'', bytes ''z'']) (\<lambda>prog.
       length prog > 4 \<and> from_end prog 4 (\<lambda>i. imm i = 0) \<and> from_end prog 2 (\<lambda>i. imm i = 1)
       \<and> assert_jump_offsets_are_valid prog)"

definition alternation_with_empty_alternative_matches_immediately :: bool where
  "alternation_with_empty_alternative_matches_immediately =
     on_ok (compile_alternation [bytes ''ab'', [], bytes ''cd'']) (\<lambda>prog.
       length prog = 2 \<and> at_index prog 0 (\<lambda>i. imm i = 1) \<and> at_index prog 1 (\<lambda>i. code i AND 0xF0 = BPF_EXIT))"

definition all_nul_pattern_compiles_and_compares_zero_bytes :: bool where
  "all_nul_pattern_compiles_and_compares_zero_bytes =
     (let pattern = [0, 0, 0, 0] in
      on_ok (compile_literal_search pattern) (\<lambda>prog.
        length (filter (\<lambda>insn. is_compare insn \<and> imm insn = 0) prog) = length pattern
        \<and> assert_jump_offsets_are_valid prog))"

definition pattern_with_1025_bytes_is_rejected :: bool where
  "pattern_with_1025_bytes_is_rejected =
     (let pattern = replicate (unat MAX_BPF_PATTERN_LEN + 1) 0 in
      case compile_literal_search pattern of
        Some (Inl (PatternTooLong len mx)) \<Rightarrow> len = 1025 \<and> mx = MAX_BPF_PATTERN_LEN
      | _ \<Rightarrow> False)"

definition two_hundred_fifty_six_byte_identity_pattern_compiles :: bool where
  "two_hundred_fifty_six_byte_identity_pattern_compiles =
     (let pattern = map of_nat [0..<256] in
      on_ok (compile_literal_search pattern) (\<lambda>prog. length prog > length pattern))"

definition character_class_rejects_reversed_ranges :: bool where
  "character_class_rejects_reversed_ranges \<longleftrightarrow> compile_character_class (bytes ''z-a'')
     = Some (Err (InvalidPattern ''character class range endpoints are reversed''))"

definition pretty_printer_formats_compiled_program :: bool where
  "pretty_printer_formats_compiled_program = on_ok (compile_literal_search (bytes ''AZ'')) (\<lambda>prog.
     let rendered = format_program prog in
     str_contains rendered ''0000: r2 = *(u32 *)(r1 + 0)'' \<and> str_contains rendered ''if r7 != 65 goto''
     \<and> str_contains rendered ''exit'')"

section \<open>Unit tests of the assembler\<close>

definition new_instruction_packs_registers :: bool where
  "new_instruction_packs_registers =
     (let instruction = bpf_insn_new (BPF_ALU64 OR BPF_ADD OR BPF_X) R3 R7 2 0 in
      regs instruction = 0x73 \<and> dst_reg instruction = R3 \<and> src_reg instruction = R7)"

definition display_renders_exit :: bool where
  "display_renders_exit \<longleftrightarrow> display (bpf_insn_new (BPF_JMP OR BPF_EXIT) 0 0 0 0) = ''exit''"

definition display_renders_word_load :: bool where
  "display_renders_word_load \<longleftrightarrow>
     display (bpf_insn_new (BPF_LDX OR BPF_MEM OR BPF_W) R2 R1 4 0) = ''r2 = *(u32 *)(r1 + 4)''"

definition display_renders_move_immediate :: bool where
  "display_renders_move_immediate \<longleftrightarrow> display (bpf_insn_new (BPF_ALU64 OR BPF_MOV OR BPF_K) R0 0 0 1) = ''r0 = 1''"

definition display_renders_add_register :: bool where
  "display_renders_add_register \<longleftrightarrow> display (bpf_insn_new (BPF_ALU64 OR BPF_ADD OR BPF_X) R5 R4 0 0) = ''r5 += r4''"

definition display_renders_conditional_jump_with_immediate :: bool where
  "display_renders_conditional_jump_with_immediate \<longleftrightarrow>
     display (bpf_insn_new (BPF_JMP OR BPF_JNE OR BPF_K) R7 0 3 255) = ''if r7 != 255 goto +4''"

definition display_renders_conditional_jump_with_register :: bool where
  "display_renders_conditional_jump_with_register \<longleftrightarrow>
     display (bpf_insn_new (BPF_JMP OR BPF_JGT OR BPF_X) R6 R3 8 0) = ''if r6 > r3 goto +9''"

definition display_falls_back_for_unknown_opcode :: bool where
  "display_falls_back_for_unknown_opcode \<longleftrightarrow>
     display (bpf_insn_new 0xff R1 R2 (- 1) 42) = ''code=0xff dst=r1 src=r2 off=-1 imm=42''"

definition format_program_lists_each_instruction :: bool where
  "format_program_lists_each_instruction \<longleftrightarrow>
     format_program [bpf_insn_new (BPF_ALU64 OR BPF_MOV OR BPF_K) R0 0 0 1, bpf_insn_new (BPF_JMP OR BPF_EXIT) 0 0 0 0]
       = ''0000: r0 = 1'' @ [CHR 10] @ ''0001: exit''"

section \<open>Every input\<close>

lemma fuzz_jump_ok_eq: "fuzz_jump_ok = insn_jump_ok"
  by (simp add: fuzz_jump_ok_def insn_jump_ok_def bpf_opcodes Let_def fun_eq_iff)

lemma jumps_ok_enumerate: "list_all (\<lambda>(idx, i). insn_jump_ok len idx i) (List.enumerate n is) = jumps_ok len n is"
  by (induction "is" arbitrary: n) auto

lemma fuzz_compiler_ok:
  assumes "length data < 2 ^ 62"
  shows "fuzz_compiler data"
proof (cases "length data \<le> 1024")
  case True
  then have wf: "well_formed_program (literal_filter data)"
    by (rule literal_filter_well_formed)
  then have "code (last (literal_filter data)) AND 0xF0 = 0x90"
    by (simp add: well_formed_program_def exit_insn_def bpf_opcodes)
  with wf show ?thesis
    by (simp add: fuzz_compiler_def compile_literal_search_agrees [OF assms] compile_literal_search_small [OF True]
        fuzz_jump_ok_eq jumps_ok_enumerate well_formed_program_def assert_jump_offsets_are_valid_def)
next
  case False
  then have "slice_len data > MAX_BPF_PATTERN_LEN"
    using slice_len_le_iff [of data 1024] assms by (simp add: MAX_BPF_PATTERN_LEN_def)
  then show ?thesis
    by (simp add: fuzz_compiler_def)
qed

lemma compile_literal_search_returns: "length data < 2 ^ 62 \<Longrightarrow> \<exists>r. compile_literal_search data = Some r"
  using compile_literal_search_small [of data] compile_literal_search_large [of data]
  by (cases "length data \<le> 1024") auto

section \<open>Evaluating the unit tests\<close>

lemmas parse_eval = parse_character_class_def decode_character_class_escape_def from_utf8_ok_def utf8_step_def
  utf8_char_width_def byte_at_def is_cont_def

lemma on_ok_Some [simp]: "on_ok (Some (Inr x)) k = k x"
  by (simp add: on_ok_def)

lemma str_containsI: "s = pre @ sub @ post \<Longrightarrow> str_contains s sub"
  by (auto simp: str_contains_def sublist_def)

lemma literal_filter_length: "length (literal_filter p) = (if p = [] then 4 else 14 + 2 * length p)"
  by (simp add: literal_filter_def)

lemma literal_ends_in_exit:
  assumes "length p \<le> 1024"
  shows "ends_in_exit (literal_filter p)"
proof -
  have wf: "literal_filter p \<noteq> []" "last (literal_filter p) = exit_insn"
    using literal_filter_well_formed [OF assms] by (simp_all add: well_formed_program_def)
  then have "1 \<le> length (literal_filter p)"
    by (cases "literal_filter p") auto
  with wf show ?thesis
    by (simp add: ends_in_exit_def from_end_def at_index_def get_index_def last_conv_nth exit_insn_def bpf_opcodes)
qed

lemma literal_jumps_valid: "length p \<le> 1024 \<Longrightarrow> assert_jump_offsets_are_valid (literal_filter p)"
  using literal_filter_well_formed [of p] by (simp add: well_formed_program_def)

lemma empty_literal_test: empty_pattern_returns_immediate_true
  by (simp add: empty_pattern_returns_immediate_true_def compile_literal_search_small literal_filter_def at_index_def
      get_index_def alu64_imm_def)

lemma literal_tests:
  single_byte_pattern_generates_valid_program multi_byte_pattern_unrolls_correctly
  jump_offsets_are_valid program_terminates_with_exit long_pattern_compiles max_length_pattern_compiles
  two_hundred_fifty_six_byte_identity_pattern_compiles
  by (simp_all add: single_byte_pattern_generates_valid_program_def
    multi_byte_pattern_unrolls_correctly_def jump_offsets_are_valid_def program_terminates_with_exit_def
    long_pattern_compiles_def max_length_pattern_compiles_def two_hundred_fifty_six_byte_identity_pattern_compiles_def
    compile_literal_search_small literal_filter_observed literal_jumps_valid literal_ends_in_exit
    literal_filter_length MAX_BPF_PATTERN_LEN_def)

lemma too_long_message: "str_contains (compile_error_message (PatternTooLong n m)) ''exceeds BPF verifier limit''"
  by (rule str_containsI [where pre = "''pattern length '' @ show_nat (unat n) @ '' ''"
        and post = "'' of '' @ show_nat (unat m) @ '' bytes. Fix: use userspace matching for patterns longer than ''
          @ show_nat (unat m) @ '' bytes.''"]) simp

lemma literal_rejection_tests:
  oversized_pattern_returns_error pattern_with_1025_bytes_is_rejected
proof -
  have large: "compile_literal_search (replicate (Suc 1024) b) = Some (Err (PatternTooLong 1025 1024))" for b
    using compile_literal_search_large [of "replicate (Suc 1024) b"] by (simp add: slice_len_def)
  show pattern_with_1025_bytes_is_rejected
    using large by (simp add: pattern_with_1025_bytes_is_rejected_def MAX_BPF_PATTERN_LEN_def)
  show oversized_pattern_returns_error
    using large too_long_message by (simp add: oversized_pattern_returns_error_def MAX_BPF_PATTERN_LEN_def
        del: compile_error_message.simps)
qed

lemma backpatch_test: backpatch_bounds_check_points_to_fail
proof -
  let ?prog = "literal_filter (bytes ''test'')"
  have check: "List.find (\<lambda>(idx, i). is_bounds_check i) (List.enumerate 0 ?prog) = Some (7, jmp_reg BPF_JGT R6 R3 12)"
    and fail: "?prog ! 20 = alu64_imm BPF_MOV R0 0"
    using literal_bounds_check [of "bytes ''test''"] by simp_all
  have target: "unat (of_nat 7 + 1 + scast (12 :: i16) :: usize) = 20"
    using scast_of_nat_16 [of 12] by simp
  have "at_index ?prog 20 (\<lambda>i. imm i = 0)"
    by (simp add: at_index_def get_index_def fail [simplified] literal_filter_length alu64_imm_def)
  then show ?thesis
    unfolding backpatch_bounds_check_points_to_fail_def
    by (simp add: compile_literal_search_small check [simplified] target [simplified] jmp_reg_def)
qed

lemma nul_test: all_nul_pattern_compiles_and_compares_zero_bytes
  using literal_jumps_valid [of "[0, 0, 0, 0]"]
  by (simp add: all_nul_pattern_compiles_and_compares_zero_bytes_def compile_literal_search_small literal_filter_def
      literal_program_def Let_def)

lemma class_tests:
  character_class_with_ranges_generates_match_and_fail_paths empty_character_class_is_impossible_match
  character_class_rejects_reversed_ranges
proof -
  let ?rs = "[\<lparr>lo = 0x61, hi = 0x7A\<rparr>, \<lparr>lo = 0x30, hi = 0x39\<rparr>]"
  have "compile_character_class (bytes ''a-z0-9'') = Some (Ok (class_program ?rs))"
    by (simp add: compile_character_class_def parse_eval compile_char_class_eq)
  moreover have "assert_jump_offsets_are_valid (class_program ?rs)"
    using class_program_well_formed [of ?rs] by (simp add: well_formed_program_def)
  ultimately show character_class_with_ranges_generates_match_and_fail_paths
    by (simp add: character_class_with_ranges_generates_match_and_fail_paths_def from_end_def at_index_def get_index_def
        ends_in_exit_def class_program_def alu64_imm_def exit_insn_def bpf_opcodes)
  show empty_character_class_is_impossible_match
    by (simp add: empty_character_class_is_impossible_match_def compile_character_class_def at_index_def get_index_def
        alu64_imm_def exit_insn_def bpf_opcodes)
  show character_class_rejects_reversed_ranges
    by (simp add: character_class_rejects_reversed_ranges_def compile_character_class_def parse_eval)
qed

lemma alternation_tests:
  alternation_compiles_sequence_with_match_and_fail_paths alternation_with_empty_alternative_matches_immediately
proof -
  let ?as = "[bytes ''ab'', bytes ''xy'', bytes ''z'']"
  have "compile_alternation ?as = Some (Ok (alternation_program ?as))"
    by (simp add: compile_alternation_eq)
  moreover have "assert_jump_offsets_are_valid (alternation_program ?as)"
    using alternation_program_well_formed [of ?as] by (simp add: well_formed_program_def)
  moreover have "length (alternation_program ?as) = 26" "alternation_program ?as ! 22 = alu64_imm BPF_MOV R0 0"
    "alternation_program ?as ! 24 = alu64_imm BPF_MOV R0 1"
    by (simp_all add: alternation_program_def nth_append)
  ultimately show alternation_compiles_sequence_with_match_and_fail_paths
    by (simp add: alternation_compiles_sequence_with_match_and_fail_paths_def from_end_def at_index_def get_index_def
        alu64_imm_def)
  show alternation_with_empty_alternative_matches_immediately
    by (simp add: alternation_with_empty_alternative_matches_immediately_def compile_alternation_eq at_index_def
        get_index_def alu64_imm_def exit_insn_def bpf_opcodes)
qed

lemma sublist_join_lines: "l \<in> set ls \<Longrightarrow> sublist l (join_lines ls)"
proof (induction ls rule: join_lines.induct)
  case (3 l' l'' ls)
  show ?case
  proof (cases "l = l'")
    case False
    then have "sublist l (join_lines (l'' # ls))"
      using 3 by simp
    then show ?thesis
      by (metis join_lines.simps(3) sublist_appendI sublist_Cons_right sublist_append append_Cons)
  qed simp
qed auto

lemma listing_contains:
  assumes "i \<in> set prog" "sublist sub (display i)"
  shows "str_contains (format_program prog) sub"
proof -
  obtain k where "k < length prog" "prog ! k = i"
    using assms(1) by (auto simp: in_set_conv_nth)
  then have "program_line k i \<in> set (map (\<lambda>(index, i). program_line index i) (List.enumerate 0 prog))"
    by (force simp: in_set_enumerate_eq)
  from sublist_join_lines [OF this] have "sublist (program_line k i) (format_program prog)"
    using assms(1) by (auto simp: format_program_def)
  moreover have "sublist sub (program_line k i)"
    using sublist_order.order_trans [OF assms(2) sublist_append_leftI [of "display i" "show_pad4 k @ '': ''"]]
    by (simp add: program_line_def)
  ultimately show ?thesis
    unfolding str_contains_def by (rule sublist_order.order_trans [rotated])
qed

lemma assembler_tests:
  new_instruction_packs_registers display_renders_exit display_renders_word_load display_renders_move_immediate
  display_renders_add_register display_renders_conditional_jump_with_immediate
  display_renders_conditional_jump_with_register display_falls_back_for_unknown_opcode
  format_program_lists_each_instruction
  by code_simp+

lemma pretty_printer_test: pretty_printer_formats_compiled_program
proof -
  let ?prog = "literal_filter [0x41, 0x5A]"
  have ctx: "ldx_mem BPF_W R2 R1 0 # tl ?prog = ?prog" and cmp: "jmp_imm BPF_JNE R7 (ucast (0x41 :: u8)) 4 \<in> set ?prog"
    and out: "exit_insn \<in> set ?prog"
    by (simp_all add: literal_filter_def literal_program_def Let_def)
  have "prefix ''0000: r2 = *(u32 *)(r1 + 0)'' (format_program (ldx_mem BPF_W R2 R1 0 # tl ?prog))"
    by code_simp
  then have "str_contains (format_program ?prog) ''0000: r2 = *(u32 *)(r1 + 0)''"
    unfolding ctx str_contains_def by (rule prefix_imp_sublist)
  moreover have "str_contains (format_program ?prog) ''if r7 != 65 goto''"
    by (rule listing_contains [OF cmp]) code_simp
  moreover have "str_contains (format_program ?prog) ''exit''"
    by (rule listing_contains [OF out]) (simp add: display_def exit_insn_def bpf_opcodes)
  ultimately show ?thesis
    by (simp add: pretty_printer_formats_compiled_program_def compile_literal_search_small Let_def)
qed

section \<open>Properties\<close>

text \<open>
  The fuzz targets and the property tests cannot fail: for every input (no slice is longer than the
  bound stated) the compile functions return without a panic, also with overflow checks, and every literal program
  ends in an exit and jumps only inside itself.
\<close>

theorem fuzz_targets_never_fail:
  assumes "length data < 2 ^ 61"
  shows "fuzz_compiler data \<and> fuzz_literal_compile data
    \<and> prop_compile_literal_search_doesnt_panic data \<and> prop_compile_character_class_doesnt_panic data"
proof -
  have "length data < 2 ^ 62"
    using assms by simp
  then show ?thesis
    using fuzz_compiler_ok [of data] compile_literal_search_returns [of data] compile_character_class_eq [OF assms]
      compile_literal_search_agrees [of data] compile_character_class_agrees [OF assms]
    by (auto simp: fuzz_literal_compile_def prop_compile_literal_search_doesnt_panic_def
        prop_compile_character_class_doesnt_panic_def)
qed

theorem fuzz_targets_never_fail_witness:
  "fuzz_compiler [0x00, 0xFF] \<and> prop_compile_character_class_doesnt_panic [0x5C]"
  using fuzz_targets_never_fail [of "[0x00, 0xFF]"] fuzz_targets_never_fail [of "[0x5C]"] by simp

text \<open>
  The unit tests of the compiler module and of the assembler pass on the model: what the crate's authors
  expect of lengths, jumps, verdict blocks, errors and listings at their sample inputs is what the
  definitions compute.
\<close>

theorem compiler_unit_tests_pass:
  "empty_pattern_returns_immediate_true \<and> single_byte_pattern_generates_valid_program
   \<and> multi_byte_pattern_unrolls_correctly \<and> jump_offsets_are_valid \<and> program_terminates_with_exit
   \<and> backpatch_bounds_check_points_to_fail \<and> long_pattern_compiles \<and> max_length_pattern_compiles
   \<and> oversized_pattern_returns_error \<and> character_class_with_ranges_generates_match_and_fail_paths
   \<and> empty_character_class_is_impossible_match \<and> alternation_compiles_sequence_with_match_and_fail_paths
   \<and> alternation_with_empty_alternative_matches_immediately \<and> all_nul_pattern_compiles_and_compares_zero_bytes
   \<and> pattern_with_1025_bytes_is_rejected \<and> two_hundred_fifty_six_byte_identity_pattern_compiles
   \<and> character_class_rejects_reversed_ranges \<and> pretty_printer_formats_compiled_program
   \<and> new_instruction_packs_registers \<and> display_renders_exit \<and> display_renders_word_load
   \<and> display_renders_move_immediate \<and> display_renders_add_register
   \<and> display_renders_conditional_jump_with_immediate \<and> display_renders_conditional_jump_with_register
   \<and> display_falls_back_for_unknown_opcode \<and> format_program_lists_each_instruction"
  using empty_literal_test literal_tests literal_rejection_tests backpatch_test nul_test class_tests alternation_tests
    pretty_printer_test assembler_tests by blast

end
