(* ===== verification/Parser_Tests.thy ===== *)
theory Parser_Tests
  imports Compiler_Tests
begin

text \<open>
  The unit tests inside \<open>compiler/verify.rs\<close>: class parsing, limits, and the agreement of the instruction
  estimates with the compiled lengths. As in \<open>Compiler_Tests\<close>, a test is a predicate; the
  bodies of the loops over sample inputs are predicates of their own, which hold for far
  more than the samples.
\<close>

unbundle bit_operations_syntax

section \<open>Rejections and limits\<close>

definition rejects :: "string \<Rightarrow> u8 list \<Rightarrow> bool" where
  "rejects reason cls \<longleftrightarrow> parse_character_class cls = Err (InvalidPattern reason)"

definition parse_rejects_empty_class_escapes :: bool where
  "parse_rejects_empty_class_escapes \<longleftrightarrow>
     rejects ''unterminated character-class escape'' [0x5C]
     \<and> rejects ''unterminated character-class escape'' (bytes ''a-'' @ [0x5C])"

definition parse_range_requires_ordered_endpoints :: bool where
  "parse_range_requires_ordered_endpoints \<longleftrightarrow>
     rejects ''character class range endpoints are reversed'' (bytes ''z-a'')"

definition compile_limit_safeguards_instruction_cap :: bool where
  "compile_limit_safeguards_instruction_cap \<longleftrightarrow> compile_with_limit 4097 = Err (PatternTooLong 4097 4096)"

definition literal_count_for_empty_pattern_is_fixed :: bool where
  "literal_count_for_empty_pattern_is_fixed \<longleftrightarrow> literal_search_instruction_count 0 = 4"

definition literal_count_matches :: "nat \<Rightarrow> bool" where
  "literal_count_matches len =
     (let pattern = replicate len (byte CHR ''a'') in
      on_ok (compile_literal_search pattern) (\<lambda>prog. literal_search_instruction_count (of_nat len) = slice_len prog))"

definition literal_count_matches_compiled_program_length :: bool where
  "literal_count_matches_compiled_program_length = list_all literal_count_matches [1, 3, 10, 100, 1024]"

text \<open>The two bytes of U+00E9 in UTF-8.\<close>

definition character_class_rejects_non_ascii_codepoints :: bool where
  "character_class_rejects_non_ascii_codepoints \<longleftrightarrow>
     rejects ''character class contains non-ASCII codepoints; use raw bytes or an escape sequence'' [0xC3, 0xA9]"

section \<open>Accepted classes\<close>

definition character_class_accepts_raw_invalid_utf8_bytes :: bool where
  "character_class_accepts_raw_invalid_utf8_bytes \<longleftrightarrow>
     parse_character_class [0x00, byte CHR ''-'', 0xFF] = Ok [Span 0x00 0xFF]"

text \<open>A backslash followed by each of the given characters.\<close>

definition escapes :: "string \<Rightarrow> u8 list" where
  "escapes s = concat (map (\<lambda>c. [0x5C, byte c]) s)"

definition character_class_decodes_standard_escapes :: bool where
  "character_class_decodes_standard_escapes \<longleftrightarrow>
     parse_character_class (escapes (''nrt'' @ [CHR 0x5C]) @ bytes ''.'' @ escapes ''-]['')
       = Ok [Single (byte CHR 10), Single (byte CHR 13), Single (byte CHR 9), Single (byte CHR 0x5C),
             Single (byte CHR ''.''), Single (byte CHR ''-''), Single (byte CHR '']''), Single (byte CHR ''['')]"

definition character_class_expands_class_escapes :: bool where
  "character_class_expands_class_escapes \<longleftrightarrow>
     parse_character_class (escapes ''d'') = Ok [Span (byte CHR ''0'') (byte CHR ''9'')]
     \<and> parse_character_class (escapes ''s'') = Ok [Span (byte CHR 9) (byte CHR 13), Single (byte CHR '' '')]
     \<and> parse_character_class (escapes ''w'') = Ok [Span (byte CHR ''a'') (byte CHR ''z''),
         Span (byte CHR ''A'') (byte CHR ''Z''), Span (byte CHR ''0'') (byte CHR ''9''), Single (byte CHR ''_'')]"

definition character_class_rejects_negated_class_escapes :: bool where
  "character_class_rejects_negated_class_escapes =
     list_all (rejects ''negated character-class escapes are not supported'') [escapes ''D'', escapes ''S'', escapes ''W'']"

definition character_class_range_with_escape_endpoint_works :: bool where
  "character_class_range_with_escape_endpoint_works \<longleftrightarrow>
     parse_character_class (escapes ''d'' @ bytes ''-'' @ escapes ''w'')
       = Ok ([Span (byte CHR ''0'') (byte CHR ''9'')] @ [Single (byte CHR ''-'')]
             @ [Span (byte CHR ''a'') (byte CHR ''z''), Span (byte CHR ''A'') (byte CHR ''Z''),
                Span (byte CHR ''0'') (byte CHR ''9''), Single (byte CHR ''_'')])"

definition character_class_rejects_consecutive_dashes :: bool where
  "character_class_rejects_consecutive_dashes =
     list_all (rejects ''character class contains consecutive unescaped dashes'')
       [bytes ''a--z'', bytes ''-----'', bytes ''a---b'']"

section \<open>Estimates\<close>

definition class_estimate_matches :: "u8 list \<Rightarrow> bool" where
  "class_estimate_matches cls =
     (case parse_character_class cls of
        Inl _ \<Rightarrow> False
      | Inr ranges \<Rightarrow> on_ok (compile_character_class cls) (\<lambda>prog.
          estimate_character_class_instructions ranges = slice_len prog))"

definition char_class_estimate_equals_actual_compiled_length :: bool where
  "char_class_estimate_equals_actual_compiled_length \<longleftrightarrow>
     list_all class_estimate_matches [bytes ''a'', bytes ''az'', bytes ''a-z'', bytes ''a-z0-9'', bytes ''a-z0-9_'']
     \<and> estimate_character_class_instructions [Single 0x41] = 6"

definition alternation_estimate_matches :: "u8 list list \<Rightarrow> bool" where
  "alternation_estimate_matches alts =
     on_ok (compile_alternation alts) (\<lambda>prog. estimate_alternation_instructions alts = slice_len prog)"

definition alternation_estimate_equals_actual_compiled_length :: bool where
  "alternation_estimate_equals_actual_compiled_length \<longleftrightarrow>
     list_all alternation_estimate_matches
       [[bytes ''aa'', bytes ''b''], [bytes ''foo''], [bytes ''ab'', bytes ''cd'', bytes ''ef'']]
     \<and> estimate_alternation_instructions [bytes ''aa'', bytes ''b''] = 18"

section \<open>Lemmas\<close>

lemma rejection_tests:
  parse_rejects_empty_class_escapes parse_range_requires_ordered_endpoints
  character_class_rejects_non_ascii_codepoints character_class_rejects_negated_class_escapes
  character_class_rejects_consecutive_dashes
  by (simp_all add: parse_rejects_empty_class_escapes_def parse_range_requires_ordered_endpoints_def
    character_class_rejects_non_ascii_codepoints_def character_class_rejects_negated_class_escapes_def
    character_class_rejects_consecutive_dashes_def parse_eval escapes_def rejects_def)

lemma acceptance_tests:
  character_class_accepts_raw_invalid_utf8_bytes character_class_decodes_standard_escapes
  character_class_expands_class_escapes character_class_range_with_escape_endpoint_works
  by (simp_all add: character_class_accepts_raw_invalid_utf8_bytes_def character_class_decodes_standard_escapes_def
    character_class_expands_class_escapes_def character_class_range_with_escape_endpoint_works_def parse_eval escapes_def rejects_def)

lemma literal_count_matches_all:
  assumes "len \<le> 1024"
  shows "literal_count_matches len"
  using literal_estimate [of "replicate len (byte CHR ''a'')"] assms
  by (simp add: literal_count_matches_def compile_literal_search_small slice_len_def)

lemma class_estimate_matches_all:
  assumes "length cls < 2 ^ 61" "parse_character_class cls = Ok ranges" "length ranges \<le> 2046"
  shows "class_estimate_matches cls"
proof -
  obtain prog where "compile_character_class cls = Some (Ok prog)"
    using assms compile_character_class_eq [OF assms(1)] by (cases "cls = []") auto
  with character_class_estimate [OF assms(1,2)] assms(2) show ?thesis
    by (simp add: class_estimate_matches_def on_ok_def)
qed

lemma alternation_estimate_matches_all:
  assumes "alts_size alts \<le> 4092"
  shows "alternation_estimate_matches alts"
proof -
  obtain prog where "compile_alternation alts = Some (Ok prog)"
    using assms compile_alternation_eq [of alts] by (cases "alts = []"; cases "[] \<in> set alts") auto
  with alternation_estimate [of alts] assms show ?thesis
    by (simp add: alternation_estimate_matches_def on_ok_def)
qed

lemma estimate_tests:
  literal_count_matches_compiled_program_length char_class_estimate_equals_actual_compiled_length
  alternation_estimate_equals_actual_compiled_length
  using literal_count_matches_all
  by (simp_all add: literal_count_matches_compiled_program_length_def char_class_estimate_equals_actual_compiled_length_def
    alternation_estimate_equals_actual_compiled_length_def alternation_estimate_matches_all class_estimate_matches_all parse_eval
    estimate_character_class_instructions_def estimate_alternation_instructions_def slice_len_def)

lemma limit_tests: compile_limit_safeguards_instruction_cap literal_count_for_empty_pattern_is_fixed
  by (simp_all add: compile_limit_safeguards_instruction_cap_def literal_count_for_empty_pattern_is_fixed_def
    compile_with_limit_def MAX_BPF_INSTRUCTION_LEN_def literal_search_instruction_count_def)

section \<open>Properties\<close>

text \<open>
  The unit tests of the class parser and of the limits pass on the model, and the three that sample the
  instruction estimates hold for every input that compiles: every literal length up to
  1024, every class text of at most 2046 ranges, every alternation within the limit.
\<close>

theorem parser_unit_tests_pass:
  "(\<forall>len \<le> 1024. literal_count_matches len)
   \<and> (\<forall>cls ranges. length cls < 2 ^ 61 \<and> parse_character_class cls = Ok ranges \<and> length ranges \<le> 2046 \<longrightarrow>
        class_estimate_matches cls)
   \<and> (\<forall>alts. alts_size alts \<le> 4092 \<longrightarrow> alternation_estimate_matches alts)
   \<and> parse_rejects_empty_class_escapes \<and> parse_range_requires_ordered_endpoints
   \<and> compile_limit_safeguards_instruction_cap \<and> literal_count_for_empty_pattern_is_fixed
   \<and> literal_count_matches_compiled_program_length \<and> character_class_rejects_non_ascii_codepoints
   \<and> character_class_accepts_raw_invalid_utf8_bytes \<and> character_class_decodes_standard_escapes
   \<and> character_class_expands_class_escapes \<and> character_class_rejects_negated_class_escapes
   \<and> character_class_range_with_escape_endpoint_works \<and> character_class_rejects_consecutive_dashes
   \<and> char_class_estimate_equals_actual_compiled_length \<and> alternation_estimate_equals_actual_compiled_length"
  using literal_count_matches_all class_estimate_matches_all alternation_estimate_matches_all rejection_tests acceptance_tests
    estimate_tests limit_tests by blast

theorem parser_unit_tests_pass_witness:
  "literal_count_matches 77 \<and> class_estimate_matches (escapes ''w'') \<and> alternation_estimate_matches [[1, 2], [3]]"
proof -
  have "parse_character_class (escapes ''w'') = Ok [Span 0x61 0x7A, Span 0x41 0x5A, Span 0x30 0x39, Single 0x5F]"
    by (simp add: parse_eval escapes_def)
  then have "class_estimate_matches (escapes ''w'')"
    using parser_unit_tests_pass by (fastforce simp: escapes_def)
  moreover have "literal_count_matches 77" "alternation_estimate_matches [[1, 2], [3]]"
    using parser_unit_tests_pass by simp_all
  ultimately show ?thesis by simp
qed

end
