(* ===== verification/Suite_Tests.thy ===== *)
theory Suite_Tests
  imports Parser_Tests Class_Semantics
begin

text \<open>
  The tests of \<open>tests/unit/compiler.rs\<close>, which see the compiler only through its public interface. As in
  \<open>Compiler_Tests\<close> a test is a predicate that holds when no assertion fails, and the body of a loop over
  samples is a predicate of its own, proved for every input within the limits. The tests at the end of the file run
  compiled classes on its interpreter, which is \<open>run_char_class\<close> of \<open>Machine\<close>.
\<close>

unbundle bit_operations_syntax

section \<open>Helpers of the tests\<close>

definition valid_jump_offset :: "nat \<Rightarrow> nat \<Rightarrow> bpf_insn \<Rightarrow> bool" where
  "valid_jump_offset len idx insn =
     (let is_jump = (code insn AND 0x07 = BPF_JMP) in
      if is_jump \<and> code insn AND 0xF0 \<noteq> BPF_EXIT \<and> code insn AND 0xF0 \<noteq> 0x80 then
        let target = int idx + 1 + sint (off insn) in target \<ge> 0 \<and> nat target < len
      else True)"

definition assert_valid_jump_offsets :: "bpf_insn list \<Rightarrow> bool" where
  "assert_valid_jump_offsets program =
     list_all (\<lambda>(idx, insn). valid_jump_offset (length program) idx insn) (List.enumerate 0 program)"

definition count_instructions :: "bpf_insn list \<Rightarrow> u8 \<Rightarrow> u8 \<Rightarrow> nat" where
  "count_instructions program code_mask code_match = length (filter (\<lambda>i. code i AND code_mask = code_match) program)"

abbreviation byte_loads :: "bpf_insn list \<Rightarrow> nat" where
  "byte_loads prog \<equiv> count_instructions prog 0xFF (BPF_LDX OR BPF_MEM OR BPF_B)"

text \<open>\<open>is_ok()\<close>, and \<open>matches!\<close> against the two kinds of error.\<close>

definition returns_ok :: "(compile_error + 'a) option \<Rightarrow> bool" where
  "returns_ok r = on_ok r (\<lambda>_. True)"

fun is_too_long :: "(compile_error + 'a) option \<Rightarrow> bool" where
  "is_too_long (Some (Inl (PatternTooLong len mx))) = True"
| "is_too_long _ = False"

fun is_invalid :: "(compile_error + 'a) option \<Rightarrow> bool" where
  "is_invalid (Some (Inl (InvalidPattern reason))) = True"
| "is_invalid _ = False"

section \<open>Literals\<close>

definition compile_single_literal_pattern_produces_valid_bytecode :: bool where
  "compile_single_literal_pattern_produces_valid_bytecode = on_ok (compile_literal_search (bytes ''test'')) (\<lambda>prog.
     prog \<noteq> [] \<and> ends_in_exit prog
     \<and> at_index prog 0 (\<lambda>i. code i = BPF_LDX OR BPF_MEM OR BPF_W)
     \<and> at_index prog 1 (\<lambda>i. code i = BPF_LDX OR BPF_MEM OR BPF_W)
     \<and> assert_valid_jump_offsets prog)"

definition compile_single_byte_pattern_produces_valid_program :: bool where
  "compile_single_byte_pattern_produces_valid_program = on_ok (compile_literal_search (bytes ''X'')) (\<lambda>prog.
     8 \<le> length prog \<and> ends_in_exit prog \<and> byte_loads prog = 1 \<and> assert_valid_jump_offsets prog)"

definition literal_under_bpf_limit :: "u8 list \<Rightarrow> bool" where
  "literal_under_bpf_limit pattern = on_ok (compile_literal_search pattern) (\<lambda>prog. length prog < 4096)"

definition compiled_program_instruction_count_under_bpf_limit :: bool where
  "compiled_program_instruction_count_under_bpf_limit \<longleftrightarrow>
     literal_under_bpf_limit (replicate (unat MAX_BPF_PATTERN_LEN) (byte CHR ''A''))
     \<and> list_all (\<lambda>size. literal_under_bpf_limit (replicate size (byte CHR ''x''))) [1, 10, 100, 500, 1000]"

definition half_compiles :: "u8 list \<Rightarrow> bool" where
  "half_compiles half \<longleftrightarrow> slice_len half \<le> MAX_BPF_PATTERN_LEN
     \<and> on_ok (compile_literal_search half) (\<lambda>prog.
         prog \<noteq> [] \<and> ends_in_exit prog \<and> byte_loads prog = length half \<and> assert_valid_jump_offsets prog)"

definition pattern_with_all_byte_values_compiles_correctly :: bool where
  "pattern_with_all_byte_values_compiles_correctly =
     list_all half_compiles [map of_nat [0..<0x80], map of_nat [0x80..<0x100]]"

definition pattern_with_null_bytes_compiles_correctly :: bool where
  "pattern_with_null_bytes_compiles_correctly = on_ok (compile_literal_search [0, 1, 0, 2, 0]) (\<lambda>prog.
     length (filter (\<lambda>insn. is_compare insn \<and> imm insn = 0) prog) = 3 \<and> assert_valid_jump_offsets prog)"

definition pattern_with_high_bytes_compiles_correctly :: bool where
  "pattern_with_high_bytes_compiles_correctly = on_ok (compile_literal_search (map of_nat [0x80..<0x100])) (\<lambda>prog.
     prog \<noteq> [] \<and> ends_in_exit prog \<and> assert_valid_jump_offsets prog)"

definition empty_pattern_returns_error_not_panic :: bool where
  "empty_pattern_returns_error_not_panic = on_ok (compile_literal_search []) (\<lambda>prog.
     length prog = 4 \<and> at_index prog 2 (\<lambda>i. imm i = 1) \<and> at_index prog 3 (\<lambda>i. code i AND 0xF0 = BPF_EXIT))"

definition pattern_longer_than_bpf_limit_returns_error :: bool where
  "pattern_longer_than_bpf_limit_returns_error =
     is_too_long (compile_literal_search (replicate (unat MAX_BPF_PATTERN_LEN + 1) (byte CHR ''A'')))"

definition pattern_at_exact_limit_compiles_successfully :: bool where
  "pattern_at_exact_limit_compiles_successfully =
     literal_under_bpf_limit (replicate (unat MAX_BPF_PATTERN_LEN) (byte CHR ''B''))"

definition compile_with_limit_rejects_excessive_instruction_count :: bool where
  "compile_with_limit_rejects_excessive_instruction_count \<longleftrightarrow> compile_with_limit 5000 = Err (PatternTooLong 5000 4096)"

definition multiple_patterns_produce_distinct_programs :: bool where
  "multiple_patterns_produce_distinct_programs =
     on_ok (compile_literal_search (bytes ''pattern1'')) (\<lambda>prog1.
     on_ok (compile_literal_search (bytes ''pattern2'')) (\<lambda>prog2.
     on_ok (compile_literal_search (bytes ''completely_different'')) (\<lambda>prog3.
       format_program prog1 \<noteq> format_program prog2
       \<and> list_all (\<lambda>prog. prog \<noteq> [] \<and> ends_in_exit prog) [prog1, prog2, prog3])))"

text \<open>The two tests of determinism are this one, at one pattern each.\<close>

definition listings_agree :: "u8 list \<Rightarrow> bool" where
  "listings_agree pattern =
     on_ok (compile_literal_search pattern) (\<lambda>prog1.
     on_ok (compile_literal_search pattern) (\<lambda>prog2. format_program prog1 = format_program prog2))"

definition identical_patterns_produce_equivalent_programs :: bool where
  "identical_patterns_produce_equivalent_programs = listings_agree (bytes ''identical'')"

definition program_formatting_is_deterministic :: bool where
  "program_formatting_is_deterministic = listings_agree (bytes ''deterministic_test'')"

text \<open>Targets are computed in \<open>isize\<close>; \<open>find\<close> is the first bounds check, if there is one.\<close>

definition backpatched_bounds_check_jumps_to_fail_block :: bool where
  "backpatched_bounds_check_jumps_to_fail_block = on_ok (compile_literal_search (bytes ''test'')) (\<lambda>prog.
     (case List.find (\<lambda>(idx, i). code i = BPF_JMP OR 0x20 OR 0x08) (List.enumerate 0 prog) of
        None \<Rightarrow> True
      | Some (idx, insn) \<Rightarrow>
          let target = int idx + 1 + sint (off insn) in
          target \<ge> 0 \<and> nat target < length prog \<and> at_index prog (nat target) (\<lambda>i. imm i = 0)))"

definition backpatched_byte_checks_jumps_to_next_iter :: bool where
  "backpatched_byte_checks_jumps_to_next_iter = on_ok (compile_literal_search (bytes ''ab'')) (\<lambda>prog.
     let jne_instructions = filter (\<lambda>(idx, i). is_compare i) (List.enumerate 0 prog) in
     jne_instructions \<noteq> []
     \<and> list_all (\<lambda>(idx, insn). let target = int idx + 1 + sint (off insn) in target \<ge> 0 \<and> nat target < length prog)
         jne_instructions)"

definition unrolled :: "u8 list \<Rightarrow> bool" where
  "unrolled pattern = on_ok (compile_literal_search pattern) (\<lambda>prog.
     byte_loads prog = length pattern \<and> assert_valid_jump_offsets prog)"

definition unrolled_byte_comparison_count_matches_pattern_length :: bool where
  "unrolled_byte_comparison_count_matches_pattern_length =
     list_all (\<lambda>pattern_len. unrolled (map (\<lambda>i. byte CHR ''a'' + of_nat (i mod 26)) [0..<pattern_len])) [1, 5, 10, 50]"

definition multi_byte_pattern_unrolls_correctly_suite :: bool where
  "multi_byte_pattern_unrolls_correctly_suite = unrolled (bytes ''hello world'')"

definition spelled :: "u8 list \<Rightarrow> bool" where
  "spelled pattern = on_ok (compile_literal_search pattern) (\<lambda>prog.
     let jne_instructions = filter is_compare prog in
     length jne_instructions = length pattern
     \<and> list_all (\<lambda>(i, insn). case get_index pattern i of Some b \<Rightarrow> imm insn = ucast b | None \<Rightarrow> False)
         (List.enumerate 0 jne_instructions))"

definition unrolled_byte_comparison_has_correct_immediate_values :: bool where
  "unrolled_byte_comparison_has_correct_immediate_values = spelled (bytes ''ABC'')"

definition single_byte_compiles :: "u8 \<Rightarrow> bool" where
  "single_byte_compiles b = on_ok (compile_literal_search [b]) (\<lambda>prog.
     prog \<noteq> [] \<and> ends_in_exit prog \<and> assert_valid_jump_offsets prog)"

definition single_byte_pattern_edge_cases :: bool where
  "single_byte_pattern_edge_cases = list_all single_byte_compiles (map of_nat [0..<256])"

definition pattern_with_repeated_bytes_compiles_correctly :: bool where
  "pattern_with_repeated_bytes_compiles_correctly =
     on_ok (compile_literal_search (replicate 100 (byte CHR ''A''))) (\<lambda>prog.
       byte_loads prog = 100 \<and> list_all (\<lambda>insn. imm insn = ucast (byte CHR ''A'')) (filter is_compare prog))"

section \<open>Classes and alternations\<close>

definition character_class_program_instruction_count_under_limit :: bool where
  "character_class_program_instruction_count_under_limit =
     on_ok (compile_character_class (bytes ''a-zA-Z0-9_-'')) (\<lambda>prog. length prog < 4096)"

definition alternation_program_instruction_count_under_limit :: bool where
  "alternation_program_instruction_count_under_limit =
     on_ok (compile_alternation [bytes ''get'', bytes ''post'', bytes ''put'', bytes ''delete'', bytes ''patch''])
       (\<lambda>prog. length prog < 4096)"

definition empty_character_class_returns_error_not_panic :: bool where
  "empty_character_class_returns_error_not_panic = on_ok (compile_character_class []) (\<lambda>prog.
     length prog = 2 \<and> at_index prog 0 (\<lambda>i. imm i = 0))"

definition empty_alternation_returns_error_not_panic :: bool where
  "empty_alternation_returns_error_not_panic = on_ok (compile_alternation []) (\<lambda>prog.
     length prog = 2 \<and> at_index prog 0 (\<lambda>i. imm i = 0))"

definition multiple_character_classes_distinct :: bool where
  "multiple_character_classes_distinct =
     on_ok (compile_character_class (bytes ''a-z'')) (\<lambda>prog_lower.
     on_ok (compile_character_class (bytes ''A-Z'')) (\<lambda>prog_upper.
     on_ok (compile_character_class (bytes ''0-9'')) (\<lambda>prog_digit.
       format_program prog_lower \<noteq> format_program prog_upper
       \<and> format_program prog_upper \<noteq> format_program prog_digit)))"

definition all_jump_offsets_in_character_class_are_valid :: bool where
  "all_jump_offsets_in_character_class_are_valid =
     on_ok (compile_character_class (bytes ''a-zA-Z0-9'')) assert_valid_jump_offsets"

definition all_jump_offsets_in_alternation_are_valid :: bool where
  "all_jump_offsets_in_alternation_are_valid =
     on_ok (compile_alternation [bytes ''foo'', bytes ''bar'', bytes ''baz'']) assert_valid_jump_offsets"

definition char_class_compile_rejects_reversed_range :: bool where
  "char_class_compile_rejects_reversed_range = is_invalid (compile_char_class [\<lparr>lo = 0x5A, hi = 0x41\<rparr>])"

definition char_class_compile_accepts_valid_range :: bool where
  "char_class_compile_accepts_valid_range =
     on_ok (compile_char_class [\<lparr>lo = byte CHR ''a'', hi = byte CHR ''z''\<rparr>, \<lparr>lo = byte CHR ''A'', hi = byte CHR ''Z''\<rparr>])
       (\<lambda>prog. prog \<noteq> [] \<and> ends_in_exit prog \<and> assert_valid_jump_offsets prog)"

definition compile_alternation_with_empty_alternative_matches_immediately :: bool where
  "compile_alternation_with_empty_alternative_matches_immediately =
     on_ok (compile_alternation [bytes ''ab'', [], bytes ''cd'']) (\<lambda>prog.
       length prog = 2 \<and> at_index prog 0 (\<lambda>i. imm i = 1))"

section \<open>Running classes\<close>

definition two_ranges :: "char_range list" where
  "two_ranges = [\<lparr>lo = 10, hi = 20\<rparr>, \<lparr>lo = 30, hi = 40\<rparr>]"

definition char_class_out_of_range_below_all_does_not_match :: bool where
  "char_class_out_of_range_below_all_does_not_match = on_ok (compile_char_class two_ranges) (\<lambda>prog.
     run_char_class prog 5 = Some 0 \<and> run_char_class prog 25 = Some 0 \<and> run_char_class prog 45 = Some 0)"

definition char_class_in_range_matches_inclusive_boundaries :: bool where
  "char_class_in_range_matches_inclusive_boundaries = on_ok (compile_char_class two_ranges) (\<lambda>prog.
     list_all (\<lambda>b. run_char_class prog b = Some 1) [10, 15, 20, 30, 35, 40]
     \<and> list_all (\<lambda>b. run_char_class prog b = Some 0) [9, 21, 29, 41])"

text \<open>\<open>u8::is_ascii_lowercase\<close> and \<open>u8::is_ascii_alphanumeric\<close>, and \<open>u64::from\<close> of a \<open>bool\<close>.\<close>

definition is_ascii_lowercase :: "u8 \<Rightarrow> bool" where
  "is_ascii_lowercase b \<longleftrightarrow> byte CHR ''a'' \<le> b \<and> b \<le> byte CHR ''z''"

definition is_ascii_alphanumeric :: "u8 \<Rightarrow> bool" where
  "is_ascii_alphanumeric b \<longleftrightarrow> byte CHR ''0'' \<le> b \<and> b \<le> byte CHR ''9'' \<or> byte CHR ''A'' \<le> b \<and> b \<le> byte CHR ''Z''
     \<or> byte CHR ''a'' \<le> b \<and> b \<le> byte CHR ''z''"

definition sweep :: "char_range list \<Rightarrow> (u8 \<Rightarrow> bool) \<Rightarrow> bool" where
  "sweep ranges wanted = on_ok (compile_char_class ranges) (\<lambda>prog.
     list_all (\<lambda>b. run_char_class prog b = Some (if wanted b then 1 else 0)) (map of_nat [0..<256]))"

definition char_class_single_and_multi_range_full_byte_sweep :: bool where
  "char_class_single_and_multi_range_full_byte_sweep \<longleftrightarrow>
     sweep [\<lparr>lo = byte CHR ''a'', hi = byte CHR ''z''\<rparr>] is_ascii_lowercase
     \<and> sweep [\<lparr>lo = byte CHR ''0'', hi = byte CHR ''9''\<rparr>, \<lparr>lo = byte CHR ''a'', hi = byte CHR ''z''\<rparr>,
              \<lparr>lo = byte CHR ''A'', hi = byte CHR ''Z''\<rparr>] is_ascii_alphanumeric"

section \<open>What the tests observe, for every program\<close>

lemma valid_jump_offset_eq: "valid_jump_offset = insn_jump_ok"
  by (simp add: valid_jump_offset_def insn_jump_ok_def bpf_opcodes Let_def fun_eq_iff)

lemma well_formed_jumps: "well_formed_program prog \<Longrightarrow> assert_valid_jump_offsets prog"
  by (simp add: assert_valid_jump_offsets_def valid_jump_offset_eq jumps_ok_enumerate well_formed_program_def
      assert_jump_offsets_are_valid_def)

lemma well_formed_exit:
  assumes "well_formed_program prog"
  shows "prog \<noteq> []" "ends_in_exit prog"
proof -
  show nonempty: "prog \<noteq> []"
    using assms by (simp add: well_formed_program_def)
  then have "1 \<le> length prog"
    by (cases prog) auto
  then show "ends_in_exit prog"
    using assms nonempty
    by (simp add: ends_in_exit_def from_end_def at_index_def get_index_def well_formed_program_def last_conv_nth
        exit_insn_def bpf_opcodes)
qed

lemma byte_loads_eq: "byte_loads prog = length (filter is_byte_load prog)"
proof -
  have "(255 :: u8) = - 1" by simp
  then have "c AND 255 = c" for c :: u8
    by (metis and.right_neutral)
  then show ?thesis
    by (simp add: count_instructions_def is_byte_load_def [abs_def])
qed

lemmas literal_facts = well_formed_jumps [OF literal_filter_well_formed] well_formed_exit [OF literal_filter_well_formed]
  literal_filter_observed byte_loads_eq literal_filter_length

text \<open>Bodies of loops hold for every input, not only for the samples.\<close>

lemma literal_bodies:
  assumes "length pattern \<le> 1024"
  shows "literal_under_bpf_limit pattern" "half_compiles pattern" "listings_agree pattern" "unrolled pattern" "spelled pattern"
proof -
  have short: "slice_len pattern \<le> MAX_BPF_PATTERN_LEN"
    using slice_len_le_iff [of pattern 1024] assms by (simp add: MAX_BPF_PATTERN_LEN_def)
  have compares: "map imm (filter is_compare (literal_filter pattern)) = map ucast pattern"
    by (rule literal_filter_observed)
  then have "length (filter is_compare (literal_filter pattern)) = length pattern"
    by (metis length_map)
  moreover have "imm (filter is_compare (literal_filter pattern) ! i) = ucast (pattern ! i)" if "i < length pattern" for i
    using that compares by (metis length_map nth_map)
  ultimately show "spelled pattern"
    by (auto simp: spelled_def compile_literal_search_small [OF assms] list_all_iff in_set_enumerate_eq get_index_def)
  show "literal_under_bpf_limit pattern" "half_compiles pattern" "listings_agree pattern" "unrolled pattern"
    using assms short
    by (simp_all add: literal_under_bpf_limit_def half_compiles_def listings_agree_def unrolled_def
        compile_literal_search_small literal_facts)
qed

lemma single_byte_compiles_all: "single_byte_compiles b"
  by (simp add: single_byte_compiles_def compile_literal_search_small literal_facts)

lemma sweep_all:
  assumes "ranges \<noteq> []" "length ranges \<le> 2046" "\<forall>r \<in> set ranges. lo r \<le> hi r" "\<And>b. in_ranges ranges b = wanted b"
  shows "sweep ranges wanted"
proof -
  have "compile_char_class ranges = Some (Ok (class_program ranges))"
    using assms(1-3) by (auto simp: compile_char_class_eq not_less [symmetric])
  then show ?thesis
    using assms(2,4) by (simp add: sweep_def run_class_program list_all_iff)
qed

section \<open>The tests pass\<close>

lemma literal_sample_tests:
  compiled_program_instruction_count_under_bpf_limit pattern_with_all_byte_values_compiles_correctly
  pattern_at_exact_limit_compiles_successfully identical_patterns_produce_equivalent_programs
  program_formatting_is_deterministic unrolled_byte_comparison_count_matches_pattern_length
  multi_byte_pattern_unrolls_correctly_suite unrolled_byte_comparison_has_correct_immediate_values
  single_byte_pattern_edge_cases
  by (simp_all add: compiled_program_instruction_count_under_bpf_limit_def pattern_with_all_byte_values_compiles_correctly_def
    pattern_at_exact_limit_compiles_successfully_def identical_patterns_produce_equivalent_programs_def
    program_formatting_is_deterministic_def unrolled_byte_comparison_count_matches_pattern_length_def
    multi_byte_pattern_unrolls_correctly_suite_def unrolled_byte_comparison_has_correct_immediate_values_def
    single_byte_pattern_edge_cases_def literal_bodies single_byte_compiles_all list_all_iff MAX_BPF_PATTERN_LEN_def)

lemma literal_structure_tests:
  compile_single_literal_pattern_produces_valid_bytecode compile_single_byte_pattern_produces_valid_program
  pattern_with_high_bytes_compiles_correctly empty_pattern_returns_error_not_panic
  pattern_longer_than_bpf_limit_returns_error compile_with_limit_rejects_excessive_instruction_count
proof -
  have "is_too_long (compile_literal_search (replicate (Suc 1024) b))" for b
    using compile_literal_search_large [of "replicate (Suc 1024) b"] by simp
  then show pattern_longer_than_bpf_limit_returns_error
    by (simp add: pattern_longer_than_bpf_limit_returns_error_def MAX_BPF_PATTERN_LEN_def)
  have "\<exists>rest. literal_filter (bytes ''test'') = ldx_mem BPF_W R2 R1 0 # ldx_mem BPF_W R3 R1 4 # rest"
    by (simp add: literal_filter_def literal_program_def Let_def)
  then have "at_index (literal_filter (bytes ''test'')) k (\<lambda>i. code i = BPF_LDX OR BPF_MEM OR BPF_W)" if "k = 0 \<or> k = 1" for k
    using that by (auto simp: at_index_def get_index_def ldx_mem_def bpf_opcodes)
  then show compile_single_literal_pattern_produces_valid_bytecode
    using literal_facts(1-3) [of "bytes ''test''"]
    by (simp add: compile_single_literal_pattern_produces_valid_bytecode_def compile_literal_search_small)
  show empty_pattern_returns_error_not_panic
    by (simp add: empty_pattern_returns_error_not_panic_def compile_literal_search_small literal_filter_def
        at_index_def get_index_def alu64_imm_def exit_insn_def bpf_opcodes)
qed (simp_all add: compile_single_byte_pattern_produces_valid_program_def pattern_with_high_bytes_compiles_correctly_def
    compile_with_limit_rejects_excessive_instruction_count_def compile_literal_search_small literal_facts
    compile_with_limit_def MAX_BPF_INSTRUCTION_LEN_def)

lemma literal_jump_tests:
  pattern_with_null_bytes_compiles_correctly pattern_with_repeated_bytes_compiles_correctly
  backpatched_bounds_check_jumps_to_fail_block backpatched_byte_checks_jumps_to_next_iter
  multiple_patterns_produce_distinct_programs
proof -
  show pattern_with_null_bytes_compiles_correctly
    using literal_facts(1) [of "[0, 1, 0, 2, 0]"]
    by (simp add: pattern_with_null_bytes_compiles_correctly_def compile_literal_search_small literal_filter_def
        literal_program_def Let_def)
  have "map imm (filter is_compare (literal_filter (replicate 100 b))) = map ucast (replicate 100 b)" for b
    by (rule literal_filter_observed)
  then have "\<forall>i \<in> set (filter is_compare (literal_filter (replicate 100 b))). imm i = ucast b" for b
    by (metis (no_types, lifting) in_set_replicate list.set_map image_eqI map_replicate)
  from this [of "0x41"] show pattern_with_repeated_bytes_compiles_correctly
    by (simp add: pattern_with_repeated_bytes_compiles_correctly_def compile_literal_search_small literal_facts list_all_iff)
  have distance: "off (jmp_imm op d k f) = f" for op d k f
    by (simp add: jmp_imm_def)
  show backpatched_byte_checks_jumps_to_next_iter
    by (simp add: backpatched_byte_checks_jumps_to_next_iter_def compile_literal_search_small literal_filter_def
        literal_program_def Let_def distance)
  show multiple_patterns_produce_distinct_programs
    using literal_listing_inj [of "bytes ''pattern1''" "bytes ''pattern2''"]
    by (auto simp: multiple_patterns_produce_distinct_programs_def compile_literal_search_small literal_facts)
  let ?prog = "literal_filter (bytes ''test'')"
  have check: "List.find (\<lambda>(idx, i). is_bounds_check i) (List.enumerate 0 ?prog) = Some (7, jmp_reg BPF_JGT R6 R3 12)"
    and fail: "?prog ! 20 = alu64_imm BPF_MOV R0 0"
    using literal_bounds_check [of "bytes ''test''"] by simp_all
  have kind: "is_bounds_check = (\<lambda>i. code i = BPF_JMP OR 0x20 OR 0x08)"
    by (simp add: is_bounds_check_def fun_eq_iff bpf_opcodes)
  have "at_index ?prog 20 (\<lambda>i. imm i = 0)"
    by (simp add: at_index_def get_index_def fail [simplified] literal_filter_length alu64_imm_def)
  then show backpatched_bounds_check_jumps_to_fail_block
    using check unfolding kind
    by (simp add: backpatched_bounds_check_jumps_to_fail_block_def compile_literal_search_small literal_filter_length jmp_reg_def)
qed

lemma class_suite_tests:
  character_class_program_instruction_count_under_limit empty_character_class_returns_error_not_panic
  all_jump_offsets_in_character_class_are_valid char_class_compile_rejects_reversed_range
  char_class_compile_accepts_valid_range multiple_character_classes_distinct
proof -
  have "compile_character_class (bytes ''a-zA-Z0-9'')
      = Some (Ok (class_program [\<lparr>lo = 0x61, hi = 0x7A\<rparr>, \<lparr>lo = 0x41, hi = 0x5A\<rparr>, \<lparr>lo = 0x30, hi = 0x39\<rparr>]))"
    by (simp add: compile_character_class_eq parse_eval)
  then show all_jump_offsets_in_character_class_are_valid
    by (simp add: all_jump_offsets_in_character_class_are_valid_def well_formed_jumps class_program_well_formed)
  show character_class_program_instruction_count_under_limit
    by (simp add: character_class_program_instruction_count_under_limit_def compile_character_class_eq parse_eval
        class_program_def)
  show empty_character_class_returns_error_not_panic
    by (simp add: empty_character_class_returns_error_not_panic_def compile_character_class_eq at_index_def get_index_def
        alu64_imm_def)
  show multiple_character_classes_distinct
    by code_simp
qed (simp_all add: char_class_compile_rejects_reversed_range_def char_class_compile_accepts_valid_range_def
    compile_char_class_eq well_formed_jumps well_formed_exit class_program_well_formed)

lemma alternation_suite_tests:
  alternation_program_instruction_count_under_limit empty_alternation_returns_error_not_panic
  all_jump_offsets_in_alternation_are_valid compile_alternation_with_empty_alternative_matches_immediately
proof -
  show all_jump_offsets_in_alternation_are_valid
    by (simp add: all_jump_offsets_in_alternation_are_valid_def compile_alternation_eq well_formed_jumps
        alternation_program_well_formed)
qed (simp_all add: alternation_program_instruction_count_under_limit_def empty_alternation_returns_error_not_panic_def
    compile_alternation_with_empty_alternative_matches_immediately_def compile_alternation_eq alternation_program_def
    at_index_def get_index_def alu64_imm_def)

lemma interpreter_tests:
  char_class_out_of_range_below_all_does_not_match char_class_in_range_matches_inclusive_boundaries
  char_class_single_and_multi_range_full_byte_sweep
proof -
  have "compile_char_class two_ranges = Some (Ok (class_program two_ranges))"
    by (simp add: two_ranges_def compile_char_class_eq)
  moreover have "run_char_class (class_program two_ranges) b = Some (if in_ranges two_ranges b then 1 else 0)" for b
    by (rule run_class_program) (simp add: two_ranges_def)
  ultimately show char_class_out_of_range_below_all_does_not_match char_class_in_range_matches_inclusive_boundaries
    by (simp_all add: char_class_out_of_range_below_all_does_not_match_def
        char_class_in_range_matches_inclusive_boundaries_def two_ranges_def in_ranges_def)
  show char_class_single_and_multi_range_full_byte_sweep
    unfolding char_class_single_and_multi_range_full_byte_sweep_def
    by (intro conjI sweep_all) (auto simp: in_ranges_def is_ascii_lowercase_def is_ascii_alphanumeric_def)
qed

section \<open>Properties\<close>

text \<open>
  The tests of the public compiler interface pass on the model; the bodies of their loops hold for every literal up to
  1024 bytes, every single byte, and every class of at most 2046 ordered ranges.
\<close>

theorem compiler_suite_passes:
  "(\<forall>pattern. length pattern \<le> 1024 \<longrightarrow> literal_under_bpf_limit pattern \<and> half_compiles pattern \<and> listings_agree pattern
      \<and> unrolled pattern \<and> spelled pattern)
   \<and> (\<forall>b. single_byte_compiles b)
   \<and> (\<forall>ranges. ranges \<noteq> [] \<and> length ranges \<le> 2046 \<and> (\<forall>r \<in> set ranges. lo r \<le> hi r) \<longrightarrow> sweep ranges (in_ranges ranges))
   \<and> compile_single_literal_pattern_produces_valid_bytecode \<and> compile_single_byte_pattern_produces_valid_program
   \<and> compiled_program_instruction_count_under_bpf_limit \<and> pattern_with_all_byte_values_compiles_correctly \<and>
   pattern_with_null_bytes_compiles_correctly \<and> pattern_with_high_bytes_compiles_correctly \<and>
   empty_pattern_returns_error_not_panic \<and> pattern_longer_than_bpf_limit_returns_error \<and>
   pattern_at_exact_limit_compiles_successfully \<and> compile_with_limit_rejects_excessive_instruction_count \<and>
   multiple_patterns_produce_distinct_programs \<and> identical_patterns_produce_equivalent_programs \<and>
   program_formatting_is_deterministic \<and> backpatched_bounds_check_jumps_to_fail_block \<and>
   backpatched_byte_checks_jumps_to_next_iter \<and> unrolled_byte_comparison_count_matches_pattern_length \<and>
   multi_byte_pattern_unrolls_correctly_suite \<and> unrolled_byte_comparison_has_correct_immediate_values \<and>
   single_byte_pattern_edge_cases \<and> pattern_with_repeated_bytes_compiles_correctly \<and>
   character_class_program_instruction_count_under_limit \<and> alternation_program_instruction_count_under_limit \<and>
   empty_character_class_returns_error_not_panic \<and> empty_alternation_returns_error_not_panic \<and>
   multiple_character_classes_distinct \<and> all_jump_offsets_in_character_class_are_valid \<and>
   all_jump_offsets_in_alternation_are_valid \<and> char_class_compile_rejects_reversed_range \<and>
   char_class_compile_accepts_valid_range \<and> compile_alternation_with_empty_alternative_matches_immediately \<and>
   char_class_out_of_range_below_all_does_not_match \<and> char_class_in_range_matches_inclusive_boundaries \<and>
   char_class_single_and_multi_range_full_byte_sweep"
  using literal_bodies single_byte_compiles_all sweep_all literal_sample_tests literal_structure_tests literal_jump_tests
    class_suite_tests alternation_suite_tests interpreter_tests by blast

theorem compiler_suite_passes_witness:
  "half_compiles [0x00, 0xFF] \<and> spelled [7] \<and> sweep [\<lparr>lo = 3, hi = 3\<rparr>] (in_ranges [\<lparr>lo = 3, hi = 3\<rparr>])"
  using compiler_suite_passes by simp

end
