(* ===== verification/Loader_Tests.thy ===== *)
theory Loader_Tests
  imports Prog Ring_Poll Core_Detect
begin

text \<open>
  The crate's own checks of the loader: the unit tests inside \<open>prog.rs\<close>, \<open>ringbuf.rs\<close> and
  \<open>core_detect.rs\<close>, and the tests of \<open>tests/adversarial/io.rs\<close> and \<open>tests/core_detect_tests.rs\<close>. A
  test that calls the kernel is a predicate of the kernel and the process it runs in; what it
  relies on is a hypothesis on the kernel.
\<close>

unbundle bit_operations_syntax

section \<open>Records and bounds\<close>

definition usize_MAX :: usize where
  "usize_MAX = - 1"

definition round_record_len_rounds_up_to_8 :: bool where
  "round_record_len_rounds_up_to_8 \<longleftrightarrow>
     round_record_len 0 = 8 \<and> round_record_len 1 = 16 \<and> round_record_len 8 = 16 \<and> round_record_len 9 = 24"

definition round_record_len_saturates_without_overflow :: bool where
  "round_record_len_saturates_without_overflow =
     (let r = round_record_len usize_MAX in
      r = usize_MAX AND NOT 7 \<and> r mod 8 = 0 \<and> round_record_len (usize_MAX - 8) = usize_MAX AND NOT 7)"

definition record_within_mapping_accepts_valid_and_rejects_out_of_bounds :: bool where
  "record_within_mapping_accepts_valid_and_rejects_out_of_bounds =
     (let ring = 4096 in
      record_within_mapping BPF_RINGBUF_HDR_SZ 100 ring
      \<and> record_within_mapping 0 (2 * ring) ring \<and> record_within_mapping ring ring ring
      \<and> \<not> record_within_mapping 0 (2 * ring + 1) ring \<and> \<not> record_within_mapping (ring + 1) ring ring)"

definition record_within_mapping_rejects_corrupt_lengths_without_wrapping :: bool where
  "record_within_mapping_rejects_corrupt_lengths_without_wrapping =
     (let ring = 4096 in
      \<not> record_within_mapping 8 usize_MAX ring \<and> \<not> record_within_mapping usize_MAX 1 ring
      \<and> \<not> record_within_mapping usize_MAX usize_MAX ring \<and> \<not> record_within_mapping 0 1 usize_MAX)"

section \<open>Ring creation\<close>

fun raw_os_error :: "io_error \<Rightarrow> i32 option" where
  "raw_os_error (OsError e) = Some e"
| "raw_os_error (Custom k m) = None"

definition create_ringbuf_rejects_non_power_of_two_sizes :: "world \<Rightarrow> proc \<Rightarrow> bool" where
  "create_ringbuf_rejects_non_power_of_two_sizes w p =
     (let (res, p) = create_ringbuf w 3 p;
          error = (case res of
              Inr fd \<Rightarrow> let (_, p) = call w (Close fd) p in
                Custom Other (str_lit ''create_ringbuf unexpectedly accepted a non-power-of-two size'')
            | Inl error \<Rightarrow> error)
      in error_kind_of error = InvalidInput)"

text \<open>The error numbers are \<open>EINVAL\<close>, \<open>EPERM\<close>, \<open>ENOSYS\<close>, \<open>EOPNOTSUPP\<close>.\<close>

definition create_ringbuf_gracefully_handles_kernel_support :: "world \<Rightarrow> proc \<Rightarrow> bool" where
  "create_ringbuf_gracefully_handles_kernel_support w p =
     (case create_ringbuf w 4096 p of
        (Inr fd, p) \<Rightarrow> let (close_rc, p) = call w (Close fd) p in ret close_rc = 0
      | (Inl error, p) \<Rightarrow>
          (case raw_os_error error of Some err_code \<Rightarrow> err_code \<in> set [22, 1, 38, 95] | None \<Rightarrow> False))"

definition adversarial_io_create_ringbuf_zero :: "world \<Rightarrow> proc \<Rightarrow> bool" where
  "adversarial_io_create_ringbuf_zero w p =
     (case create_ringbuf w 0 p of (Inl err, p) \<Rightarrow> error_kind_of err = InvalidInput | (Inr fd, p) \<Rightarrow> False)"

text \<open>A poll that never returns would hang the test: it does not pass.\<close>

definition adversarial_io_poll_invalid_ringbuf_fd :: "world \<Rightarrow> proc \<Rightarrow> bool" where
  "adversarial_io_poll_invalid_ringbuf_fd w p =
     (case poll_ringbuf w (- 1) p of Some (Inl e, p) \<Rightarrow> True | _ \<Rightarrow> False)"

section \<open>Waiting through a signal\<close>

text \<open>
  What the test calls itself and the loader does not: \<open>eventfd\<close>, \<open>signal\<close>, \<open>kill\<close> and \<open>write\<close> with
  their results, and the clock, which depends on what has happened. The helper thread's own effects
  (the signal, the readable descriptor) are seen in the answers of the kernel. The cleanup after the
  last assertion is left out.
\<close>

record signal_env =
  eventfd_ret :: raw_fd
  signal_ret :: u64
  kill_ret :: i32
  write_ret :: u64
  now :: "event list \<Rightarrow> nat"

definition SIG_ERR :: u64 where
  "SIG_ERR = - 1"

definition epoll_wait_retries_on_eintr :: "signal_env \<Rightarrow> world \<Rightarrow> proc \<Rightarrow> bool" where
  "epoll_wait_retries_on_eintr env w p =
     (let efd = eventfd_ret env in
      0 \<le> sint efd \<and> signal_ret env \<noteq> SIG_ERR
      \<and> (case epoll_new w p of
           (Inl e, p) \<Rightarrow> False
         | (Inr epoll, p) \<Rightarrow>
           (case epoll_add w epoll efd p of
              (Inl e, p) \<Rightarrow> False
            | (Inr _, p) \<Rightarrow>
              let start = now env (hist p) in
              0 \<le> sint (kill_ret env) \<and> write_ret env = 8
              \<and> (case epoll_wait w epoll p of
                   Some (Inr _, p) \<Rightarrow> let elapsed = now env (hist p) - start in 15 \<le> elapsed
                 | _ \<Rightarrow> False))))"

text \<open>
  What the test relies on: its own calls and the two of \<open>epoll\<close> succeed; a sleep lasts at least its
  10 milliseconds, so the signal comes 10 after the helper is spawned and the write 10 after the
  signal; a wait fails only for the one signal, and otherwise returns when the descriptor is
  readable, which it is from the write on.
\<close>

definition signal_kernel :: "signal_env \<Rightarrow> nat \<Rightarrow> nat \<Rightarrow> world \<Rightarrow> proc \<Rightarrow> bool" where
  "signal_kernel env kill_time write_time w p \<longleftrightarrow>
     0 \<le> sint (eventfd_ret env) \<and> signal_ret env \<noteq> SIG_ERR \<and> 0 \<le> sint (kill_ret env) \<and> write_ret env = 8
     \<and> (\<forall>h. \<not> failed (kcall w h Epoll_create1)) \<and> (\<forall>h ep fd data. \<not> failed (kcall w h (Epoll_ctl_add ep fd data)))
     \<and> (\<forall>r ep data r'. now env (hist p @ [Sys Epoll_create1 r, Sys (Epoll_ctl_add ep (eventfd_ret env) data) r']) + 10 \<le> kill_time)
     \<and> kill_time + 10 \<le> write_time
     \<and> (\<forall>h ep. let r = kcall w h (Epoll_wait ep) in
          if failed r then errno r = EINTR \<and> (\<forall>ep' r'. Sys (Epoll_wait ep') r' \<in> set h \<longrightarrow> \<not> failed r')
          else write_time \<le> now env (h @ [Sys (Epoll_wait ep) r]))"

section \<open>Loading\<close>

definition rust_contains :: "rust_str \<Rightarrow> string \<Rightarrow> bool" where
  "rust_contains s sub \<longleftrightarrow> sublist (str_lit sub) s"

definition load_filter_includes_verifier_log_in_error :: "world \<Rightarrow> proc \<Rightarrow> bool" where
  "load_filter_includes_verifier_log_in_error w p =
     (let insns = [bpf_insn_new (BPF_ALU64 OR BPF_MOV OR BPF_K) R0 0 0 0, bpf_insn_new (BPF_JMP OR BPF_EXIT) 0 0 0 0] in
      case load_filter w insns p of
        (Inr fd, p) \<Rightarrow> False
      | (Inl err, p) \<Rightarrow> let msg = io_error_text (kstrerror w) err in rust_contains msg ''BPF verifier log:'')"

definition load_filter_rejects_empty_program :: "world \<Rightarrow> proc \<Rightarrow> bool" where
  "load_filter_rejects_empty_program w p =
     (case load_filter w [] p of (Inr fd, p) \<Rightarrow> False | (Inl err, p) \<Rightarrow> error_kind_of err = InvalidInput)"

definition adversarial_io_attach_invalid_socket :: "world \<Rightarrow> proc \<Rightarrow> bool" where
  "adversarial_io_attach_invalid_socket w p =
     (let insns = [bpf_insn_new (BPF_JMP OR BPF_EXIT) 0 0 0 0] in
      case load_filter w insns p of
        (Inl e, p) \<Rightarrow> True
      | (Inr prog_fd, p) \<Rightarrow>
          (case attach_to_socket w prog_fd (- 1) p of (Inr u, p) \<Rightarrow> False | (Inl err, p) \<Rightarrow> raw_os_error err \<noteq> None))"

section \<open>Detection\<close>

abbreviation release :: "string \<Rightarrow> version option" where
  "release s \<equiv> parse_kernel_release (str_lit s)"

definition parses_full_and_partial_versions :: bool where
  "parses_full_and_partial_versions \<longleftrightarrow>
     release ''6.1.0'' = Some (6, 1, 0) \<and> release ''5.15.137-generic'' = Some (5, 15, 137)
     \<and> release ''6'' = Some (6, 0, 0) \<and> release ''6.1'' = Some (6, 1, 0)
     \<and> release ''6.8.0-31-generic'' = Some (6, 8, 0)"

definition rejects_unparseable_major_so_caller_fails_closed :: bool where
  "rejects_unparseable_major_so_caller_fails_closed \<longleftrightarrow>
     release [] = None \<and> release ''unknown'' = None \<and> release ''-generic'' = None
     \<and> release ''99999999999.1.0'' = None"

definition rejects_unparseable_minor_or_patch :: bool where
  "rejects_unparseable_minor_or_patch \<longleftrightarrow>
     release ''6.99999999999.0'' = None \<and> release ''6.abc'' = None \<and> release ''6.1.xyz'' = None"

definition diagnostics_returns_non_empty_vec :: "world \<Rightarrow> proc \<Rightarrow> bool" where
  "diagnostics_returns_non_empty_vec w p = (let (diags, p) = diagnostics w p in diags \<noteq> [])"

definition diagnostics_contains_kernel_version_string :: "world \<Rightarrow> proc \<Rightarrow> bool" where
  "diagnostics_contains_kernel_version_string w p =
     (let (diags, p) = diagnostics w p in \<exists>s \<in> set diags. prefix ''kernel: '' s)"

section \<open>Running them\<close>

lemma unat_usize_MAX: "unat (- 1 :: usize) = 2 ^ 64 - 1"
  by (simp add: unsigned_minus_1_eq_mask mask_eq_exp_minus_1)

lemma unat_near_MAX: "unat (- 9 :: usize) = 2 ^ 64 - 9"
  by (simp add: unat_eq_nat_uint uint_word_ariths)

lemma record_tests:
  round_record_len_rounds_up_to_8 round_record_len_saturates_without_overflow
  record_within_mapping_accepts_valid_and_rejects_out_of_bounds
  record_within_mapping_rejects_corrupt_lengths_without_wrapping
  by (simp_all add: round_record_len_rounds_up_to_8_def round_record_len_saturates_without_overflow_def
    record_within_mapping_accepts_valid_and_rejects_out_of_bounds_def
    record_within_mapping_rejects_corrupt_lengths_without_wrapping_def word_unat_eq_iff unat_round_record_len
    unat_align_down unat_mod record_within_mapping_iff usize_MAX_def unat_usize_MAX unat_near_MAX BPF_RINGBUF_HDR_SZ_def)

lemma release_tests:
  parses_full_and_partial_versions rejects_unparseable_major_so_caller_fails_closed rejects_unparseable_minor_or_patch
  by (simp_all add: parses_full_and_partial_versions_def rejects_unparseable_major_so_caller_fails_closed_def
    rejects_unparseable_minor_or_patch_def parse_kernel_release_def str_lit_def is_ascii_digit_def get_index_def opt_part_def
    parse_u32_def checked_mul_def checked_add_def)

lemma creation_tests:
  "create_ringbuf_rejects_non_power_of_two_sizes w p" "adversarial_io_create_ringbuf_zero w p"
proof -
  have "\<not> is_power_of_two 3"
    by code_simp
  then show "create_ringbuf_rejects_non_power_of_two_sizes w p"
    by (simp add: create_ringbuf_rejects_non_power_of_two_sizes_def create_ringbuf_def)
  show "adversarial_io_create_ringbuf_zero w p"
    by (simp add: adversarial_io_create_ringbuf_zero_def create_ringbuf_def)
qed

lemma creation_kernel_test:
  assumes "\<forall>h c. case c of Close fd \<Rightarrow> ret (kcall w h c) = 0
    | _ \<Rightarrow> failed (kcall w h c) \<longrightarrow> errno (kcall w h c) \<in> {22, 1, 38, 95}"
  shows "create_ringbuf_gracefully_handles_kernel_support w p"
proof -
  have "is_power_of_two 4096"
    by code_simp
  then show ?thesis
    using assms [rule_format, of _ "Close _"] assms [rule_format, of _ "Bpf_map_create _ _"]
    by (auto simp: create_ringbuf_gracefully_handles_kernel_support_def create_ringbuf_def call_def Let_def last_os_error_def)
qed

lemma poll_invalid_test:
  assumes "\<forall>h a n. oi_bpf_fd a = - 1 \<longrightarrow> failed (kcall w h (Bpf_obj_get_info a n))"
  shows "adversarial_io_poll_invalid_ringbuf_fd w p"
  using assms by (simp add: adversarial_io_poll_invalid_ringbuf_fd_def poll_ringbuf_def map_info_def call_def Let_def)

lemma signal_kernel_waits:
  assumes "\<forall>h ep. let r = kcall w h (Epoll_wait ep) in
      if failed r then errno r = EINTR \<and> (\<forall>ep' r'. Sys (Epoll_wait ep') r' \<in> set h \<longrightarrow> \<not> failed r')
      else t \<le> clock (h @ [Sys (Epoll_wait ep) r])"
  obtains p' where "epoll_wait w ep p = Some (Ok (), p')" "t \<le> clock (hist p')"
proof -
  let ?r = "kcall w (hist p) (Epoll_wait ep)"
  let ?h = "hist p @ [Sys (Epoll_wait ep) ?r]"
  have once: "\<not> failed (kcall w ?h (Epoll_wait ep))" if "failed ?r"
    using assms [rule_format, of ?h ep] that by (auto simp: Let_def split: if_splits)
  show thesis
  proof (cases "failed ?r")
    case True
    then have "errno ?r = EINTR"
      using assms [rule_format, of "hist p" ep] by (simp add: Let_def)
    with True have "epoll_wait w ep p = epoll_wait w ep (log_event (Sys (Epoll_wait ep) ?r) p)"
      by (subst epoll_wait_unfold) (simp add: call_def Let_def)
    then show thesis
      using once [OF True] assms [rule_format, of ?h ep]
      by (intro that) (auto simp: epoll_wait_unfold [of w ep "log_event _ p"] call_def Let_def)
  next
    case False
    then show thesis
      using assms [rule_format, of "hist p" ep]
      by (intro that) (auto simp: epoll_wait_unfold [of w ep p] call_def Let_def)
  qed
qed

lemma signal_test: "signal_kernel env t t' w p \<Longrightarrow> epoll_wait_retries_on_eintr env w p"
proof -
  assume k: "signal_kernel env t t' w p"
  let ?r = "kcall w (hist p) Epoll_create1"
  let ?c = "Epoll_ctl_add (ucast (ret ?r)) (eventfd_ret env) (scast (eventfd_ret env))"
  let ?h = "hist p @ [Sys Epoll_create1 ?r]"
  let ?p = "log_event (Sys ?c (kcall w ?h ?c)) (log_event (Sys Epoll_create1 ?r) p)"
  have "now env (hist ?p) + 20 \<le> t'"
  proof -
    have "now env (hist p @ [Sys Epoll_create1 ?r, Sys ?c (kcall w ?h ?c)]) + 10 \<le> t" "t + 10 \<le> t'"
      using k unfolding signal_kernel_def by blast+
    then show ?thesis by simp
  qed
  moreover obtain p' where "epoll_wait w (ucast (ret ?r)) ?p = Some (Ok (), p')" "t' \<le> now env (hist p')"
    by (rule signal_kernel_waits [of w t' "now env"]) (use k in \<open>simp_all add: signal_kernel_def\<close>)
  ultimately show ?thesis
    using k by (simp add: signal_kernel_def epoll_wait_retries_on_eintr_def epoll_new_def epoll_add_def call_def Let_def)
qed

lemma loading_tests:
  "load_filter_rejects_empty_program w p"
  "\<forall>h a n. failed (kcall w h (Bpf_prog_load a n)) \<Longrightarrow> load_filter_includes_verifier_log_in_error w p"
  "\<forall>h lvl opt fd len. failed (kcall w h (Setsockopt (- 1) lvl opt fd len)) \<Longrightarrow> adversarial_io_attach_invalid_socket w p"
proof -
  show "load_filter_rejects_empty_program w p"
    by (simp add: load_filter_rejects_empty_program_def load_filter_def)
  have log: "rust_contains (a @ str_lit '' -- BPF verifier log: '' @ b) ''BPF verifier log:''" for a b
    unfolding rust_contains_def sublist_def
    by (intro exI [of _ "a @ str_lit '' -- ''"] exI [of _ "str_lit '' '' @ b"]) (simp add: str_lit_def)
  show "load_filter_includes_verifier_log_in_error w p" if "\<forall>h a n. failed (kcall w h (Bpf_prog_load a n))"
    using that log by (simp add: load_filter_includes_verifier_log_in_error_def load_filter_cases Let_def
        del: io_error_text.simps(1))
  show "adversarial_io_attach_invalid_socket w p" if "\<forall>h lvl opt fd len. failed (kcall w h (Setsockopt (- 1) lvl opt fd len))"
    using that by (simp add: adversarial_io_attach_invalid_socket_def load_filter_cases attach_to_socket_def call_def
        last_os_error_def Let_def)
qed

lemma diagnostics_tests: "diagnostics_returns_non_empty_vec w p" "diagnostics_contains_kernel_version_string w p"
  by (simp_all add: diagnostics_returns_non_empty_vec_def diagnostics_contains_kernel_version_string_def diagnostics_def
    Let_def split: prod.split)

section \<open>Properties\<close>

text \<open>
  The unit tests of the loader pass on the model: the record arithmetic and the release parser at the
  authors' samples; on every kernel and in every process state the rejections of bad ring sizes
  and of the empty program and the diagnostics; the verifier log on every kernel that
  refuses the program, the error for descriptor \<open>-1\<close> on every kernel that does not know it, and
  ring creation on every kernel that fails only with the four tolerated errors; and the wait through
  a signal, whichever wait the signal interrupts, if any.
\<close>

theorem loader_unit_tests_pass:
  "round_record_len_rounds_up_to_8 \<and> round_record_len_saturates_without_overflow
   \<and> record_within_mapping_accepts_valid_and_rejects_out_of_bounds
   \<and> record_within_mapping_rejects_corrupt_lengths_without_wrapping
   \<and> parses_full_and_partial_versions \<and> rejects_unparseable_major_so_caller_fails_closed
   \<and> rejects_unparseable_minor_or_patch
   \<and> create_ringbuf_rejects_non_power_of_two_sizes w p \<and> adversarial_io_create_ringbuf_zero w p
   \<and> load_filter_rejects_empty_program w p
   \<and> diagnostics_returns_non_empty_vec w p \<and> diagnostics_contains_kernel_version_string w p
   \<and> ((\<forall>h a n. failed (kcall w h (Bpf_prog_load a n))) \<longrightarrow> load_filter_includes_verifier_log_in_error w p)
   \<and> ((\<forall>h lvl opt fd len. failed (kcall w h (Setsockopt (- 1) lvl opt fd len))) \<longrightarrow>
        adversarial_io_attach_invalid_socket w p)
   \<and> ((\<forall>h a n. oi_bpf_fd a = - 1 \<longrightarrow> failed (kcall w h (Bpf_obj_get_info a n))) \<longrightarrow>
        adversarial_io_poll_invalid_ringbuf_fd w p)
   \<and> ((\<forall>h c. case c of Close fd \<Rightarrow> ret (kcall w h c) = 0
         | _ \<Rightarrow> failed (kcall w h c) \<longrightarrow> errno (kcall w h c) \<in> {22, 1, 38, 95}) \<longrightarrow>
        create_ringbuf_gracefully_handles_kernel_support w p)
   \<and> (signal_kernel env kill_time write_time w p \<longrightarrow> epoll_wait_retries_on_eintr env w p)"
  by (intro conjI impI record_tests release_tests creation_tests loading_tests diagnostics_tests poll_invalid_test
      creation_kernel_test; (assumption | rule signal_test, assumption))

text \<open>A kernel on which the first wait is interrupted, and a clock on which the next takes 40 milliseconds.\<close>

definition interrupted_before :: "event list \<Rightarrow> bool" where
  "interrupted_before h = list_ex (\<lambda>e. case e of Sys (Epoll_wait ep) r \<Rightarrow> failed r | _ \<Rightarrow> False) h"

definition one_signal_world :: world where
  "one_signal_world = hostile_world\<lparr>kcall := \<lambda>h c. (kcall hostile_world h c)
     \<lparr>ret := (case c of Epoll_wait ep \<Rightarrow> if interrupted_before h then 1 else - 1 | _ \<Rightarrow> 5), errno := EINTR\<rparr>\<rparr>"

definition signal_demo :: signal_env where
  "signal_demo = \<lparr>eventfd_ret = 4, signal_ret = 0, kill_ret = 0, write_ret = 8,
     now = (\<lambda>h. if interrupted_before h then 40 else 5 * length h)\<rparr>"

lemma one_signal_kernel: "signal_kernel signal_demo 20 30 one_signal_world fresh_proc"
  by (auto simp: signal_kernel_def signal_demo_def one_signal_world_def interrupted_before_def SIG_ERR_def failed_def
      list_ex_iff Let_def)

theorem loader_unit_tests_pass_witness:
  "load_filter_includes_verifier_log_in_error rejecting_world fresh_proc
   \<and> adversarial_io_poll_invalid_ringbuf_fd rejecting_world fresh_proc
   \<and> adversarial_io_attach_invalid_socket rejecting_world fresh_proc
   \<and> epoll_wait_retries_on_eintr signal_demo one_signal_world fresh_proc"
  using loader_unit_tests_pass [of rejecting_world fresh_proc]
    loader_unit_tests_pass [of one_signal_world fresh_proc signal_demo 20 30] one_signal_kernel
  by (simp add: rejecting_world_def failed_def)

end
