(* ===== verification/Edge_Tests.thy ===== *)
theory Edge_Tests
  imports Suite_Tests Loader_Tests
begin

text \<open>
  The remaining tests under \<open>tests/\<close>: \<open>break_it.rs\<close>, \<open>shard_s_perf_pmg_edge.rs\<close>, the directories \<open>adversarial\<close>
  and \<open>concurrent\<close>. They probe empty and oversized inputs, bytes that are not text, limits met exactly, and the promise
  that every error says what to do about it. Tests that only ask that a call does not panic hold for every
  input of the stated size; of a test that starts threads the body of each thread is run, since the threads share
  nothing but the barrier at which they start.
\<close>

unbundle bit_operations_syntax

section \<open>Helpers of the tests\<close>

definition assert_has_fix :: "compile_error \<Rightarrow> bool" where
  "assert_has_fix err = str_contains (compile_error_message err) ''Fix:''"

text \<open>\<open>if let Err(e) = res\<close>, and the \<open>match\<close> whose \<open>Ok\<close> arm panics.\<close>

definition fix_if_err :: "(compile_error + 'a) option \<Rightarrow> bool" where
  "fix_if_err res = (case res of None \<Rightarrow> False | Some (Inl e) \<Rightarrow> assert_has_fix e | Some (Inr _) \<Rightarrow> True)"

definition fails_with_fix :: "(compile_error + 'a) option \<Rightarrow> bool" where
  "fails_with_fix res = (case res of Some (Inl e) \<Rightarrow> assert_has_fix e | _ \<Rightarrow> False)"

definition returns_err :: "(compile_error + 'a) option \<Rightarrow> bool" where
  "returns_err res = (case res of Some (Inl e) \<Rightarrow> True | _ \<Rightarrow> False)"

text \<open>The jump check of \<open>shard_s_perf_pmg_edge.rs\<close> does not make an exception for calls.\<close>

definition edge_jump_ok :: "nat \<Rightarrow> nat \<Rightarrow> bpf_insn \<Rightarrow> bool" where
  "edge_jump_ok len idx insn =
     (if code insn AND 0x07 = 0x05 \<and> code insn AND 0xF0 \<noteq> BPF_EXIT then
        let target = int idx + 1 + sint (off insn) in target \<ge> 0 \<and> nat target < len
      else True)"

definition assert_valid_jumps :: "bpf_insn list \<Rightarrow> bool" where
  "assert_valid_jumps program =
     list_all (\<lambda>(idx, insn). edge_jump_ok (length program) idx insn) (List.enumerate 0 program)"

section \<open>Tests of break\_it.rs\<close>

definition test_empty_literal :: bool where
  "test_empty_literal = returns_ok (compile_literal_search [])"

definition test_empty_character_class :: bool where
  "test_empty_character_class = returns_ok (compile_character_class [])"

definition test_empty_alternation_slice :: bool where
  "test_empty_alternation_slice = returns_ok (compile_alternation [])"

definition test_null_bytes_in_literal :: bool where
  "test_null_bytes_in_literal = returns_ok (compile_literal_search [0, 0, 0, 0])"

definition test_null_bytes_in_character_class :: bool where
  "test_null_bytes_in_character_class = returns_ok (compile_character_class [0, byte CHR ''-'', 0])"

definition test_null_bytes_in_alternation :: bool where
  "test_null_bytes_in_alternation = returns_ok (compile_alternation [[0, 0], [0]])"

definition test_max_bpf_pattern_len_exact :: bool where
  "test_max_bpf_pattern_len_exact =
     returns_ok (compile_literal_search (replicate (unat MAX_BPF_PATTERN_LEN) (byte CHR ''A'')))"

definition test_max_bpf_pattern_len_plus_one :: bool where
  "test_max_bpf_pattern_len_plus_one =
     fails_with_fix (compile_literal_search (replicate (unat MAX_BPF_PATTERN_LEN + 1) (byte CHR ''A'')))"

definition test_huge_1mb_literal :: bool where
  "test_huge_1mb_literal = fails_with_fix (compile_literal_search (replicate (1024 * 1024) (byte CHR ''B'')))"

definition test_huge_1mb_alternation :: bool where
  "test_huge_1mb_alternation = fails_with_fix (compile_alternation (replicate 1024 (replicate 1024 (byte CHR ''C''))))"

definition test_concurrent_compilation :: bool where
  "test_concurrent_compilation =
     list_all (\<lambda>thread. returns_ok (compile_literal_search (bytes ''concurrent_pattern''))) [0..<8]"

definition test_concurrent_huge_compilation :: bool where
  "test_concurrent_huge_compilation =
     list_all (\<lambda>thread.
       fails_with_fix (compile_literal_search (replicate (unat MAX_BPF_PATTERN_LEN + 10) (byte CHR ''A'')))) [0..<8]"

definition test_malformed_character_class_trailing_dash :: bool where
  "test_malformed_character_class_trailing_dash = fix_if_err (compile_character_class (bytes ''a-''))"

definition test_malformed_character_class_leading_dash :: bool where
  "test_malformed_character_class_leading_dash = fix_if_err (compile_character_class (bytes ''-z''))"

definition test_malformed_character_class_reversed_range :: bool where
  "test_malformed_character_class_reversed_range = fails_with_fix (compile_character_class (bytes ''z-a''))"

definition test_malformed_character_class_multiple_dashes :: bool where
  "test_malformed_character_class_multiple_dashes = fails_with_fix (compile_character_class (bytes ''a--z''))"

definition test_unicode_bom :: bool where
  "test_unicode_bom = returns_ok (compile_literal_search [0xEF, 0xBB, 0xBF])"

definition test_unicode_overlong_sequence :: bool where
  "test_unicode_overlong_sequence = returns_ok (compile_literal_search [0xC1, 0x81])"

definition test_unicode_surrogate_half :: bool where
  "test_unicode_surrogate_half = returns_ok (compile_literal_search [0xED, 0xA0, 0x80])"

text \<open>An \<open>a\<close>, a dash and the four bytes of U+1F980.\<close>

definition test_unicode_character_class :: bool where
  "test_unicode_character_class = fix_if_err (compile_character_class (bytes ''a-'' @ [0xF0, 0x9F, 0xA6, 0x80]))"

definition test_duplicate_character_class :: bool where
  "test_duplicate_character_class = fix_if_err (compile_character_class (bytes ''a-za-z0-90-9''))"

definition test_duplicate_alternation :: bool where
  "test_duplicate_alternation = fix_if_err (compile_alternation [bytes ''test'', bytes ''test'', bytes ''test''])"

definition test_alternation_max_items :: bool where
  "test_alternation_max_items = fix_if_err (compile_alternation (replicate 1024 (bytes ''a'')))"

definition test_character_class_max_ranges :: bool where
  "test_character_class_max_ranges =
     fix_if_err (compile_character_class (concat (map (\<lambda>i. [of_nat i, byte CHR ''-'', of_nat i]) [0..<128])))"

definition test_resource_exhaustion_alternation :: bool where
  "test_resource_exhaustion_alternation = fails_with_fix (compile_alternation (replicate 100000 (bytes ''a'')))"

definition test_resource_exhaustion_character_class_long :: bool where
  "test_resource_exhaustion_character_class_long =
     fails_with_fix (compile_character_class (replicate 100000 (byte CHR ''a'')))"

definition test_alternation_with_empty_and_max_len :: bool where
  "test_alternation_with_empty_and_max_len =
     fix_if_err (compile_alternation [[], replicate (unat MAX_BPF_PATTERN_LEN) (byte CHR ''A'')])"

definition test_alternation_with_too_long_item :: bool where
  "test_alternation_with_too_long_item =
     fix_if_err (compile_alternation [bytes ''test'', replicate (unat MAX_BPF_PATTERN_LEN + 1) (byte CHR ''A'')])"

definition test_compile_alternation_all_empty :: bool where
  "test_compile_alternation_all_empty = returns_ok (compile_alternation [[], [], []])"

definition test_compile_character_class_only_dashes :: bool where
  "test_compile_character_class_only_dashes = fix_if_err (compile_character_class (bytes ''-----''))"

definition test_compile_literal_search_verifier_limit_stress :: bool where
  "test_compile_literal_search_verifier_limit_stress =
     fix_if_err (compile_literal_search (replicate (unat MAX_BPF_PATTERN_LEN) (byte CHR ''X'')))"

definition test_character_class_all_bytes :: bool where
  "test_character_class_all_bytes = fix_if_err (compile_character_class [0x00, byte CHR ''-'', 0xFF])"

definition test_alternation_long_strings :: bool where
  "test_alternation_long_strings =
     fix_if_err (compile_alternation [replicate 512 (byte CHR ''A''), replicate 512 (byte CHR ''B'')])"

section \<open>Tests of shard\_s\_perf\_pmg\_edge.rs\<close>

text \<open>\<open>unwrap()\<close>, then the jump check.\<close>

abbreviation jumps_checked :: "(compile_error + bpf_insn list) option \<Rightarrow> bool" where
  "jumps_checked r \<equiv> on_ok r assert_valid_jumps"

definition edge_literal_empty :: bool where
  "edge_literal_empty = jumps_checked (compile_literal_search [])"

definition edge_literal_single_byte :: bool where
  "edge_literal_single_byte = on_ok (compile_literal_search (bytes ''x'')) (\<lambda>p. assert_valid_jumps p \<and> p \<noteq> [])"

definition edge_literal_max_len :: bool where
  "edge_literal_max_len = returns_ok (compile_literal_search (replicate (unat MAX_BPF_PATTERN_LEN) (byte CHR ''a'')))"

definition edge_literal_over_max :: bool where
  "edge_literal_over_max = is_too_long (compile_literal_search (replicate (unat MAX_BPF_PATTERN_LEN + 1) (byte CHR ''a'')))"

definition edge_char_class_single :: bool where
  "edge_char_class_single = jumps_checked (compile_character_class (bytes ''abc''))"

definition edge_char_class_empty :: bool where
  "edge_char_class_empty = returns_ok (compile_character_class [])"

definition edge_alternation_two :: bool where
  "edge_alternation_two = jumps_checked (compile_alternation [bytes ''ab'', bytes ''cd''])"

definition edge_alternation_empty_branch :: bool where
  "edge_alternation_empty_branch = jumps_checked (compile_alternation [[], bytes ''x''])"

definition edge_char_ranges_single :: bool where
  "edge_char_ranges_single = jumps_checked (compile_char_class [\<lparr>lo = byte CHR ''a'', hi = byte CHR ''z''\<rparr>])"

definition edge_char_ranges_inverted :: bool where
  "edge_char_ranges_inverted = on_ok (compile_char_class [\<lparr>lo = byte CHR ''0'', hi = byte CHR ''9''\<rparr>]) (\<lambda>p. p \<noteq> [])"

definition edge_compile_with_limit_ok :: bool where
  "edge_compile_with_limit_ok \<longleftrightarrow> \<not> isl (compile_with_limit 8)"

definition edge_format_program_nonempty :: bool where
  "edge_format_program_nonempty =
     on_ok (compile_literal_search (bytes ''test'')) (\<lambda>p. let s = format_program p in str_contains s ''exit'')"

definition edge_literal_null_byte :: bool where
  "edge_literal_null_byte = jumps_checked (compile_literal_search [0])"

definition edge_literal_all_bytes_too_long :: bool where
  "edge_literal_all_bytes_too_long = returns_err (compile_literal_search (replicate 2044 (byte CHR ''a'')))"

definition edge_alternation_many :: bool where
  "edge_alternation_many = jumps_checked (compile_alternation [bytes ''a'', bytes ''b'', bytes ''c'', bytes ''d''])"

definition edge_literal_repeated :: bool where
  "edge_literal_repeated = jumps_checked (compile_literal_search (bytes ''aaaa''))"

definition edge_char_class_high_bytes :: bool where
  "edge_char_class_high_bytes = jumps_checked (compile_character_class [0xFF, 0xFE])"

definition edge_alternation_one_branch :: bool where
  "edge_alternation_one_branch = jumps_checked (compile_alternation [bytes ''only''])"

definition edge_char_range_point :: bool where
  "edge_char_range_point = jumps_checked (compile_char_class [\<lparr>lo = byte CHR ''X'', hi = byte CHR ''X''\<rparr>])"

definition edge_literal_ascii_printable :: bool where
  "edge_literal_ascii_printable = jumps_checked (compile_literal_search (bytes ''Hello, BPF!''))"

definition edge_compile_with_limit_zero :: bool where
  "edge_compile_with_limit_zero \<longleftrightarrow> \<not> isl (compile_with_limit 0)"

definition edge_alternation_long_branches :: bool where
  "edge_alternation_long_branches = jumps_checked (compile_alternation [bytes ''short'', replicate 32 (byte CHR ''x'')])"

definition edge_char_class_duplicates :: bool where
  "edge_char_class_duplicates = jumps_checked (compile_character_class (bytes ''aaa''))"

definition edge_literal_binary_nonutf8 :: bool where
  "edge_literal_binary_nonutf8 = jumps_checked (compile_literal_search [0x80, 0x81, 0x82])"

definition edge_char_ranges_adjacent :: bool where
  "edge_char_ranges_adjacent =
     jumps_checked (compile_char_class [\<lparr>lo = byte CHR ''a'', hi = byte CHR ''c''\<rparr>, \<lparr>lo = byte CHR ''d'', hi = byte CHR ''f''\<rparr>])"

definition edge_program_ends_with_exit_class :: bool where
  "edge_program_ends_with_exit_class = on_ok (compile_literal_search (bytes ''z'')) ends_in_exit"

definition edge_alternation_identical_branches :: bool where
  "edge_alternation_identical_branches = jumps_checked (compile_alternation [bytes ''same'', bytes ''same''])"

definition edge_literal_two_bytes :: bool where
  "edge_literal_two_bytes = on_ok (compile_literal_search (bytes ''xy'')) (\<lambda>p. 2 \<le> length p)"

definition edge_char_class_all_range :: bool where
  "edge_char_class_all_range = jumps_checked (compile_char_class [\<lparr>lo = 0, hi = 255\<rparr>])"

definition edge_compile_with_limit_large :: bool where
  "edge_compile_with_limit_large = isl (compile_with_limit 10000)"

definition edge_format_empty_program :: bool where
  "edge_format_empty_program = str_contains (format_program []) ''program''"

definition edge_literal_near_max :: bool where
  "edge_literal_near_max = returns_ok (compile_literal_search (replicate (unat MAX_BPF_PATTERN_LEN - 1) (byte CHR ''z'')))"

definition edge_alternation_empty_list :: bool where
  "edge_alternation_empty_list = jumps_checked (compile_alternation [])"

section \<open>Tests of the directories adversarial and concurrent\<close>

definition adversarial_compile_overflow_pattern_len :: bool where
  "adversarial_compile_overflow_pattern_len =
     is_too_long (compile_literal_search (replicate (unat MAX_BPF_PATTERN_LEN + 1) (byte CHR ''A'')))"

definition adversarial_compile_extreme_u32_max_len :: bool where
  "adversarial_compile_extreme_u32_max_len =
     returns_err (compile_literal_search (replicate (unat MAX_BPF_PATTERN_LEN * 10) 0xFF))"

text \<open>The result of \<open>close\<close> is not looked at.\<close>

definition adversarial_create_ringbuf_overflow_size :: "world \<Rightarrow> proc \<Rightarrow> bool" where
  "adversarial_create_ringbuf_overflow_size w p =
     (case create_ringbuf w (push_bit 31 1) p of
        (Inl e, p) \<Rightarrow> raw_os_error e \<noteq> None
      | (Inr fd, p) \<Rightarrow> True)"

text \<open>The bytes of the two characters outside ASCII, U+1F496 and U+1F680, in UTF-8.\<close>

definition compile_literal_search_unicode_high_bytes :: bool where
  "compile_literal_search_unicode_high_bytes =
     on_ok (compile_literal_search (bytes ''a'' @ [0xF0, 0x9F, 0x92, 0x96] @ bytes ''b'' @ [0xF0, 0x9F, 0x9A, 0x80] @ bytes ''c''))
       (\<lambda>prog. prog \<noteq> [] \<and> ends_in_exit prog)"

definition compile_literal_search_extreme_length :: bool where
  "compile_literal_search_extreme_length \<longleftrightarrow>
     returns_ok (compile_literal_search (replicate (unat MAX_BPF_PATTERN_LEN) (byte CHR ''a'')))
     \<and> is_too_long (compile_literal_search (replicate (unat MAX_BPF_PATTERN_LEN + 1) (byte CHR ''a'')))"

definition compile_character_class_invalid_ranges :: bool where
  "compile_character_class_invalid_ranges = is_invalid (compile_character_class (bytes ''z-a''))"

definition compile_alternation_empty_strings :: bool where
  "compile_alternation_empty_strings = returns_ok (compile_alternation [bytes ''a'', [], bytes ''c''])"

definition compiles_and_formats :: "u8 list \<Rightarrow> bool" where
  "compiles_and_formats pattern = on_ok (compile_literal_search pattern) (\<lambda>prog.
     let formatted = format_program prog in formatted \<noteq> [] \<and> str_contains formatted ''exit'')"

definition concurrent_compile_and_format_stress_test :: bool where
  "concurrent_compile_and_format_stress_test =
     list_all (\<lambda>i. list_all (\<lambda>_. compiles_and_formats (bytes (''adversarial_pattern_match_'' @ show_nat i))) [0..<100]) [0..<32]"

section \<open>Errors say what to do\<close>

lemma has_fix: "assert_has_fix err"
proof (cases err)
  case (PatternTooLong len mx)
  show ?thesis
    unfolding assert_has_fix_def PatternTooLong
    by (rule str_containsI [where pre = "''pattern length '' @ show_nat (unat len) @ '' exceeds BPF verifier limit of ''
          @ show_nat (unat mx) @ '' bytes. ''" and post = "'' use userspace matching for patterns longer than ''
          @ show_nat (unat mx) @ '' bytes.''"]) simp
next
  case (InvalidPattern reason)
  show ?thesis
    unfolding assert_has_fix_def InvalidPattern
    by (rule str_containsI [where pre = "''invalid pattern: '' @ reason @ ''. ''" and
          post = "'' use a supported subset (literal bytes, alternation, and ranges with start <= end).''"]) simp
qed

lemma fix_if_err_iff: "fix_if_err res \<longleftrightarrow> res \<noteq> None"
  by (simp add: fix_if_err_def has_fix split: option.split sum.split)

lemma fails_with_fix_iff: "fails_with_fix res \<longleftrightarrow> returns_err res"
  by (simp add: fails_with_fix_def returns_err_def has_fix split: option.split sum.split)

lemma compile_returns:
  "length pattern < 2 ^ 62 \<Longrightarrow> compile_literal_search pattern \<noteq> None"
  "length cls < 2 ^ 61 \<Longrightarrow> compile_character_class cls \<noteq> None"
  "alts_size alts < 2 ^ 62 \<Longrightarrow> compile_alternation alts \<noteq> None"
  using compile_literal_search_returns [of pattern] by (auto simp: compile_character_class_eq compile_alternation_eq)

lemma literal_refused:
  assumes "1024 < length pattern" "length pattern < 2 ^ 62"
  shows "returns_err (compile_literal_search pattern)" "is_too_long (compile_literal_search pattern)"
  using compile_literal_search_large [OF assms] by (simp_all add: returns_err_def)

lemma alternation_refused:
  assumes "4096 < 4 + alts_size alts" "alts_size alts < 2 ^ 62" "[] \<notin> set alts"
  shows "returns_err (compile_alternation alts)"
  using assms by (auto simp: compile_alternation_eq returns_err_def)

lemma repeated_letter_parses: "parse_character_class (replicate n 0x61) = Ok (replicate n (Single 0x61))"
proof -
  have "class_text (replicate n (Single 0x61)) = replicate n 0x61"
    by (induction n) (simp_all add: class_text_def class_byte_text_def)
  then show ?thesis
    using parse_class_text [of "replicate n (Single 0x61)"] by (simp add: list_all_iff)
qed

section \<open>No calls, so the stricter jump check holds\<close>

definition no_call :: "bpf_insn \<Rightarrow> bool" where
  "no_call i \<longleftrightarrow> code i AND 0x07 \<noteq> 0x05 \<or> code i AND 0xF0 \<noteq> 0x80"

lemma no_call_macros [simp]:
  "no_call (ldx_mem BPF_B d s f)" "no_call (ldx_mem BPF_W d s f)" "no_call (alu64_imm BPF_MOV d k)"
  "no_call (alu64_imm BPF_ADD d k)" "no_call (alu64_reg BPF_MOV d s)" "no_call (alu64_reg BPF_ADD d s)"
  "no_call (jmp_imm BPF_JNE d k f)" "no_call (jmp_imm BPF_JA d k f)" "no_call (jmp_reg BPF_JGT d s f)" "no_call exit_insn"
  "no_call (jmp_imm BPF_JLT d k f)" "no_call (jmp_imm BPF_JLE d k f)"
  by (simp_all add: no_call_def jump_macros bpf_opcodes)

lemma edge_jump_ok_no_call: "no_call i \<Longrightarrow> edge_jump_ok len idx i = insn_jump_ok len idx i"
  by (auto simp: edge_jump_ok_def insn_jump_ok_def no_call_def bpf_opcodes Let_def)

lemma well_formed_edge_jumps:
  assumes "well_formed_program prog" "list_all no_call prog"
  shows "assert_valid_jumps prog"
proof -
  have "edge_jump_ok (length prog) k i = insn_jump_ok (length prog) k i" if "(k, i) \<in> set (List.enumerate 0 prog)" for k i
    using that assms(2) by (auto simp: in_set_enumerate_eq list_all_length edge_jump_ok_no_call)
  then have "assert_valid_jumps prog \<longleftrightarrow> list_all (\<lambda>(k, i). insn_jump_ok (length prog) k i) (List.enumerate 0 prog)"
    by (auto simp: assert_valid_jumps_def list_all_iff)
  then show ?thesis
    using assms(1) by (simp add: jumps_ok_enumerate well_formed_program_def assert_jump_offsets_are_valid_def)
qed

lemma byte_checks_no_call: "list_all no_call (byte_checks skip i bs)"
  by (induction skip i bs rule: byte_checks.induct) auto

lemma alt_checks_no_call: "list_all no_call (alt_checks m i a)"
  by (induction m i a rule: alt_checks.induct) auto

lemma literal_no_call: "list_all no_call (literal_filter pattern)"
  by (simp add: literal_filter_def literal_program_def byte_checks_no_call Let_def)

lemma class_no_call: "list_all no_call (class_program rs)"
proof -
  have "list_all no_call (class_code rs)"
    by (induction rs) auto
  then show ?thesis
    by (simp add: class_program_def)
qed

lemma alternation_no_call: "list_all no_call (alternation_program alts)"
proof -
  have "list_all no_call (alts_code True True True alts)"
    by (induction alts) (auto simp: alt_block_def alt_checks_no_call)
  then show ?thesis
    by (simp add: alternation_program_def)
qed

lemma constant_no_call: "list_all no_call [alu64_imm BPF_MOV R0 k, exit_insn]"
  by simp

lemmas edge_jumps = well_formed_edge_jumps [OF literal_filter_well_formed literal_no_call]
  well_formed_edge_jumps [OF class_program_well_formed class_no_call]
  well_formed_edge_jumps [OF alternation_program_well_formed alternation_no_call]
  well_formed_edge_jumps [OF constant_program_well_formed constant_no_call]

section \<open>The tests pass\<close>

lemma no_panic_tests:
  test_malformed_character_class_trailing_dash test_malformed_character_class_leading_dash test_unicode_character_class
  test_duplicate_character_class test_duplicate_alternation test_alternation_max_items test_character_class_max_ranges
  test_alternation_with_empty_and_max_len test_alternation_with_too_long_item test_compile_character_class_only_dashes
  test_compile_literal_search_verifier_limit_stress test_character_class_all_bytes test_alternation_long_strings
proof -
  have "length (concat (map (\<lambda>i. [of_nat i, byte CHR ''-'', of_nat i]) is)) = 3 * length is" for "is" :: "nat list"
    by (induction "is") simp_all
  then show test_character_class_max_ranges
    by (simp add: test_character_class_max_ranges_def fix_if_err_iff compile_returns [simplified])
qed (simp_all add:
    test_malformed_character_class_trailing_dash_def test_malformed_character_class_leading_dash_def
    test_unicode_character_class_def test_duplicate_character_class_def test_duplicate_alternation_def
    test_alternation_max_items_def test_alternation_with_empty_and_max_len_def
    test_alternation_with_too_long_item_def test_compile_character_class_only_dashes_def
    test_compile_literal_search_verifier_limit_stress_def test_character_class_all_bytes_def
    test_alternation_long_strings_def
    fix_if_err_iff compile_returns [simplified] alts_size_replicate MAX_BPF_PATTERN_LEN_def)

lemma refusal_tests:
  test_max_bpf_pattern_len_plus_one test_huge_1mb_literal test_huge_1mb_alternation test_concurrent_huge_compilation
  test_resource_exhaustion_alternation edge_literal_over_max edge_literal_all_bytes_too_long
  adversarial_compile_overflow_pattern_len adversarial_compile_extreme_u32_max_len compile_literal_search_extreme_length
  by (simp_all add:
    test_max_bpf_pattern_len_plus_one_def test_huge_1mb_literal_def test_huge_1mb_alternation_def
    test_concurrent_huge_compilation_def test_resource_exhaustion_alternation_def edge_literal_over_max_def
    edge_literal_all_bytes_too_long_def adversarial_compile_overflow_pattern_len_def
    adversarial_compile_extreme_u32_max_len_def compile_literal_search_extreme_length_def
    fails_with_fix_iff returns_ok_def literal_refused alternation_refused alts_size_replicate compile_literal_search_small
    MAX_BPF_PATTERN_LEN_def list_all_iff)

lemma edge_literal_tests:
  test_empty_literal test_null_bytes_in_literal test_max_bpf_pattern_len_exact test_concurrent_compilation
  test_unicode_bom test_unicode_overlong_sequence test_unicode_surrogate_half edge_literal_empty
  edge_literal_single_byte edge_literal_max_len edge_literal_null_byte edge_literal_repeated
  edge_literal_ascii_printable edge_literal_binary_nonutf8 edge_program_ends_with_exit_class edge_literal_two_bytes
  edge_literal_near_max compile_literal_search_unicode_high_bytes
  by (simp_all add:
    test_empty_literal_def test_null_bytes_in_literal_def test_max_bpf_pattern_len_exact_def
    test_concurrent_compilation_def test_unicode_bom_def test_unicode_overlong_sequence_def
    test_unicode_surrogate_half_def edge_literal_empty_def edge_literal_single_byte_def edge_literal_max_len_def
    edge_literal_null_byte_def edge_literal_repeated_def edge_literal_ascii_printable_def
    edge_literal_binary_nonutf8_def edge_program_ends_with_exit_class_def edge_literal_two_bytes_def
    edge_literal_near_max_def compile_literal_search_unicode_high_bytes_def
    returns_ok_def compile_literal_search_small edge_jumps literal_facts MAX_BPF_PATTERN_LEN_def list_all_iff)

lemma edge_alternation_tests:
  test_empty_alternation_slice test_null_bytes_in_alternation test_compile_alternation_all_empty edge_alternation_two
  edge_alternation_empty_branch edge_alternation_many edge_alternation_one_branch edge_alternation_long_branches
  edge_alternation_identical_branches edge_alternation_empty_list compile_alternation_empty_strings
  by (simp_all add:
    test_empty_alternation_slice_def test_null_bytes_in_alternation_def test_compile_alternation_all_empty_def
    edge_alternation_two_def edge_alternation_empty_branch_def edge_alternation_many_def edge_alternation_one_branch_def
    edge_alternation_long_branches_def edge_alternation_identical_branches_def edge_alternation_empty_list_def
    compile_alternation_empty_strings_def
    returns_ok_def compile_alternation_eq edge_jumps)

lemma edge_range_tests:
  edge_char_ranges_single edge_char_ranges_inverted edge_char_range_point edge_char_ranges_adjacent
  edge_char_class_all_range
  by (simp_all add:
    edge_char_ranges_single_def edge_char_ranges_inverted_def edge_char_range_point_def edge_char_ranges_adjacent_def
    edge_char_class_all_range_def
    compile_char_class_eq edge_jumps well_formed_exit [OF class_program_well_formed])

lemma edge_class_tests:
  test_empty_character_class test_null_bytes_in_character_class test_malformed_character_class_reversed_range
  test_malformed_character_class_multiple_dashes test_resource_exhaustion_character_class_long edge_char_class_single
  edge_char_class_empty edge_char_class_high_bytes edge_char_class_duplicates compile_character_class_invalid_ranges
proof -
  show test_resource_exhaustion_character_class_long
    using repeated_letter_parses [of 100000]
    by (simp add: test_resource_exhaustion_character_class_long_def fails_with_fix_iff returns_err_def compile_character_class_eq)
qed (simp_all add:
    test_empty_character_class_def test_null_bytes_in_character_class_def
    test_malformed_character_class_reversed_range_def test_malformed_character_class_multiple_dashes_def
    edge_char_class_single_def edge_char_class_empty_def
    edge_char_class_high_bytes_def edge_char_class_duplicates_def compile_character_class_invalid_ranges_def
    returns_ok_def fails_with_fix_iff returns_err_def compile_character_class_eq parse_eval edge_jumps)

lemma limit_samples:
  edge_compile_with_limit_ok edge_compile_with_limit_zero edge_compile_with_limit_large
  by (simp_all add: edge_compile_with_limit_ok_def edge_compile_with_limit_zero_def edge_compile_with_limit_large_def
    compile_with_limit_def MAX_BPF_INSTRUCTION_LEN_def)

lemma compiles_and_formats_all:
  assumes "length pattern \<le> 1024"
  shows "compiles_and_formats pattern"
proof -
  have "exit_insn \<in> set (literal_filter pattern)"
    using literal_filter_well_formed [OF assms] last_in_set by (fastforce simp: well_formed_program_def)
  then have listed: "str_contains (format_program (literal_filter pattern)) ''exit''"
    by (rule listing_contains) (simp add: display_def exit_insn_def bpf_opcodes)
  then have "format_program (literal_filter pattern) \<noteq> []"
    by (auto simp: str_contains_def)
  with listed show ?thesis
    by (simp add: compiles_and_formats_def compile_literal_search_small [OF assms])
qed

lemma show_nat_short: "n < 100 \<Longrightarrow> length (show_nat n) \<le> 2"
  by (subst show_nat.simps, subst show_nat.simps) simp

lemma listing_samples:
  edge_format_program_nonempty edge_format_empty_program concurrent_compile_and_format_stress_test
proof -
  show edge_format_program_nonempty
    using compiles_and_formats_all [of "bytes ''test''"]
    by (simp add: edge_format_program_nonempty_def compiles_and_formats_def compile_literal_search_small Let_def)
  show edge_format_empty_program
    unfolding edge_format_empty_program_def
    by (rule str_containsI [where pre = "''# empty ''" and post = "[]"]) (simp add: format_program_def)
  have "compiles_and_formats (bytes (''adversarial_pattern_match_'' @ show_nat i))" if "i < 32" for i
    by (rule compiles_and_formats_all) (use show_nat_short [of i] that in simp)
  then show concurrent_compile_and_format_stress_test
    by (auto simp: concurrent_compile_and_format_stress_test_def list_all_iff)
qed

lemma overflow_size_test: "adversarial_create_ringbuf_overflow_size w p"
proof -
  have "is_power_of_two (push_bit 31 1)"
    by code_simp
  then show ?thesis
    by (simp add: adversarial_create_ringbuf_overflow_size_def create_ringbuf_def call_def last_os_error_def Let_def)
qed

section \<open>Properties\<close>

text \<open>
  The tests pass on the model. What they sample holds in general: no compile function panics on an input of the
  stated size, every error carries a recommendation, literals over the limit are refused as too long, a literal
  program is listed with its exit, and a ring of \<open>2 ^ 31\<close> bytes fails only with an error of the kernel, on every kernel.
\<close>

theorem edge_tests_pass:
  "(length pattern < 2 ^ 62 \<longrightarrow> fix_if_err (compile_literal_search pattern)
      \<and> (1024 < length pattern \<longrightarrow> fails_with_fix (compile_literal_search pattern) \<and> is_too_long (compile_literal_search pattern))
      \<and> (length pattern \<le> 1024 \<longrightarrow> compiles_and_formats pattern))
   \<and> (length cls < 2 ^ 61 \<longrightarrow> fix_if_err (compile_character_class cls))
   \<and> (alts_size alts < 2 ^ 62 \<longrightarrow> fix_if_err (compile_alternation alts))
   \<and> adversarial_create_ringbuf_overflow_size w p
   \<and> test_empty_literal \<and> test_empty_character_class \<and> test_empty_alternation_slice
   \<and> test_null_bytes_in_literal \<and> test_null_bytes_in_character_class \<and> test_null_bytes_in_alternation
   \<and> test_max_bpf_pattern_len_exact \<and> test_max_bpf_pattern_len_plus_one \<and> test_huge_1mb_literal
   \<and> test_huge_1mb_alternation \<and> test_concurrent_compilation \<and> test_concurrent_huge_compilation
   \<and> test_malformed_character_class_trailing_dash \<and> test_malformed_character_class_leading_dash
   \<and> test_malformed_character_class_reversed_range \<and> test_malformed_character_class_multiple_dashes
   \<and> test_unicode_bom \<and> test_unicode_overlong_sequence \<and> test_unicode_surrogate_half
   \<and> test_unicode_character_class \<and> test_duplicate_character_class \<and> test_duplicate_alternation
   \<and> test_alternation_max_items \<and> test_character_class_max_ranges \<and> test_resource_exhaustion_alternation
   \<and> test_resource_exhaustion_character_class_long \<and> test_alternation_with_empty_and_max_len
   \<and> test_alternation_with_too_long_item \<and> test_compile_alternation_all_empty
   \<and> test_compile_character_class_only_dashes \<and> test_compile_literal_search_verifier_limit_stress
   \<and> test_character_class_all_bytes \<and> test_alternation_long_strings \<and> edge_literal_empty
   \<and> edge_literal_single_byte \<and> edge_literal_max_len \<and> edge_literal_over_max \<and> edge_char_class_single
   \<and> edge_char_class_empty \<and> edge_alternation_two \<and> edge_alternation_empty_branch \<and> edge_char_ranges_single
   \<and> edge_char_ranges_inverted \<and> edge_compile_with_limit_ok \<and> edge_format_program_nonempty
   \<and> edge_literal_null_byte \<and> edge_literal_all_bytes_too_long \<and> edge_alternation_many \<and> edge_literal_repeated
   \<and> edge_char_class_high_bytes \<and> edge_alternation_one_branch \<and> edge_char_range_point
   \<and> edge_literal_ascii_printable \<and> edge_compile_with_limit_zero \<and> edge_alternation_long_branches
   \<and> edge_char_class_duplicates \<and> edge_literal_binary_nonutf8 \<and> edge_char_ranges_adjacent
   \<and> edge_program_ends_with_exit_class \<and> edge_alternation_identical_branches \<and> edge_literal_two_bytes
   \<and> edge_char_class_all_range \<and> edge_compile_with_limit_large \<and> edge_format_empty_program
   \<and> edge_literal_near_max \<and> edge_alternation_empty_list \<and> adversarial_compile_overflow_pattern_len
   \<and> adversarial_compile_extreme_u32_max_len \<and> compile_literal_search_unicode_high_bytes
   \<and> compile_literal_search_extreme_length \<and> compile_character_class_invalid_ranges
   \<and> compile_alternation_empty_strings \<and> concurrent_compile_and_format_stress_test"
  using compile_returns(1) [of pattern] compile_returns(2) [of cls] compile_returns(3) [of alts] literal_refused [of pattern]
    compiles_and_formats_all [of pattern] overflow_size_test
  unfolding fix_if_err_iff fails_with_fix_iff
  by (intro conjI impI no_panic_tests refusal_tests edge_literal_tests edge_alternation_tests edge_range_tests edge_class_tests
      limit_samples listing_samples) simp_all

theorem edge_tests_pass_witness:
  "fails_with_fix (compile_literal_search (replicate 3000 7)) \<and> compiles_and_formats [0xFF]
   \<and> fix_if_err (compile_character_class [0x5C]) \<and> fix_if_err (compile_alternation [[1], []])"
  using edge_tests_pass [of "replicate 3000 7" "[0x5C]" "[[1], []]"] edge_tests_pass [of "[0xFF]"] by simp

end
