(* ===== verification/Spec2Isabelle.thy ===== *)
theory Spec2Isabelle
  imports Reg_Types Threads Loader_Abi Unwind Class_Grammar Debug_Profile Debug_Ring Edge_Tests
begin

text \<open>
  Verification of \<open>ebpfkit\<close>, a Rust crate that compiles byte patterns to eBPF programs, loads
  them into the Linux kernel and consumes BPF ring buffers.

  \<^bold>\<open>The program.\<close> \<open>src/assembler.rs\<close> is the instruction format, the opcode tables, the macros
  that build instructions and the listing of programs. \<open>src/compiler/\<close> turns a literal, a
  character class or an alternation into an instruction list: \<open>verify.rs\<close> parses classes and
  checks limits, \<open>codegen.rs\<close> emits code with placeholder jumps and patches them
  afterwards, partly through \<open>emit.rs\<close>. \<open>src/loader/\<close> talks to the kernel: \<open>prog.rs\<close> loads and
  attaches programs, \<open>ringbuf.rs\<close> creates, maps, waits for and consumes ring buffers,
  \<open>core_detect.rs\<close> derives feature gates from the kernel release. \<open>src/lib.rs\<close> composes the
  literal compiler and the loader into \<open>attach_kernel_page_discard\<close>.

  \<^bold>\<open>Theories.\<close>
  \<^item> \<open>Prelude\<close>: machine types, results and \<open>?\<close>, checked and saturating arithmetic, indexing
    that can panic, number formatting, generic lemmas.
  \<^item> \<open>Rust_Str\<close>: UTF-8 decoding, trimming, splitting, number parsing of the standard library.
  \<^item> \<open>Assembler\<close>: \<open>assembler.rs\<close>. \<open>BpfInsn\<close> is the record \<open>bpf_insn\<close>; each constant, macro and
    the \<open>Display\<close> implementation is a definition. Packing and byte-layout round trips, the
    shape of listings, the printed jump distance.
  \<^item> \<open>Verify\<close>: \<open>verify.rs\<close>. Scanner, token grammar and limits; parse/print round trip and the
    invariant of parsed ranges.
  \<^item> \<open>Codegen\<close>: \<open>codegen.rs\<close> and \<open>emit.rs\<close>, emission loops and patching passes as they are, over
    recorded indices. A panic is the value \<open>None\<close>.
  \<^item> \<open>Layout\<close>: the programs written down directly. Equivalence with the patched output, exact
    estimates, valid jumps, all errors.
  \<^item> \<open>Debug_Profile\<close>: \<open>codegen.rs\<close>, \<open>emit.rs\<close> and the estimates once more, with every plain \<open>+\<close>, \<open>-\<close> and \<open>*\<close>
    checked as in a debug build. Agreement with the release definitions, and the one sum that can overflow.
  \<^item> \<open>Machine\<close>: runs of programs. The kernel's machine is a parameter with the documented
    instruction set as the locales \<open>isa_class\<close> and \<open>isa_filter\<close>; the interpreter of the
    test-suite and \<open>bpf_step\<close> are instances.
  \<^item> \<open>Class_Semantics\<close>, \<open>Filter_Semantics\<close>: what the programs compute on every such machine:
    membership of a byte, occurrence of a pattern in a packet, an alternative at a position; with
    step bounds, no access outside the packet and no jump outside the program.
  \<^item> \<open>Class_Grammar\<close>: the syntax and meaning of class texts as an inductive relation, independent of the
    scanner. The parser accepts exactly its texts, and each refusal names a defect of the text.
  \<^item> \<open>Reg_Types\<close>: a type system for the emitted instructions (numbers, context, packet pointers, packet
    end), in the spirit of the kernel's verifier. Every compiled program is well typed; well-typed
    programs do not get stuck on a machine with tagged values; on packets the tagged machine and the
    untyped one agree.
  \<^item> \<open>Literal_Shape\<close>: what can be read off a literal program and its listing; the pattern can.
  \<^item> \<open>Os\<close>: system calls, events, \<open>io::Error\<close>, the \<open>repr(C)\<close> structures and the process state.
    What the kernel answers (\<open>world\<close>) is a function of the history and otherwise arbitrary.
  \<^item> \<open>Prog\<close>: \<open>prog.rs\<close>. What is submitted, what is returned, how the verifier log is reported.
  \<^item> \<open>Ringbuf\<close>: \<open>ringbuf.rs\<close>, every function, with destructors run in Rust's order; consumption
    is the step function \<open>ring_step\<close>, iterated by \<open>while_option\<close>.
  \<^item> \<open>Ring_Consume\<close>: reachable states; memory safety for arbitrary shared memory; termination.
  \<^item> \<open>Ring_Delivery\<close>, \<open>Ring_Log\<close>: the kernel's contract as the locale \<open>ring_kernel\<close>; the
    refinement of the loop to in-order delivery of a log of records; rings encoded from
    logs as its instance, read back. The contract speaks of the moments of one run, and of a record only until the
    consumer has published a position behind it: after that its space may hold other records.
  \<^item> \<open>Trace\<close>, \<open>Poll_Trace\<close>: the locales \<open>trace_rel\<close>, \<open>poll_calls\<close> and \<open>poll_events\<close>, in which what each event
    keeps is kept by each operation of the ring buffer, up to a whole poll. The shared pages are accessed only
    while they are mapped.
  \<^item> \<open>Ring_Poll\<close>: resources of a poll, retrying waits, ring creation, the page-size cache. A mapping whose \<open>munmap\<close>
    fails counts as leaked, and the line about it is in the history; a closed descriptor is gone whatever \<open>close\<close>
    answers, as on Linux.
  \<^item> \<open>Ring_Session\<close>: any number of polls of one ring. The kernel's contract over a session is the locale
    \<open>ring_session\<close>, from which each poll inherits \<open>ring_kernel\<close>.
  \<^item> \<open>Ring_Feed\<close>: a kernel that feeds a log of any length through the ring, overwriting what has been freed, as its
    instance; delivery exactly once, and nothing left behind.
  \<^item> \<open>Unwind\<close>: a poll whose callback may panic, with unwinding as a second kind of result. Without panics it is
    the poll of \<open>Ringbuf\<close>; with them nothing leaks unreported, and over a session every record is handled exactly
    once: one whose callback panicked is delivered again.
  \<^item> \<open>Debug_Ring\<close>: the operations of \<open>ringbuf.rs\<close> with plain arithmetic once more, checked as in a debug build;
    a poll is the same in both profiles.
  \<^item> \<open>Core_Detect\<close>: \<open>core_detect.rs\<close>. Version parsing, gates, the once-only warning.
  \<^item> \<open>Loader_Abi\<close>: \<open>src/loader/mod.rs\<close> and the raw \<open>bpf\<close> calls: number, command, structure and size of
    every call belong together, by an interpretation of \<open>poll_events\<close>.
  \<^item> \<open>Threads\<close>: the statics of \<open>page_size\<close> and \<open>warn_kernel_undetected\<close> under any interleaving of any
    number of threads: where page sizes come from and when they agree, one warning, no deadlock; alone, a thread is the sequential function.
  \<^item> \<open>Compiler_Tests\<close>, \<open>Parser_Tests\<close>, \<open>Loader_Tests\<close>: the unit tests of the sources, the fuzz targets
    and the property tests as predicates, a test being true when no assertion of
    it fails; those with an input or a kernel hold for every one of them, within stated limits.
  \<^item> \<open>Suite_Tests\<close>, \<open>Edge_Tests\<close>: the integration tests under \<open>tests/\<close>, with the general facts they sample: every
    literal unrolls and spells its bytes, no compile function panics, every error carries a recommendation.
  \<^item> This theory: \<open>lib.rs\<close> and the properties across components. An attached filter answers 1 exactly on packets
    containing the pattern where the context holds the bounds of the packet, as the compiler assumes
    (\<open>packet_context\<close>); on the context of a socket filter, as which the loader submits it
    (\<open>sk_buff_context\<close>), it answers 0.

  \<^bold>\<open>Bounds.\<close> Runs of programs count steps with fuel, and every theorem about a run states how
  much is enough and that the run then exits: two steps per range and two more for a class, one per
  instruction for an alternation, \<open>(len + 1) * (2 * n + 7) + 3\<close> for the literal search.
  A schedule of \<open>k\<close> threads has at most \<open>3 * k\<close> steps.
  Loops of the loader have no fuel: \<open>epoll_wait\<close> and \<open>consume_ring_records\<close> are partial, and that they
  return is proved under stated conditions. Lengths below \<open>2 ^ 61\<close> or \<open>2 ^ 62\<close> in hypotheses keep
  the size computations of the sources from wrapping; no Rust slice of that size exists. (Alternatives are
  references and may overlap: see the last theorem of \<open>Debug_Profile\<close>.)
  Plain arithmetic wraps as in the release profile, except in \<open>Debug_Profile\<close> and \<open>Debug_Ring\<close>, where an overflow
  is a panic.

  \<^bold>\<open>Not modelled.\<close> The kernel (its verifier, its eBPF machine beyond the instructions used, the
  producer side of ring buffers) appears only through parameters and locales. Vector
  capacities, addresses of Rust values handed to the kernel (the model hands over the
  memory), weak memory orderings (accesses are sequentially consistent events), what a client does
  with a panic of its callback once it has caught it, escaping of non-ASCII characters in one warning text, non-Linux configurations
  except the stub of \<open>attach_kernel_page_discard\<close>. Panics of \<open>eprintln\<close> on a closed standard error, and
  hence the poisoning of the \<open>Once\<close>. Of the tests, three that call a feature gate
  and assert nothing. The benchmarks, which only measure time.
\<close>

section \<open>The crate's entry point\<close>

datatype attach_error = Compile compile_error | Io io_error

fun attach_error_text :: "(i32 \<Rightarrow> rust_str) \<Rightarrow> attach_error \<Rightarrow> rust_str" where
  "attach_error_text strerror (Compile e) = str_lit (compile_error_message e)"
| "attach_error_text strerror (Io e) = str_lit ''kernel operation failed: '' @ io_error_text strerror e"

text \<open>\<open>None\<close> is a panic of the compiler; the two error conversions are those of the \<open>?\<close> operator.\<close>

definition attach_kernel_page_discard ::
  "world \<Rightarrow> u8 list \<Rightarrow> raw_fd \<Rightarrow> proc \<Rightarrow> ((attach_error + unit) \<times> proc) option" where
  "attach_kernel_page_discard w pattern target_socket p =
     (case compile_literal_search pattern of
        None \<Rightarrow> None
      | Some (Inl e) \<Rightarrow> Some (Err (Compile e), p)
      | Some (Inr prog) \<Rightarrow>
        (case load_filter w prog p of
           (Inl e, p) \<Rightarrow> Some (Err (Io e), p)
         | (Inr filter_fd, p) \<Rightarrow>
           (case attach_to_socket w filter_fd target_socket p of
              (Inl e, p) \<Rightarrow> Some (Err (Io e), p)
            | (Inr _, p) \<Rightarrow> Some (Ok (), p))))"

text \<open>The stub of other platforms.\<close>

definition attach_unsupported :: "u8 list \<Rightarrow> i32 \<Rightarrow> attach_error + unit" where
  "attach_unsupported pattern target_socket =
     Err (Io (Custom Unsupported (str_lit ''eBPF is only available on Linux'')))"

section \<open>Composition\<close>

lemma load_well_formed:
  assumes "well_formed_program prog"
  shows "load_filter w prog p =
    (let c = Bpf_prog_load (prog_load_attr prog) 112; r = kcall w (hist p) c in
     (if failed r then
        Err (Custom (decode_error_kind (errno r))
           (io_error_text (kstrerror w) (OsError (errno r))
            @ str_lit '' -- BPF verifier log: '' @ verifier_log (out_bytes r)))
      else Ok (ucast (ret r)), log_event (Sys c r) p))"
proof -
  have "prog \<noteq> []" "length prog \<le> 4096"
    using assms by (simp_all add: well_formed_program_def)
  then show ?thesis
    by (simp add: load_filter_cases)
qed

lemma attach_cases:
  fixes w pattern p target_socket
  defines "c \<equiv> Bpf_prog_load (prog_load_attr (literal_filter pattern)) 112"
  defines "r \<equiv> kcall w (hist p) c"
  defines "c' \<equiv> Setsockopt target_socket SOL_SOCKET SO_ATTACH_BPF (ucast (ret r)) 4"
  defines "r' \<equiv> kcall w (hist p @ [Sys c r]) c'"
  assumes "length pattern \<le> 1024"
  shows "\<exists>e. attach_kernel_page_discard w pattern target_socket p = Some
    (if failed r then (Err (Io e), log_event (Sys c r) p)
     else (if failed r' then Err (Io (OsError (errno r'))) else Ok (),
           log_event (Sys c' r') (log_event (Sys c r) p)))"
proof -
  have prog: "compile_literal_search pattern = Some (Ok (literal_filter pattern))"
    "well_formed_program (literal_filter pattern)"
    using assms(5) by (simp_all add: compile_literal_search_small literal_filter_well_formed)
  note load = load_well_formed [OF prog(2), of w p, folded c_def, unfolded Let_def, folded c_def r_def]
  show ?thesis
    by (auto simp: attach_kernel_page_discard_def prog(1) load attach_to_socket_def call_def Let_def
        last_os_error_def c'_def [symmetric] r'_def [symmetric] split: if_splits)
qed

lemma attach_too_long:
  assumes "1024 < length pattern" "length pattern < 2 ^ 62"
  shows "\<exists>n m. attach_kernel_page_discard w pattern target_socket p = Some (Err (Compile (PatternTooLong n m)), p)"
  using compile_literal_search_large [OF assms] by (auto simp: attach_kernel_page_discard_def)

lemma attach_total:
  assumes "length pattern < 2 ^ 62"
  shows "\<exists>res p'. attach_kernel_page_discard w pattern target_socket p = Some (res, p')"
  using attach_cases [of pattern w target_socket p] attach_too_long [OF _ assms, of w target_socket p]
  by (cases "length pattern \<le> 1024") (auto simp del: prod.inject)

lemma attach_events:
  assumes "attach_kernel_page_discard w pattern target_socket p = Some (res, p')" "length pattern < 2 ^ 62"
  obtains (refused) n m where "1024 < length pattern" "p' = p" "res = Err (Compile (PatternTooLong n m))"
  | (rejected) e r where "length pattern \<le> 1024" "res = Err (Io e)" "failed r"
      "r = kcall w (hist p) (Bpf_prog_load (prog_load_attr (literal_filter pattern)) 112)"
      "hist p' = hist p @ [Sys (Bpf_prog_load (prog_load_attr (literal_filter pattern)) 112) r]"
  | (bound) r r' where "length pattern \<le> 1024" "\<not> failed r"
      "r = kcall w (hist p) (Bpf_prog_load (prog_load_attr (literal_filter pattern)) 112)"
      "r' = kcall w (hist p @ [Sys (Bpf_prog_load (prog_load_attr (literal_filter pattern)) 112) r])
        (Setsockopt target_socket SOL_SOCKET SO_ATTACH_BPF (ucast (ret r)) 4)"
      "res = (if failed r' then Err (Io (OsError (errno r'))) else Ok ())"
      "hist p' = hist p @ [Sys (Bpf_prog_load (prog_load_attr (literal_filter pattern)) 112) r,
        Sys (Setsockopt target_socket SOL_SOCKET SO_ATTACH_BPF (ucast (ret r)) 4) r']"
proof (cases "length pattern \<le> 1024")
  case True
  let ?load = "Bpf_prog_load (prog_load_attr (literal_filter pattern)) 112"
  obtain e where run: "attach_kernel_page_discard w pattern target_socket p = Some
    (if failed (kcall w (hist p) ?load) then (Err (Io e), log_event (Sys ?load (kcall w (hist p) ?load)) p)
     else let r = kcall w (hist p) ?load; att = Setsockopt target_socket SOL_SOCKET SO_ATTACH_BPF (ucast (ret r)) 4;
        r' = kcall w (hist p @ [Sys ?load r]) att in
       (if failed r' then Err (Io (OsError (errno r'))) else Ok (), log_event (Sys att r') (log_event (Sys ?load r) p)))"
    using attach_cases [OF True, of w target_socket p] unfolding Let_def by blast
  show thesis
  proof (cases "failed (kcall w (hist p) ?load)")
    case load_failed: True
    then show thesis
      using assms(1) run by (intro rejected [OF True _ load_failed refl, of e]) auto
  next
    case loaded: False
    then show thesis
      using assms(1) run by (intro bound [OF True loaded refl refl]) (auto simp: Let_def)
  qed
next
  case False
  then show thesis
    using attach_too_long [of pattern w target_socket p] assms refused by auto
qed

lemma demo_attach: "\<exists>p'. attach_kernel_page_discard accepting_world [0x42] 9 fresh_proc = Some (Ok (), p')"
  using attach_cases [of "[0x42]" accepting_world 9 fresh_proc] by (auto simp: accepting_world_def failed_def)

section \<open>Properties of the whole\<close>

text \<open>
  C1: from pattern to packet. When \<open>attach_kernel_page_discard\<close> succeeds, the program it submitted to
  the kernel (and whose descriptor it attached to the socket) searches between the two addresses that it finds at
  offsets 0 and 4 of its context: on every machine with the documented instruction set, if they are the start and the
  end of a packet, as the compiler assumes, it terminates within the stated number of steps, reads only the packet, and
  exits with 1 exactly if the pattern occurs. The program is loaded as a socket filter; what becomes of
  the assumption there is the subject of the next property.
\<close>

theorem attached_filter_decides:
  assumes "attach_kernel_page_discard w pattern target_socket p = Some (Ok (), p')" "length pattern < 2 ^ 62"
    and "isa_filter step ld8 ld32"
  shows "\<exists>attr r r'. hist p' = hist p @ [Sys (Bpf_prog_load attr size_of_prog_load) r,
        Sys (Setsockopt target_socket SOL_SOCKET SO_ATTACH_BPF (ucast (ret r)) 4) r']
    \<and> prog_type attr = BPF_PROG_TYPE_SOCKET_FILTER
    \<and> (\<forall>s data buf fuel. packet_context ld8 ld32 s data buf \<and> unat data + length buf + length pattern < 2 ^ 64
          \<and> Suc (length buf) * (2 * length pattern + 7) + 3 \<le> fuel \<longrightarrow>
        bpf_run step (insns attr) fuel s = Some (Exited (if sublist pattern buf then 1 else 0)))"
  using assms(1,2)
proof (cases rule: attach_events)
  case (bound r r')
  have "bpf_run step (literal_filter pattern) fuel s = Some (Exited (if sublist pattern buf then 1 else 0))"
    if "packet_context ld8 ld32 s data buf \<and> unat data + length buf + length pattern < 2 ^ 64
          \<and> Suc (length buf) * (2 * length pattern + 7) + 3 \<le> fuel" for s data buf fuel
    by (rule isa_filter.literal_filter_exits [OF assms(3) bound(1)]) (use that in \<open>auto simp: packet_context_def\<close>)
  then show ?thesis
    unfolding struct_sizes bound(6) BPF_PROG_TYPE_SOCKET_FILTER_def
    using prog_load_attr_fields(1,3) [of "literal_filter pattern"] by metis
qed simp_all

theorem attached_filter_decides_witness:
  "\<exists>p' attr r r'. attach_kernel_page_discard accepting_world [0x42] 9 fresh_proc = Some (Ok (), p')
    \<and> hist p' = [Sys (Bpf_prog_load attr size_of_prog_load) r, Sys (Setsockopt 9 SOL_SOCKET SO_ATTACH_BPF (ucast (ret r)) 4) r']
    \<and> bpf_run (bpf_step demo_ld8 demo_ld32) (insns attr) 30 \<lparr>pc = 0, rf = (\<lambda>_. 0)(1 := 0x10)\<rparr> = Some (Exited 1)"
proof -
  let ?s = "\<lparr>pc = 0, rf = (\<lambda>_. 0)(1 := 0x10)\<rparr>"
  obtain p' where p': "attach_kernel_page_discard accepting_world [0x42] 9 fresh_proc = Some (Ok (), p')"
    using demo_attach by blast
  have len: "length [0x42 :: u8] < 2 ^ 62"
    by simp
  have "packet_context demo_ld8 demo_ld32 ?s 0x1000 [0x41, 0x42]"
    by (simp add: packet_context_def demo_memory demo_ld32_def R1_def)
  then have pre: "packet_context demo_ld8 demo_ld32 ?s 0x1000 [0x41, 0x42]
      \<and> unat (0x1000 :: u64) + length [0x41, 0x42 :: u8] + length [0x42 :: u8] < 2 ^ 64
      \<and> Suc (length [0x41, 0x42 :: u8]) * (2 * length [0x42 :: u8] + 7) + 3 \<le> 30"
    by simp
  from attached_filter_decides [OF p' len bpf_vm.isa_filter_axioms [where ?ld8.0 = demo_ld8 and ?ld32.0 = demo_ld32]]
  obtain attr r r' where h: "hist p' = hist fresh_proc @ [Sys (Bpf_prog_load attr size_of_prog_load) r,
        Sys (Setsockopt 9 SOL_SOCKET SO_ATTACH_BPF (ucast (ret r)) 4) r']"
    and run: "\<forall>s data buf fuel. packet_context demo_ld8 demo_ld32 s data buf
          \<and> unat data + length buf + length [0x42 :: u8] < 2 ^ 64
          \<and> Suc (length buf) * (2 * length [0x42 :: u8] + 7) + 3 \<le> fuel \<longrightarrow>
        bpf_run (bpf_step demo_ld8 demo_ld32) (insns attr) fuel s = Some (Exited (if sublist [0x42] buf then 1 else 0))"
    by blast
  from run [rule_format, OF pre] p' h show ?thesis
    by (auto simp: sublist_Cons_right)
qed

text \<open>
  C2: what the attached filter does on a socket. The kernel runs a socket filter on \<open>__sk_buff\<close>, where the
  two fields hold the length and the type of the packet. There the program of a non-empty pattern exits with 0, which
  drops the packet, at its first bound check: for every packet of at least 7 bytes, whatever it contains.
\<close>

theorem attached_filter_never_matches:
  assumes "attach_kernel_page_discard w pattern target_socket p = Some (Ok (), p')" "length pattern < 2 ^ 62"
    and "pattern \<noteq> []" "isa_filter step ld8 ld32"
  shows "\<exists>attr r r'. hist p' = hist p @ [Sys (Bpf_prog_load attr size_of_prog_load) r,
        Sys (Setsockopt target_socket SOL_SOCKET SO_ATTACH_BPF (ucast (ret r)) 4) r']
    \<and> prog_type attr = BPF_PROG_TYPE_SOCKET_FILTER
    \<and> (\<forall>s len pkt_type fuel. sk_buff_context ld32 s len pkt_type \<and> 7 \<le> unat len \<and> 10 \<le> fuel \<longrightarrow>
        bpf_run step (insns attr) fuel s = Some (Exited 0))"
  using assms(1,2)
proof (cases rule: attach_events)
  case (bound r r')
  have "bpf_run step (literal_filter pattern) fuel s = Some (Exited 0)"
    if "sk_buff_context ld32 s len pkt_type \<and> 7 \<le> unat len \<and> 10 \<le> fuel" for s len pkt_type fuel
  proof (rule isa_filter.literal_filter_gives_up [OF assms(4) bound(1) assms(3)])
    have "unat (of_nat (length pattern) :: u64) = length pattern" "0 < length pattern"
      using bound(1) assms(3) by (simp_all add: unat_of_nat)
    moreover have "unat (len + of_nat (length pattern)) = unat len + unat (of_nat (length pattern) :: u64)"
      using that bound(1) calculation(1) by (intro unat_add_small) (simp add: sk_buff_context_def)
    ultimately show "pkt_type < len + of_nat (length pattern)"
      using that unfolding sk_buff_context_def word_less_nat_alt by linarith
  qed (use that in \<open>auto simp: sk_buff_context_def\<close>)
  then show ?thesis
    unfolding struct_sizes bound(6) BPF_PROG_TYPE_SOCKET_FILTER_def
    using prog_load_attr_fields(1,3) [of "literal_filter pattern"] by metis
qed simp_all

theorem attached_filter_never_matches_witness:
  "\<exists>p' attr r r'. attach_kernel_page_discard accepting_world [0x42] 9 fresh_proc = Some (Ok (), p')
    \<and> hist p' = [Sys (Bpf_prog_load attr size_of_prog_load) r, Sys (Setsockopt 9 SOL_SOCKET SO_ATTACH_BPF (ucast (ret r)) 4) r']
    \<and> bpf_run (bpf_step demo_ld8 (\<lambda>a. Some (if a = 0x10 then 60 else 4))) (insns attr) 10 \<lparr>pc = 0, rf = (\<lambda>_. 0)(1 := 0x10)\<rparr>
      = Some (Exited 0)"
proof -
  let ?ld32 = "\<lambda>a :: u64. Some (if a = 0x10 then 60 else 4 :: u64)" and ?s = "\<lparr>pc = 0, rf = (\<lambda>_. 0)(1 := 0x10)\<rparr>"
  obtain p' where p': "attach_kernel_page_discard accepting_world [0x42] 9 fresh_proc = Some (Ok (), p')"
    using demo_attach by blast
  have "sk_buff_context ?ld32 ?s 60 4 \<and> 7 \<le> unat (60 :: u64) \<and> 10 \<le> (10 :: nat)"
    by (simp add: sk_buff_context_def R1_def)
  with attached_filter_never_matches [OF p' _ _ bpf_vm.isa_filter_axioms [where ?ld8.0 = demo_ld8 and ?ld32.0 = ?ld32]]
  show ?thesis
    using p' by fastforce
qed

text \<open>
  C22: the outcomes of attaching, for every pattern and every kernel: a pattern over 1024 bytes is
  refused by the compiler without a system call; any other reaches the kernel in one load call
  (the loader's own guards never reject a compiled filter), followed, if it was accepted, by
  one call attaching the returned descriptor to the socket; success is reported exactly
  when both succeed. There is no panic.
\<close>

theorem attach_outcomes:
  assumes "length pattern < 2 ^ 62"
  shows "\<exists>res p'. attach_kernel_page_discard w pattern target_socket p = Some (res, p')
    \<and> (if length pattern > 1024 then p' = p \<and> (\<exists>n m. res = Err (Compile (PatternTooLong n m)))
       else \<exists>load r. load = Bpf_prog_load (prog_load_attr (literal_filter pattern)) size_of_prog_load
         \<and> r = kcall w (hist p) load
         \<and> (if failed r then hist p' = hist p @ [Sys load r] \<and> (\<exists>e. res = Err (Io e))
            else \<exists>att r'. att = Setsockopt target_socket SOL_SOCKET SO_ATTACH_BPF (ucast (ret r)) 4
              \<and> r' = kcall w (hist p @ [Sys load r]) att \<and> hist p' = hist p @ [Sys load r, Sys att r']
              \<and> res = (if failed r' then Err (Io (OsError (errno r'))) else Ok ())))"
proof -
  obtain res p' where run: "attach_kernel_page_discard w pattern target_socket p = Some (res, p')"
    using attach_total [OF assms] by blast
  show ?thesis
    by (intro exI, rule conjI [OF run], rule attach_events [OF run assms]) (simp_all add: struct_sizes)
qed

theorem attach_outcomes_witness:
  "\<exists>res p'. attach_kernel_page_discard rejecting_world [0x42] 9 fresh_proc = Some (res, p') \<and> (\<exists>e. res = Err (Io e))"
  using attach_outcomes [of "[0x42]" rejecting_world 9 fresh_proc]
  by (auto simp: rejecting_world_def failed_def)



text \<open>
  The compiler and the loader agree on the limit: every program that any of the four compile
  functions returns passes the loader's guards and is submitted to the kernel in one load call.
\<close>

theorem compiled_programs_are_submitted:
  assumes "length pattern < 2 ^ 62 \<and> compile_literal_search pattern = Some (Ok prog)
    \<or> length rs < 2 ^ 62 \<and> compile_char_class rs = Some (Ok prog)
    \<or> length cls < 2 ^ 61 \<and> compile_character_class cls = Some (Ok prog)
    \<or> alts_size as < 2 ^ 62 \<and> compile_alternation as = Some (Ok prog)"
  shows "\<exists>r. hist (snd (load_filter w prog p)) = hist p @ [Sys (Bpf_prog_load (prog_load_attr prog) size_of_prog_load) r]"
proof -
  have "well_formed_program prog"
    using assms compiled_well_formed [of pattern prog rs cls as] by blast
  then show ?thesis
    by (simp add: load_well_formed struct_sizes Let_def)
qed

theorem compiled_programs_are_submitted_witness:
  "\<exists>r. hist (snd (load_filter accepting_world (class_program [\<lparr>lo = 1, hi = 2\<rparr>]) fresh_proc))
     = [Sys (Bpf_prog_load (prog_load_attr (class_program [\<lparr>lo = 1, hi = 2\<rparr>])) size_of_prog_load) r]"
  using compiled_programs_are_submitted [of "[]" "class_program [\<lparr>lo = 1, hi = 2\<rparr>]" "[\<lparr>lo = 1, hi = 2\<rparr>]" "[]" "[]"
      accepting_world fresh_proc]
  by (simp add: compile_char_class_eq)

end
